(* ===== verification/Iona_Prelude.thy ===== *)
theory Iona_Prelude
  imports Main "HOL-Library.Char_ord" "HOL-Library.List_Lexorder" "HOL-Library.Product_Lexorder"
begin

text \<open>
  Shared ground of the development: Rust's unsigned machine integers and its results.

  An unsigned integer of width \<open>w\<close> (\<open>u64\<close>, \<open>u128\<close>, \<open>usize\<close>) is a natural number below \<open>2 ^ w\<close>;
  every operation that can leave that range takes the width and says what Rust does there. The
  release profile of \<open>Cargo.toml\<close> sets \<open>overflow-checks = true\<close> and \<open>panic = "abort"\<close>, so a plain
  \<open>+\<close>, \<open>-\<close> or \<open>*\<close> that overflows ends the process: it is modelled by the checked operation with
  \<open>None\<close> read as a panic. \<open>String\<close> is \<open>string\<close> with one byte per character, which is
  exact for ASCII (UTF-8 sequences of several bytes are not modelled), compared as Rust compares it (the
  orders of \<open>Char_ord\<close> and \<open>List_Lexorder\<close>), and pairs are ordered lexicographically
  (\<open>Product_Lexorder\<close>).
\<close>

subsection \<open>Collections of rules\<close>

named_theorems rust_arith \<open>unfolding rules of the machine-integer operations\<close>
named_theorems state_simps \<open>unfolding rules of state-changing operations\<close>

subsection \<open>Machine integers\<close>

type_synonym u32 = nat
type_synonym u64 = nat
type_synonym u128 = nat
type_synonym usize = nat

definition umax :: "nat \<Rightarrow> nat" where
  "umax w = 2 ^ w - 1"

definition checked_add :: "nat \<Rightarrow> nat \<Rightarrow> nat \<Rightarrow> nat option" where
  "checked_add w a b = (if a + b < 2 ^ w then Some (a + b) else None)"

definition checked_sub :: "nat \<Rightarrow> nat \<Rightarrow> nat option" where
  "checked_sub a b = (if b \<le> a then Some (a - b) else None)"

definition checked_mul :: "nat \<Rightarrow> nat \<Rightarrow> nat \<Rightarrow> nat option" where
  "checked_mul w a b = (if a * b < 2 ^ w then Some (a * b) else None)"

definition saturating_add :: "nat \<Rightarrow> nat \<Rightarrow> nat \<Rightarrow> nat" where
  "saturating_add w a b = min (a + b) (2 ^ w - 1)"

definition saturating_sub :: "nat \<Rightarrow> nat \<Rightarrow> nat" where
  "saturating_sub a b = a - b"

definition saturating_mul :: "nat \<Rightarrow> nat \<Rightarrow> nat \<Rightarrow> nat" where
  "saturating_mul w a b = min (a * b) (2 ^ w - 1)"

definition wrapping_add :: "nat \<Rightarrow> nat \<Rightarrow> nat \<Rightarrow> nat" where
  "wrapping_add w a b = (a + b) mod 2 ^ w"

definition try_from :: "nat \<Rightarrow> nat \<Rightarrow> nat option" where
  \<comment> \<open>\<open>uN::try_from\<close>: the value when it fits the narrower width\<close>
  "try_from w a = (if a < 2 ^ w then Some a else None)"

lemmas checked_defs [rust_arith] =
  checked_add_def checked_sub_def checked_mul_def try_from_def
lemmas saturating_defs [rust_arith] =
  saturating_add_def saturating_sub_def saturating_mul_def

lemma checked_add_Some [simp]:
  "checked_add w a b = Some c \<longleftrightarrow> a + b < 2 ^ w \<and> c = a + b"
  by (auto simp: checked_add_def)

lemma checked_add_None [simp]: "checked_add w a b = None \<longleftrightarrow> 2 ^ w \<le> a + b"
  by (auto simp: checked_add_def)

lemma checked_sub_Some [simp]: "checked_sub a b = Some c \<longleftrightarrow> b \<le> a \<and> c = a - b"
  by (auto simp: checked_sub_def)

lemma checked_sub_None [simp]: "checked_sub a b = None \<longleftrightarrow> a < b"
  by (auto simp: checked_sub_def)

lemma try_from_Some [simp]: "try_from w a = Some c \<longleftrightarrow> a < 2 ^ w \<and> c = a"
  by (auto simp: try_from_def)

lemma try_from_None [simp]: "try_from w a = None \<longleftrightarrow> 2 ^ w \<le> a"
  by (auto simp: try_from_def)

lemma saturating_add_exact: "a + b < 2 ^ w \<Longrightarrow> saturating_add w a b = a + b"
  by (simp add: saturating_add_def)

lemma saturating_add_less [simp]: "saturating_add w a b < 2 ^ w"
  unfolding saturating_add_def by (rule le_less_trans [OF min.cobounded2]) simp

lemma saturating_add_le: "saturating_add w a b \<le> a + b"
  by (simp add: saturating_add_def)

subsection \<open>Results\<close>

text \<open>
  The outcome of a fallible Rust function. \<open>Panic\<close> is the abort of the process: an overflow of
  unchecked arithmetic, an index out of range or an explicit \<open>panic!\<close>.
\<close>

datatype ('e, 'a) result = Ok 'a | Err 'e | Panic

fun is_ok :: "('e, 'a) result \<Rightarrow> bool" where
  "is_ok (Ok _) = True"
| "is_ok (Err _) = False"
| "is_ok Panic = False"

lemma is_ok_iff: "is_ok r \<longleftrightarrow> (\<exists>x. r = Ok x)"
  by (cases r) auto

subsection \<open>Floor division\<close>

text \<open>The floor of a sum of two fractions with the same denominator.\<close>

lemma div_add_le: "(a :: nat) div c + b div c \<le> (a + b) div c"
  by (metis div_add1_eq le_add1)

lemma div_add_ge:
  assumes "0 < (c :: nat)"
  shows "(a + b) div c \<le> a div c + b div c + 1"
proof -
  have "(a mod c + b mod c) div c \<le> 1"
  proof -
    have "a mod c + b mod c < 2 * c"
      using mod_less_divisor [OF assms, of a] mod_less_divisor [OF assms, of b] by linarith
    then have "(a mod c + b mod c) div c < 2"
      using assms by (simp add: div_less_iff_less_mult)
    then show ?thesis by simp
  qed
  then show ?thesis by (simp add: div_add1_eq [of a b c])
qed

lemma sum_list_add_nat:
  "(\<Sum>x\<leftarrow>xs. f x + g x) = (\<Sum>x\<leftarrow>xs. f x) + ((\<Sum>x\<leftarrow>xs. g x) :: nat)"
  by (induction xs) auto

lemma length_filter_filter: "length (filter P (filter Q xs)) \<le> length (filter P xs)"
  by (induction xs) auto

lemma replicate_less: "replicate n x < replicate n y \<longleftrightarrow> 0 < n \<and> x < (y :: 'a :: linorder)"
  by (induction n) auto

lemma append_less: "xs @ ys < xs @ zs \<longleftrightarrow> ys < (zs :: 'a :: linorder list)"
  by (induction xs) auto

end
