(* ===== verification/Btree_Map.thy ===== *)
theory Btree_Map
  imports Iona_Prelude
begin

text \<open>
  Rust's \<open>BTreeMap\<close>: an association list in strictly ascending key order, which is also the order
  its iterators visit. \<open>bt_get\<close> is \<open>get\<close>, \<open>bt_insert\<close> is \<open>insert\<close> (and a write through
  \<open>get_mut\<close> or \<open>entry\<close>), \<open>bt_remove\<close> is \<open>remove\<close>, \<open>bt_sum\<close> the sum of a weight over all
  entries. The locale \<open>weighted_map\<close> is the interface the ledgers of the development rely on: a
  map with insertion, removal and a total weight. Its lemmas say how a total moves when entries
  are replaced, added or paired up; the association list is its instance \<open>bt\<close>.
\<close>

subsection \<open>The interface: maps with a total weight\<close>

locale weighted_map =
  fixes wf :: "'m \<Rightarrow> bool"
    and get :: "'m \<Rightarrow> 'k \<Rightarrow> 'v option"
    and ins :: "'k \<Rightarrow> 'v \<Rightarrow> 'm \<Rightarrow> 'm"
    and del :: "'k \<Rightarrow> 'm \<Rightarrow> 'm"
    and total :: "('k \<Rightarrow> 'v \<Rightarrow> nat) \<Rightarrow> 'm \<Rightarrow> nat"
  assumes get_ins: "wf m \<Longrightarrow> get (ins k v m) k' = (if k' = k then Some v else get m k')"
    and get_del: "wf m \<Longrightarrow> get (del k m) k' = (if k' = k then None else get m k')"
    and wf_ins: "wf m \<Longrightarrow> wf (ins k v m)"
    and wf_del: "wf m \<Longrightarrow> wf (del k m)"
    and total_ins: "wf m \<Longrightarrow> total f (ins k v m) = f k v + total f (del k m)"
    and total_split: "wf m \<Longrightarrow> get m k = Some v \<Longrightarrow> total f m = f k v + total f (del k m)"
    and del_absent: "wf m \<Longrightarrow> get m k = None \<Longrightarrow> del k m = m"
begin

lemma total_replace:
  assumes "wf m" and "get m k = Some old"
  shows "total f (ins k new m) + f k old = total f m + f k new"
  using total_ins [OF assms(1), of f k new] total_split [OF assms, of f] by simp

lemma total_fresh:
  assumes "wf m" and "get m k = None"
  shows "total f (ins k new m) = f k new + total f m"
  using total_ins [OF assms(1), of f k new] del_absent [OF assms] by simp

lemma total_same_weight:
  assumes "wf m" and "get m k = Some old" and "f k new = f k old"
  shows "total f (ins k new m) = total f m"
  using total_replace [OF assms(1,2), of f new] assms(3) by simp

lemma total_upsert:
  assumes "wf m"
  shows "total f (ins k new m) + (case get m k of None \<Rightarrow> 0 | Some old \<Rightarrow> f k old)
    = total f m + f k new"
  using total_replace [OF assms, of k] total_fresh [OF assms, of k]
  by (cases "get m k") (auto simp: add.commute)

lemma total_ge:
  assumes "wf m" and "get m k = Some v"
  shows "f k v \<le> total f m"
  using total_split [OF assms, of f] by simp

lemma total_del:
  assumes "wf m" and "get m k = Some v"
  shows "total f (del k m) + f k v = total f m"
  using total_split [OF assms, of f] by simp

end

subsection \<open>The association list\<close>

type_synonym ('k, 'v) btree = "('k \<times> 'v) list"

definition bt_wf :: "('k::linorder, 'v) btree \<Rightarrow> bool" where
  "bt_wf m = sorted_wrt (<) (map fst m)"

definition bt_get :: "('k::linorder, 'v) btree \<Rightarrow> 'k \<Rightarrow> 'v option" where
  "bt_get m k = map_of m k"

fun bt_insert :: "'k::linorder \<Rightarrow> 'v \<Rightarrow> ('k, 'v) btree \<Rightarrow> ('k, 'v) btree" where
  "bt_insert k v [] = [(k, v)]"
| "bt_insert k v ((k', v') # m) =
     (if k < k' then (k, v) # (k', v') # m
      else if k = k' then (k, v) # m
      else (k', v') # bt_insert k v m)"

definition bt_remove :: "'k::linorder \<Rightarrow> ('k, 'v) btree \<Rightarrow> ('k, 'v) btree" where
  "bt_remove k m = filter (\<lambda>(k', _). k' \<noteq> k) m"

definition bt_contains :: "('k::linorder, 'v) btree \<Rightarrow> 'k \<Rightarrow> bool" where
  "bt_contains m k = (bt_get m k \<noteq> None)"

fun bt_sum :: "('k \<Rightarrow> 'v \<Rightarrow> nat) \<Rightarrow> ('k::linorder, 'v) btree \<Rightarrow> nat" where
  "bt_sum f [] = 0"
| "bt_sum f ((k, v) # m) = f k v + bt_sum f m"

lemma bt_wf_Nil [simp]: "bt_wf []"
  by (simp add: bt_wf_def)

lemma bt_wf_Cons [simp]: "bt_wf ((k, v) # m) \<longleftrightarrow> (\<forall>x \<in> fst ` set m. k < x) \<and> bt_wf m"
  by (auto simp: bt_wf_def)

lemma bt_get_Nil [simp]: "bt_get [] k = None"
  by (simp add: bt_get_def)

lemma bt_get_Cons [simp]: "bt_get ((k', v) # m) k = (if k = k' then Some v else bt_get m k)"
  by (simp add: bt_get_def)

lemma bt_remove_Nil [simp]: "bt_remove k [] = []"
  by (simp add: bt_remove_def)

lemma bt_remove_Cons [simp]:
  "bt_remove k ((k', v) # m) = (if k' = k then bt_remove k m else (k', v) # bt_remove k m)"
  by (simp add: bt_remove_def)

lemma bt_get_in_set: "bt_get m k = Some v \<Longrightarrow> (k, v) \<in> set m"
  by (simp add: bt_get_def map_of_SomeD)

lemma bt_in_set_get: "bt_wf m \<Longrightarrow> (k, v) \<in> set m \<Longrightarrow> bt_get m k = Some v"
  by (induction m) (force split: prod.splits)+

lemma bt_get_None_iff: "bt_get m k = None \<longleftrightarrow> k \<notin> fst ` set m"
  by (simp add: bt_get_def map_of_eq_None_iff)

lemma bt_insert_keys [simp]: "fst ` set (bt_insert k v m) = insert k (fst ` set m)"
  by (induction k v m rule: bt_insert.induct) auto

lemma bt_remove_keys [simp]: "fst ` set (bt_remove k m) = fst ` set m - {k}"
  by (auto simp: bt_remove_def)

lemma bt_wf_insert: "bt_wf m \<Longrightarrow> bt_wf (bt_insert k v m)"
  by (induction k v m rule: bt_insert.induct) auto

lemma bt_wf_remove: "bt_wf m \<Longrightarrow> bt_wf (bt_remove k m)"
  by (induction m) (auto simp: bt_wf_def)

lemma bt_get_insert: "bt_get (bt_insert k v m) k' = (if k' = k then Some v else bt_get m k')"
  by (induction k v m rule: bt_insert.induct) auto

lemma bt_get_remove: "bt_get (bt_remove k m) k' = (if k' = k then None else bt_get m k')"
  by (induction m) auto

lemma bt_insert_insert [simp]: "bt_insert k v (bt_insert k v' m) = bt_insert k v m"
  by (induction k v' m rule: bt_insert.induct) auto

lemma bt_remove_absent: "k \<notin> fst ` set m \<Longrightarrow> bt_remove k m = m"
  by (induction m) auto

lemma bt_sum_insert:
  "bt_wf m \<Longrightarrow> bt_sum f (bt_insert k v m) = f k v + bt_sum f (bt_remove k m)"
proof (induction k v m rule: bt_insert.induct)
  case (2 k v k' v' m)
  have gt: "k < k' \<Longrightarrow> k \<notin> fst ` set m" using "2.prems" by auto
  have eq: "k = k' \<Longrightarrow> k \<notin> fst ` set m" using "2.prems" by auto
  show ?case using 2 gt eq by (auto simp: bt_remove_absent)
qed simp

lemma bt_sum_split:
  "bt_wf m \<Longrightarrow> bt_get m k = Some v \<Longrightarrow> bt_sum f m = f k v + bt_sum f (bt_remove k m)"
proof (induction m)
  case (Cons a m)
  obtain k' v' where a: "a = (k', v')" by (cases a)
  have "k = k' \<Longrightarrow> k \<notin> fst ` set m" using Cons.prems(1) a by auto
  then show ?case using Cons a by (auto split: if_splits simp: bt_remove_absent)
qed simp

interpretation bt: weighted_map bt_wf bt_get bt_insert bt_remove bt_sum
  by unfold_locales
    (auto simp: bt_get_insert bt_get_remove bt_wf_insert bt_wf_remove bt_sum_insert
      bt_sum_split bt_remove_absent bt_get_None_iff)

lemma bt_sum_cong:
  "(\<And>k v. (k, v) \<in> set m \<Longrightarrow> f k v = g k v) \<Longrightarrow> bt_sum f m = bt_sum g m"
  by (induction m) auto

lemma bt_sum_add: "bt_sum (\<lambda>k v. f k v + g k v) m = bt_sum f m + bt_sum g m"
  by (induction m) auto

lemma bt_sum_mono:
  "(\<And>k v. (k, v) \<in> set m \<Longrightarrow> f k v \<le> g k v) \<Longrightarrow> bt_sum f m \<le> bt_sum g m"
  by (induction m) (force intro: add_mono)+

lemma bt_sum_zero: "(\<And>k v. (k, v) \<in> set m \<Longrightarrow> f k v = 0) \<Longrightarrow> bt_sum f m = 0"
  by (induction m) force+

lemma bt_sum_zero_iff: "bt_sum f m = 0 \<longleftrightarrow> (\<forall>(k, v) \<in> set m. f k v = 0)"
  by (induction m) auto

lemmas bt_simps = bt.get_ins bt.get_del bt.wf_ins bt.wf_del

subsection \<open>A property of every entry\<close>

lemma set_bt_insert: "bt_wf m \<Longrightarrow> set (bt_insert k v m) = insert (k, v) {x \<in> set m. fst x \<noteq> k}"
  by (induction k v m rule: bt_insert.induct) (auto; force)+

lemma bt_wf_distinct: "bt_wf m \<Longrightarrow> distinct m" "bt_wf m \<Longrightarrow> distinct (map fst m)"
  by (auto simp: bt_wf_def strict_sorted_iff distinct_map)

definition bt_all :: "('k::linorder \<Rightarrow> 'v \<Rightarrow> bool) \<Rightarrow> ('k, 'v) btree \<Rightarrow> bool" where
  "bt_all P m \<longleftrightarrow> bt_wf m \<and> list_all (\<lambda>(k, v). P k v) m"

lemma bt_all_Nil [simp]: "bt_all P []" "bt_all P [(k, v)] = P k v"
  by (simp_all add: bt_all_def)

lemma bt_all_insert [intro]: "bt_all P m \<Longrightarrow> P k v \<Longrightarrow> bt_all P (bt_insert k v m)"
  by (auto simp: bt_all_def list_all_iff set_bt_insert bt_wf_insert)

lemma bt_all_get: "bt_all P m \<Longrightarrow> bt_get m k = Some v \<Longrightarrow> P k v"
  by (auto simp: bt_all_def list_all_iff dest: bt_get_in_set)

lemma bt_all_mono: "bt_all P m \<Longrightarrow> (\<And>k v. P k v \<Longrightarrow> Q k v) \<Longrightarrow> bt_all Q m"
  by (auto simp: bt_all_def list_all_iff)

end
