(* ===== verification/Staking.thy ===== *)
theory Staking
  imports Btree_Map
begin

text \<open>
  The staking module, \<open>src/economics/staking.rs\<close>: validators with their bond, delegations with
  their unbonding queues, and the operations \<open>delegate\<close>, \<open>undelegate\<close>, \<open>withdraw\<close>, \<open>slash\<close>,
  \<open>unjail\<close> and \<open>recompute_total_stake\<close>. An operation on \<open>&mut self\<close> returns the state it leaves
  behind together with its result, also when the result is an error, so that a failure after a
  first write is visible. The bond invariant of the module's documentation, strengthened by what
  the operations need of each other, is \<open>staking_inv\<close>.
\<close>

subsection \<open>Data\<close>

definition MAX_BPS :: u64 where
  "MAX_BPS = 10000"

record validator =
  operator :: string
  self_stake :: u128
  total_stake :: u128
  jailed :: bool
  commission_bps :: u64

record unbonding_entry =
  ub_id :: u64
  ub_amount :: u128
  unlock_epoch :: u64

record delegation =
  amount :: u128
  unbondings :: "unbonding_entry list"

record staking_state =
  validators :: "(string, validator) btree"
  delegations :: "(string \<times> string, delegation) btree"
  next_unbonding_id :: u64

datatype staking_error =
    ValidatorNotFound string
  | DelegationNotFound string string
  | InsufficientBalance u128 u128
  | ZeroAmount
  | UndelegateExceedsDelegation u128 u128
  | ValidatorJailed string
  | InvalidCommission u64
  | InvalidSlashRate u64
  | Overflow string

record slash_outcome =
  so_validator :: string
  so_slash_bps :: u64
  self_slashed :: u128
  delegations_slashed :: u128
  unbondings_slashed :: u128
  total_slashed :: u128
  so_jailed :: bool

definition validator_new :: "string \<Rightarrow> u128 \<Rightarrow> u64 \<Rightarrow> (staking_error, validator) result" where
  "validator_new op stake bps =
     (if MAX_BPS < bps then Err (InvalidCommission bps)
      else Ok \<lparr>operator = op, self_stake = stake, total_stake = stake, jailed = False,
               commission_bps = bps\<rparr>)"

definition delegation_default :: delegation where
  "delegation_default = \<lparr>amount = 0, unbondings = []\<rparr>"

definition staking_default :: staking_state where
  "staking_default = \<lparr>validators = [], delegations = [], next_unbonding_id = 0\<rparr>"

definition pending_unbonding :: "delegation \<Rightarrow> u128" where
  "pending_unbonding d = foldl (\<lambda>acc e. saturating_add 128 acc (ub_amount e)) 0 (unbondings d)"

subsection \<open>Queries\<close>

definition total_delegated_to :: "staking_state \<Rightarrow> string \<Rightarrow> u128" where
  "total_delegated_to s val =
     foldl (\<lambda>acc (k, d). saturating_add 128 acc (amount d)) 0
       (filter (\<lambda>((_, v), _). v = val) (delegations s))"

definition check_invariants :: "staking_state \<Rightarrow> bool" where
  \<comment> \<open>the condition of the \<open>debug_assert_eq!\<close> for every validator\<close>
  "check_invariants s =
     list_all (\<lambda>(addr, v). total_stake v =
         saturating_add 128 (self_stake v) (total_delegated_to s addr)) (validators s)"

subsection \<open>Arithmetic helper\<close>

definition mul_div_bps :: "u128 \<Rightarrow> u64 \<Rightarrow> u128" where
  "mul_div_bps a bps =
     (let hi = a div MAX_BPS; lo = a mod MAX_BPS in hi * bps + (lo * bps) div MAX_BPS)"

subsection \<open>Operations\<close>

definition delegate ::
  "staking_state \<Rightarrow> string \<Rightarrow> string \<Rightarrow> u128 \<Rightarrow> (string \<Rightarrow> u128)
    \<Rightarrow> staking_state \<times> (staking_error, unit) result" where
  "delegate s delegator val amt balance_of =
     (if amt = 0 then (s, Err ZeroAmount)
      else if balance_of delegator < amt
      then (s, Err (InsufficientBalance (balance_of delegator) amt))
      else case bt_get (validators s) val of
        None \<Rightarrow> (s, Err (ValidatorNotFound val))
      | Some v \<Rightarrow>
          (if jailed v then (s, Err (ValidatorJailed val))
           else case checked_add 128 (total_stake v) amt of
             None \<Rightarrow> (s, Err (Overflow ''delegate.total_stake''))
           | Some new_total \<Rightarrow>
               (let key = (delegator, val);
                    old = (case bt_get (delegations s) key of
                             None \<Rightarrow> delegation_default | Some d \<Rightarrow> d)
                in case checked_add 128 (amount old) amt of
                     None \<Rightarrow> (s, Err (Overflow ''delegate.delegation''))
                   | Some new_amount \<Rightarrow>
                       (s\<lparr>validators := bt_insert val (v\<lparr>total_stake := new_total\<rparr>) (validators s),
                          delegations := bt_insert key (old\<lparr>amount := new_amount\<rparr>) (delegations s)\<rparr>,
                        Ok ()))))"

definition undelegate ::
  "staking_state \<Rightarrow> string \<Rightarrow> string \<Rightarrow> u128 \<Rightarrow> u64 \<Rightarrow> u64
    \<Rightarrow> staking_state \<times> (staking_error, u64) result" where
  "undelegate s delegator val amt current_epoch unbonding_epochs =
     (if amt = 0 then (s, Err ZeroAmount)
      else case bt_get (validators s) val of
        None \<Rightarrow> (s, Err (ValidatorNotFound val))
      | Some v \<Rightarrow>
          (case bt_get (delegations s) (delegator, val) of
             None \<Rightarrow> (s, Err (DelegationNotFound delegator val))
           | Some d \<Rightarrow>
               (if amount d < amt then (s, Err (UndelegateExceedsDelegation amt (amount d)))
                else case checked_add 64 (next_unbonding_id s) 1 of
                  None \<Rightarrow> (s, Err (Overflow ''undelegate.id''))
                | Some next_id \<Rightarrow>
                    (let entry = \<lparr>ub_id = next_unbonding_id s, ub_amount = amt,
                           unlock_epoch = saturating_add 64 current_epoch unbonding_epochs\<rparr>;
                         d' = d\<lparr>amount := amount d - amt, unbondings := unbondings d @ [entry]\<rparr>;
                         s1 = s\<lparr>next_unbonding_id := next_id,
                           delegations := bt_insert (delegator, val) d' (delegations s)\<rparr>
                     in case checked_sub (total_stake v) amt of
                          None \<Rightarrow> (s1, Err (Overflow ''undelegate.total_stake''))
                        | Some t \<Rightarrow>
                            (s1\<lparr>validators :=
                                bt_insert val (v\<lparr>total_stake := t\<rparr>) (validators s1)\<rparr>,
                             Ok (next_unbonding_id s))))))"

text \<open>
  The loop of \<open>withdraw\<close> over \<open>unbondings.drain(..)\<close>. An overflow of the running sum leaves the
  loop by \<open>?\<close>: the \<open>Drain\<close> is dropped and takes every remaining entry with it.
\<close>

fun withdraw_loop :: "u64 \<Rightarrow> unbonding_entry list \<Rightarrow> u128 \<Rightarrow> (u128 \<times> unbonding_entry list) option" where
  "withdraw_loop epoch [] withdrawn = Some (withdrawn, [])"
| "withdraw_loop epoch (e # es) withdrawn =
     (if unlock_epoch e \<le> epoch
      then (case checked_add 128 withdrawn (ub_amount e) of
              None \<Rightarrow> None
            | Some w \<Rightarrow> withdraw_loop epoch es w)
      else (case withdraw_loop epoch es withdrawn of
              None \<Rightarrow> None
            | Some (w, retained) \<Rightarrow> Some (w, e # retained)))"

definition withdraw ::
  "staking_state \<Rightarrow> string \<Rightarrow> string \<Rightarrow> u64
    \<Rightarrow> staking_state \<times> (staking_error, u128) result" where
  "withdraw s delegator val current_epoch =
     (let key = (delegator, val) in
      case bt_get (delegations s) key of
        None \<Rightarrow> (s, Err (DelegationNotFound delegator val))
      | Some d \<Rightarrow>
          (case withdraw_loop current_epoch (unbondings d) 0 of
             None \<Rightarrow>
               (s\<lparr>delegations := bt_insert key (d\<lparr>unbondings := []\<rparr>) (delegations s)\<rparr>,
                Err (Overflow ''withdraw.sum''))
           | Some (withdrawn, retained) \<Rightarrow>
               (if amount d = 0 \<and> retained = []
                then (s\<lparr>delegations := bt_remove key (delegations s)\<rparr>, Ok withdrawn)
                else (s\<lparr>delegations :=
                          bt_insert key (d\<lparr>unbondings := retained\<rparr>) (delegations s)\<rparr>,
                      Ok withdrawn))))"

text \<open>The two nested loops of \<open>slash\<close>; \<open>None\<close> is the overflow panic of \<open>+=\<close>.\<close>

fun slash_unbondings ::
  "u64 \<Rightarrow> unbonding_entry list \<Rightarrow> u128 \<Rightarrow> (unbonding_entry list \<times> u128) option" where
  "slash_unbondings bps [] us = Some ([], us)"
| "slash_unbondings bps (e # es) us =
     (let unbonded = mul_div_bps (ub_amount e) bps in
      case checked_add 128 us unbonded of
        None \<Rightarrow> None
      | Some us' \<Rightarrow>
          (case slash_unbondings bps es us' of
             None \<Rightarrow> None
           | Some (es', r) \<Rightarrow> Some (e\<lparr>ub_amount := ub_amount e - unbonded\<rparr> # es', r)))"

fun slash_delegations ::
  "string \<Rightarrow> u64 \<Rightarrow> (string \<times> string, delegation) btree \<Rightarrow> u128 \<Rightarrow> u128
    \<Rightarrow> ((string \<times> string, delegation) btree \<times> u128 \<times> u128) option" where
  "slash_delegations val bps [] ds us = Some ([], ds, us)"
| "slash_delegations val bps ((k, d) # m) ds us =
     (if snd k \<noteq> val
      then (case slash_delegations val bps m ds us of
              None \<Rightarrow> None
            | Some (m', r) \<Rightarrow> Some ((k, d) # m', r))
      else (let bonded = mul_div_bps (amount d) bps in
            case checked_add 128 ds bonded of
              None \<Rightarrow> None
            | Some ds' \<Rightarrow>
                (case slash_unbondings bps (unbondings d) us of
                   None \<Rightarrow> None
                 | Some (es, us') \<Rightarrow>
                     (case slash_delegations val bps m ds' us' of
                        None \<Rightarrow> None
                      | Some (m', r) \<Rightarrow>
                          Some ((k, d\<lparr>amount := amount d - bonded, unbondings := es\<rparr>) # m', r)))))"

definition slash ::
  "staking_state \<Rightarrow> string \<Rightarrow> u64 \<Rightarrow> staking_state \<times> (staking_error, slash_outcome) result" where
  "slash s val bps =
     (if MAX_BPS < bps then (s, Err (InvalidSlashRate bps))
      else case bt_get (validators s) val of
        None \<Rightarrow> (s, Err (ValidatorNotFound val))
      | Some v \<Rightarrow>
          (let self_cut = mul_div_bps (self_stake v) bps;
               v1 = v\<lparr>self_stake := self_stake v - self_cut\<rparr>;
               s1 = s\<lparr>validators := bt_insert val v1 (validators s)\<rparr>
           in case slash_delegations val bps (delegations s1) 0 0 of
                None \<Rightarrow> (s1, Panic)
              | Some (ds, deleg_cut, unb_cut) \<Rightarrow>
                  (let s2 = s1\<lparr>delegations := ds\<rparr> in
                   case checked_add 128 self_cut deleg_cut of
                     None \<Rightarrow> (s2, Err (Overflow ''slash.bond_reduction''))
                   | Some bond_reduction \<Rightarrow>
                       (case checked_sub (total_stake v1) bond_reduction of
                          None \<Rightarrow> (s2, Err (Overflow ''slash.total_stake''))
                        | Some t \<Rightarrow>
                            (let s3 = s2\<lparr>validators :=
                                   bt_insert val (v1\<lparr>total_stake := t, jailed := True\<rparr>)
                                     (validators s2)\<rparr>
                             in case checked_add 128 bond_reduction unb_cut of
                                  None \<Rightarrow> (s3, Err (Overflow ''slash.total''))
                                | Some tot \<Rightarrow>
                                    (s3, Ok \<lparr>so_validator = val, so_slash_bps = bps,
                                            self_slashed = self_cut,
                                            delegations_slashed = deleg_cut,
                                            unbondings_slashed = unb_cut,
                                            total_slashed = tot, so_jailed = True\<rparr>))))))"

definition unjail :: "staking_state \<Rightarrow> string \<Rightarrow> staking_state \<times> (staking_error, unit) result" where
  "unjail s val =
     (case bt_get (validators s) val of
        None \<Rightarrow> (s, Err (ValidatorNotFound val))
      | Some v \<Rightarrow> (s\<lparr>validators := bt_insert val (v\<lparr>jailed := False\<rparr>) (validators s)\<rparr>, Ok ()))"

definition recompute_total_stake ::
  "staking_state \<Rightarrow> string \<Rightarrow> staking_state \<times> (staking_error, unit) result" where
  "recompute_total_stake s val =
     (let delegated = total_delegated_to s val in
      case bt_get (validators s) val of
        None \<Rightarrow> (s, Err (ValidatorNotFound val))
      | Some v \<Rightarrow>
          (case checked_add 128 (self_stake v) delegated of
             None \<Rightarrow> (s, Err (Overflow ''recompute_total_stake''))
           | Some t \<Rightarrow>
               (s\<lparr>validators := bt_insert val (v\<lparr>total_stake := t\<rparr>) (validators s)\<rparr>, Ok ())))"

subsection \<open>The invariant\<close>

definition bonded_to :: "staking_state \<Rightarrow> string \<Rightarrow> nat" where
  "bonded_to s val = bt_sum (\<lambda>k d. if snd k = val then amount d else 0) (delegations s)"

definition id_count :: "staking_state \<Rightarrow> nat \<Rightarrow> nat" where
  "id_count s i =
     bt_sum (\<lambda>k d. length (filter (\<lambda>e. ub_id e = i) (unbondings d))) (delegations s)"

definition validator_ok :: "staking_state \<Rightarrow> string \<Rightarrow> validator \<Rightarrow> bool" where
  "validator_ok s addr v \<longleftrightarrow>
     total_stake v = self_stake v + bonded_to s addr \<and> total_stake v < 2 ^ 128"

definition unbonding_ids_ok :: "staking_state \<Rightarrow> bool" where
  "unbonding_ids_ok s \<longleftrightarrow>
     (\<forall>(k, d) \<in> set (delegations s). \<forall>e \<in> set (unbondings d).
        ub_id e < next_unbonding_id s \<and> id_count s (ub_id e) = 1)"

definition staking_inv :: "staking_state \<Rightarrow> bool" where
  "staking_inv s \<longleftrightarrow>
     bt_wf (validators s) \<and> bt_wf (delegations s) \<and>
     (\<forall>(addr, v) \<in> set (validators s). validator_ok s addr v) \<and> unbonding_ids_ok s"

text \<open>All tokens the module holds: self stakes, delegations and unbonding entries.\<close>

definition unbonding_sum :: "delegation \<Rightarrow> nat" where
  "unbonding_sum d = (\<Sum>e\<leftarrow>unbondings d. ub_amount e)"

definition staked_total :: "staking_state \<Rightarrow> nat" where
  "staked_total s =
     bt_sum (\<lambda>_ v. self_stake v) (validators s)
     + bt_sum (\<lambda>_ d. amount d + unbonding_sum d) (delegations s)"

lemma staking_invI:
  assumes "bt_wf (validators s)" "bt_wf (delegations s)"
    and "\<And>addr v. bt_get (validators s) addr = Some v \<Longrightarrow> validator_ok s addr v"
    and "unbonding_ids_ok s"
  shows "staking_inv s"
  unfolding staking_inv_def using assms(1,2,4) by (auto intro: assms(3) bt_in_set_get)

lemma staking_invD:
  assumes "staking_inv s"
  shows "bt_wf (validators s)" "bt_wf (delegations s)" "unbonding_ids_ok s"
    and "bt_get (validators s) addr = Some v \<Longrightarrow> validator_ok s addr v"
  using assms bt_get_in_set by (fastforce simp: staking_inv_def)+

text \<open>The ids of the entries, as a statement on counts: it is stable under updates of the map.\<close>

lemma id_count_pos:
  assumes "bt_wf (delegations s)"
  shows "0 < id_count s i \<longleftrightarrow> (\<exists>(k, d) \<in> set (delegations s). \<exists>e \<in> set (unbondings d). ub_id e = i)"
  using bt_sum_zero_iff [of "\<lambda>k d. length (filter (\<lambda>e. ub_id e = i) (unbondings d))" "delegations s"]
  by (fastforce simp: id_count_def filter_empty_conv)

lemma unbonding_ids_ok_iff:
  assumes "bt_wf (delegations s)"
  shows "unbonding_ids_ok s \<longleftrightarrow> (\<forall>i. 0 < id_count s i \<longrightarrow> i < next_unbonding_id s \<and> id_count s i = 1)"
  unfolding id_count_pos [OF assms] unbonding_ids_ok_def by fastforce

lemma unbonding_ids_mono:
  assumes "unbonding_ids_ok s" "bt_wf (delegations s)" "bt_wf (delegations s')"
    and "\<And>i. id_count s' i \<le> id_count s i" "next_unbonding_id s \<le> next_unbonding_id s'"
  shows "unbonding_ids_ok s'"
  unfolding unbonding_ids_ok_iff [OF assms(3)]
proof (intro allI impI)
  fix i
  assume "0 < id_count s' i"
  moreover have "id_count s' i \<le> id_count s i" by (rule assms(4))
  moreover have "0 < id_count s i \<longrightarrow> i < next_unbonding_id s \<and> id_count s i = 1"
    using assms(1) unbonding_ids_ok_iff [OF assms(2)] by blast
  ultimately show "i < next_unbonding_id s' \<and> id_count s' i = 1"
    using assms(5) by linarith
qed

text \<open>Sums of saturating additions are exact until they reach the maximum.\<close>

lemma foldl_saturating_add:
  assumes "acc < 2 ^ w"
  shows "foldl (\<lambda>a x. saturating_add w a (f x)) acc xs = min (acc + (\<Sum>x\<leftarrow>xs. f x)) (2 ^ w - 1)"
  using assms
proof (induction xs arbitrary: acc)
  case (Cons x xs)
  have "foldl (\<lambda>a x. saturating_add w a (f x)) acc (x # xs)
      = min (saturating_add w acc (f x) + (\<Sum>x\<leftarrow>xs. f x)) (2 ^ w - 1)"
    using Cons.IH [of "saturating_add w acc (f x)"] by simp
  also have "\<dots> = min (acc + (\<Sum>x\<leftarrow>x # xs. f x)) (2 ^ w - 1)"
    by (auto simp: saturating_add_def min_def)
  finally show ?case .
qed simp

lemma sum_filter_bonded:
  "(\<Sum>x\<leftarrow>filter (\<lambda>((_, v), _). v = val) m. amount (snd x))
   = bt_sum (\<lambda>k d. if snd k = val then amount d else 0) m"
  by (induction m) auto

lemma total_delegated_to_min: "total_delegated_to s val = min (bonded_to s val) (2 ^ 128 - 1)"
proof -
  have eq: "(\<lambda>acc (k :: string \<times> string, d). saturating_add 128 acc (amount d))
      = (\<lambda>acc x. saturating_add 128 acc (amount (snd x)))"
    by (auto simp: fun_eq_iff)
  show ?thesis
    unfolding total_delegated_to_def eq
    by (simp add: foldl_saturating_add bonded_to_def sum_filter_bonded)
qed

lemma pending_unbonding_min: "pending_unbonding d = min (unbonding_sum d) (2 ^ 128 - 1)"
  by (simp add: pending_unbonding_def foldl_saturating_add unbonding_sum_def)

lemma staking_inv_check:
  assumes "staking_inv s"
  shows "check_invariants s"
proof -
  have "total_stake v = saturating_add 128 (self_stake v) (total_delegated_to s addr)"
    if "(addr, v) \<in> set (validators s)" for addr v
  proof -
    have "validator_ok s addr v" using assms that by (auto simp: staking_inv_def)
    then show ?thesis
      by (auto simp: validator_ok_def total_delegated_to_min saturating_add_def)
  qed
  then show ?thesis by (auto simp: check_invariants_def list_all_iff)
qed

subsection \<open>Updates of one delegation and one validator\<close>

text \<open>
  Every operation writes at most one validator and one delegation or filters the whole delegation
  map; the next two lemmas say what the first kind does to the bond of every validator.
\<close>

lemma bonded_to_insert:
  assumes "bt_wf (delegations s)"
  shows "bonded_to (s\<lparr>delegations := bt_insert (dg, val) d (delegations s)\<rparr>) addr
      + (if addr = val then (case bt_get (delegations s) (dg, val) of None \<Rightarrow> 0 | Some d \<Rightarrow> amount d) else 0)
    = bonded_to s addr + (if addr = val then amount d else 0)"
  using bt.total_upsert [OF assms, of "\<lambda>k d. if snd k = addr then amount d else 0" "(dg, val)" d]
  by (auto simp: bonded_to_def split: option.splits)

lemma bonded_to_get:
  "bt_wf (delegations s) \<Longrightarrow> bt_get (delegations s) (dg, val) = Some d \<Longrightarrow> amount d \<le> bonded_to s val"
  using bt.total_ge [of "delegations s" "(dg, val)" d "\<lambda>k d. if snd k = val then amount d else 0"]
  by (simp add: bonded_to_def)

lemma bonded_to_cong [simp]:
  "bonded_to (s\<lparr>validators := vs\<rparr>) addr = bonded_to s addr"
  "bonded_to (s\<lparr>next_unbonding_id := i\<rparr>) addr = bonded_to s addr"
  by (simp_all add: bonded_to_def)

lemma id_count_cong [simp]:
  "id_count (s\<lparr>validators := vs\<rparr>) i = id_count s i"
  "id_count (s\<lparr>next_unbonding_id := n\<rparr>) i = id_count s i"
  by (simp_all add: id_count_def)

lemma id_count_insert:
  assumes "bt_wf (delegations s)"
  shows "id_count (s\<lparr>delegations := bt_insert k d (delegations s)\<rparr>) i
      + (case bt_get (delegations s) k of None \<Rightarrow> 0
         | Some d \<Rightarrow> length (filter (\<lambda>e. ub_id e = i) (unbondings d)))
    = id_count s i + length (filter (\<lambda>e. ub_id e = i) (unbondings d))"
  using bt.total_upsert [OF assms, of "\<lambda>k d. length (filter (\<lambda>e. ub_id e = i) (unbondings d))" k d]
  by (simp add: id_count_def)

text \<open>Changing one validator and one of its delegations by the same amount keeps the invariant.\<close>

lemma staking_inv_update:
  assumes inv: "staking_inv s" and v: "bt_get (validators s) val = Some v"
    and self: "self_stake v' = self_stake v" and bound: "total_stake v' < 2 ^ 128"
    and bond: "total_stake v' + (case bt_get (delegations s) (dg, val) of None \<Rightarrow> 0 | Some d \<Rightarrow> amount d)
      = total_stake v + amount d'"
    and ids: "unbonding_ids_ok (s\<lparr>delegations := bt_insert (dg, val) d' (delegations s),
      next_unbonding_id := n\<rparr>)"
  shows "staking_inv (s\<lparr>validators := bt_insert val v' (validators s),
    delegations := bt_insert (dg, val) d' (delegations s), next_unbonding_id := n\<rparr>)" (is "staking_inv ?s")
proof (rule staking_invI)
  note wf = staking_invD(1,2) [OF inv]
  show "bt_wf (validators ?s)" "bt_wf (delegations ?s)" using wf by (simp_all add: bt_simps)
  show "unbonding_ids_ok ?s" using ids by (simp add: unbonding_ids_ok_def id_count_def)
  fix addr w
  assume w: "bt_get (validators ?s) addr = Some w"
  have b: "bonded_to ?s addr
      + (if addr = val then (case bt_get (delegations s) (dg, val) of None \<Rightarrow> 0 | Some d \<Rightarrow> amount d) else 0)
    = bonded_to s addr + (if addr = val then amount d' else 0)"
    using bonded_to_insert [OF wf(2), of dg val d' addr] by (simp add: bonded_to_def)
  show "validator_ok ?s addr w"
  proof (cases "addr = val")
    case True
    then have "w = v'" using w wf by (simp add: bt_simps)
    then show ?thesis
      using True b bond self bound staking_invD(4) [OF inv v] by (simp add: validator_ok_def)
  next
    case False
    then have "bt_get (validators s) addr = Some w" using w wf by (simp add: bt_simps)
    then show ?thesis
      using False b staking_invD(4) [OF inv, of addr w] by (auto simp: validator_ok_def)
  qed
qed

text \<open>Changing only the queue of a delegation, or dropping an empty one, keeps it too.\<close>

lemma staking_inv_delegations:
  assumes inv: "staking_inv s" and wf: "bt_wf ds"
    and bond: "\<And>addr. bonded_to (s\<lparr>delegations := ds\<rparr>) addr = bonded_to s addr"
    and ids: "unbonding_ids_ok (s\<lparr>delegations := ds\<rparr>)"
  shows "staking_inv (s\<lparr>delegations := ds\<rparr>)"
proof (rule staking_invI)
  fix addr v
  assume "bt_get (validators (s\<lparr>delegations := ds\<rparr>)) addr = Some v"
  then show "validator_ok (s\<lparr>delegations := ds\<rparr>) addr v"
    using staking_invD(4) [OF inv, of addr v] bond by (simp add: validator_ok_def)
qed (use staking_invD(1) [OF inv] wf ids in simp_all)

lemma staking_inv_validator_flag:
  assumes inv: "staking_inv s" and v: "bt_get (validators s) val = Some v"
    and "self_stake v' = self_stake v" "total_stake v' = total_stake v"
  shows "staking_inv (s\<lparr>validators := bt_insert val v' (validators s)\<rparr>)"
proof (rule staking_invI)
  note D = staking_invD [OF inv]
  show "bt_wf (validators (s\<lparr>validators := bt_insert val v' (validators s)\<rparr>))"
    using D by (simp add: bt_simps)
  show "bt_wf (delegations (s\<lparr>validators := bt_insert val v' (validators s)\<rparr>))"
    using D by simp
  show "unbonding_ids_ok (s\<lparr>validators := bt_insert val v' (validators s)\<rparr>)"
    using D(3) by (simp add: unbonding_ids_ok_def)
  fix addr w
  assume "bt_get (validators (s\<lparr>validators := bt_insert val v' (validators s)\<rparr>)) addr = Some w"
  then have "(addr = val \<and> w = v') \<or> bt_get (validators s) addr = Some w"
    using D(1) by (auto simp: bt_simps split: if_splits)
  then show "validator_ok (s\<lparr>validators := bt_insert val v' (validators s)\<rparr>) addr w"
    using D(4) [OF v] D(4) [of addr w] assms(3,4) by (auto simp: validator_ok_def)
qed

subsection \<open>Delegation\<close>

lemma delegate_Ok:
  "snd (delegate s dg val amt bal) = Ok () \<longleftrightarrow>
     amt \<noteq> 0 \<and> amt \<le> bal dg \<and>
     (\<exists>v. bt_get (validators s) val = Some v \<and> \<not> jailed v \<and> total_stake v + amt < 2 ^ 128 \<and>
        (case bt_get (delegations s) (dg, val) of None \<Rightarrow> 0 | Some d \<Rightarrow> amount d) + amt < 2 ^ 128)"
  by (auto simp: delegate_def Let_def delegation_default_def not_less split: option.splits)

lemma delegate_atomic: "snd (delegate s dg val amt bal) \<noteq> Ok () \<Longrightarrow> fst (delegate s dg val amt bal) = s"
  by (auto simp: delegate_def Let_def split: option.splits if_splits)

lemma delegate_never_panics: "snd (delegate s dg val amt bal) \<noteq> Panic"
  by (auto simp: delegate_def Let_def split: option.splits if_splits)

lemma delegate_state:
  assumes "snd (delegate s dg val amt bal) = Ok ()"
  obtains v d where "bt_get (validators s) val = Some v" "\<not> jailed v" "total_stake v + amt < 2 ^ 128"
    and "d = (case bt_get (delegations s) (dg, val) of None \<Rightarrow> delegation_default | Some d \<Rightarrow> d)"
    and "fst (delegate s dg val amt bal) =
      s\<lparr>validators := bt_insert val (v\<lparr>total_stake := total_stake v + amt\<rparr>) (validators s),
        delegations := bt_insert (dg, val) (d\<lparr>amount := amount d + amt\<rparr>) (delegations s)\<rparr>"
  using assms
  by (auto simp: delegate_def Let_def split: option.splits if_splits)

lemma delegate_inv:
  assumes inv: "staking_inv s"
  shows "staking_inv (fst (delegate s dg val amt bal))"
proof (cases "snd (delegate s dg val amt bal) = Ok ()")
  case True
  obtain v d where v: "bt_get (validators s) val = Some v" and t: "total_stake v + amt < 2 ^ 128"
    and d: "d = (case bt_get (delegations s) (dg, val) of None \<Rightarrow> delegation_default | Some d \<Rightarrow> d)"
    and s': "fst (delegate s dg val amt bal) =
      s\<lparr>validators := bt_insert val (v\<lparr>total_stake := total_stake v + amt\<rparr>) (validators s),
        delegations := bt_insert (dg, val) (d\<lparr>amount := amount d + amt\<rparr>) (delegations s)\<rparr>"
    using delegate_state [OF True] by metis
  let ?d = "d\<lparr>amount := amount d + amt\<rparr>"
  let ?s = "s\<lparr>delegations := bt_insert (dg, val) ?d (delegations s)\<rparr>"
  have "id_count ?s i \<le> id_count s i" for i
    using id_count_insert [OF staking_invD(2) [OF inv], of "(dg, val)" ?d i] d
    by (auto simp: delegation_default_def split: option.splits)
  then have "unbonding_ids_ok ?s"
    using staking_invD [OF inv] by (intro unbonding_ids_mono [of s ?s]) (simp_all add: bt_simps)
  then have "staking_inv (s\<lparr>validators := bt_insert val (v\<lparr>total_stake := total_stake v + amt\<rparr>) (validators s),
    delegations := bt_insert (dg, val) ?d (delegations s), next_unbonding_id := next_unbonding_id s\<rparr>)"
    using t d by (intro staking_inv_update [OF inv v])
      (auto simp: delegation_default_def split: option.splits)
  then show ?thesis using s' by simp
qed (simp add: delegate_atomic inv)

subsection \<open>Undelegation\<close>

lemma undelegate_never_panics: "snd (undelegate s dg val amt ep ue) \<noteq> Panic"
  by (auto simp: undelegate_def Let_def split: option.splits if_splits)

lemma undelegate_cases:
  assumes inv: "staking_inv s"
  obtains (Err) e where "undelegate s dg val amt ep ue = (s, Err e)"
  | (Ok) v d where "bt_get (validators s) val = Some v" "bt_get (delegations s) (dg, val) = Some d"
      "0 < amt" "amt \<le> amount d" "amt \<le> total_stake v" "next_unbonding_id s + 1 < 2 ^ 64"
      "undelegate s dg val amt ep ue =
        (s\<lparr>validators := bt_insert val (v\<lparr>total_stake := total_stake v - amt\<rparr>) (validators s),
           delegations := bt_insert (dg, val)
             (d\<lparr>amount := amount d - amt, unbondings := unbondings d @
                [\<lparr>ub_id = next_unbonding_id s, ub_amount = amt,
                  unlock_epoch = saturating_add 64 ep ue\<rparr>]\<rparr>) (delegations s),
           next_unbonding_id := next_unbonding_id s + 1\<rparr>, Ok (next_unbonding_id s))"
proof (cases "bt_get (validators s) val")
  case (Some v)
  have ok: "amount d \<le> total_stake v" if "bt_get (delegations s) (dg, val) = Some d" for d
    using staking_invD(4) [OF inv Some] bonded_to_get [OF staking_invD(2) [OF inv] that]
    by (simp add: validator_ok_def)
  show ?thesis
  proof (cases "\<exists>e. undelegate s dg val amt ep ue = (s, Err e)")
    case False
    then obtain d where d: "bt_get (delegations s) (dg, val) = Some d" "0 < amt" "amt \<le> amount d"
      "next_unbonding_id s + 1 < 2 ^ 64"
      using Some by (auto simp: undelegate_def split: if_splits option.splits)
    then show ?thesis using that(2) [OF Some d(1)] Some ok [OF d(1)]
      by (auto simp: undelegate_def Let_def checked_add_def checked_sub_def)
  qed (use that(1) in blast)
next
  case None
  then have "\<exists>e. undelegate s dg val amt ep ue = (s, Err e)" by (simp add: undelegate_def)
  then show ?thesis using that(1) by blast
qed

lemma undelegate_inv:
  assumes inv: "staking_inv s"
  shows "staking_inv (fst (undelegate s dg val amt ep ue))"
  using inv
proof (cases rule: undelegate_cases [of s dg val amt ep ue])
  case (Ok v d)
  note D = staking_invD [OF inv]
  let ?n = "next_unbonding_id s"
  let ?d = "d\<lparr>amount := amount d - amt, unbondings := unbondings d @
    [\<lparr>ub_id = ?n, ub_amount = amt, unlock_epoch = saturating_add 64 ep ue\<rparr>]\<rparr>"
  let ?s = "s\<lparr>delegations := bt_insert (dg, val) ?d (delegations s), next_unbonding_id := ?n + 1\<rparr>"
  have cnt: "id_count ?s i = id_count s i + (if i = ?n then 1 else 0)" for i
    using id_count_insert [OF D(2), of "(dg, val)" ?d i] Ok(2) by (auto simp: id_count_def)
  have old: "0 < id_count s i \<Longrightarrow> i < ?n \<and> id_count s i = 1" for i
    using D(3) unbonding_ids_ok_iff [OF D(2)] by blast
  have "bt_wf (delegations ?s)" using D(2) by (simp add: bt_simps)
  moreover have "i < ?n + 1 \<and> id_count s i + (if i = ?n then 1 else 0) = 1"
    if "0 < id_count s i + (if i = ?n then 1 else 0)" for i
    using that old [of i] by (cases "i = ?n") auto
  ultimately have "unbonding_ids_ok ?s"
    by (simp only: unbonding_ids_ok_iff cnt) simp
  moreover have "total_stake v < 2 ^ 128" using D(4) [OF Ok(1)] by (simp add: validator_ok_def)
  ultimately show ?thesis
    using Ok staking_inv_update [OF inv Ok(1), of "v\<lparr>total_stake := total_stake v - amt\<rparr>" dg ?d "?n + 1"]
    by simp
qed (simp add: inv)

subsection \<open>Withdrawal\<close>

text \<open>The loop splits the queue into the unlocked amounts and the entries still locked.\<close>

lemma withdraw_loop_eq:
  assumes "acc < 2 ^ 128"
  shows "withdraw_loop ep es acc =
    (let w = acc + (\<Sum>e\<leftarrow>filter (\<lambda>e. unlock_epoch e \<le> ep) es. ub_amount e)
     in if w < 2 ^ 128 then Some (w, filter (\<lambda>e. ep < unlock_epoch e) es) else None)"
  using assms
proof (induction es arbitrary: acc)
  case (Cons e es)
  then show ?case by (auto simp: Let_def checked_add_def add.assoc not_less not_le)
qed simp

lemma withdraw_never_panics: "snd (withdraw s dg val ep) \<noteq> Panic"
  by (auto simp: withdraw_def Let_def split: option.splits if_splits)

lemma id_count_remove:
  assumes "bt_wf (delegations s)"
  shows "id_count (s\<lparr>delegations := bt_remove k (delegations s)\<rparr>) i \<le> id_count s i"
proof (cases "bt_get (delegations s) k")
  case (Some d)
  then show ?thesis
    using bt.total_del [OF assms Some, of "\<lambda>k d. length (filter (\<lambda>e. ub_id e = i) (unbondings d))"]
    by (simp add: id_count_def)
qed (simp add: bt.del_absent [OF assms])

lemma withdraw_cases:
  obtains (Err) e where "withdraw s dg val ep = (s, Err e)"
  | (Lost) d where "bt_get (delegations s) (dg, val) = Some d"
      "withdraw_loop ep (unbondings d) 0 = None"
      "withdraw s dg val ep =
        (s\<lparr>delegations := bt_insert (dg, val) (d\<lparr>unbondings := []\<rparr>) (delegations s)\<rparr>,
         Err (Overflow ''withdraw.sum''))"
  | (Drop) d w where "bt_get (delegations s) (dg, val) = Some d" "amount d = 0"
      "withdraw_loop ep (unbondings d) 0 = Some (w, [])"
      "withdraw s dg val ep = (s\<lparr>delegations := bt_remove (dg, val) (delegations s)\<rparr>, Ok w)"
  | (Keep) d w r where "bt_get (delegations s) (dg, val) = Some d"
      "withdraw_loop ep (unbondings d) 0 = Some (w, r)"
      "withdraw s dg val ep =
        (s\<lparr>delegations := bt_insert (dg, val) (d\<lparr>unbondings := r\<rparr>) (delegations s)\<rparr>, Ok w)"
  by (fastforce simp: withdraw_def Let_def split: option.splits if_splits)

lemma staking_inv_queue:
  assumes inv: "staking_inv s" and d: "bt_get (delegations s) (dg, val) = Some d"
    and sub: "\<And>i. length (filter (\<lambda>e. ub_id e = i) r) \<le> length (filter (\<lambda>e. ub_id e = i) (unbondings d))"
  shows "staking_inv (s\<lparr>delegations := bt_insert (dg, val) (d\<lparr>unbondings := r\<rparr>) (delegations s)\<rparr>)"
    (is "staking_inv ?s")
proof (rule staking_inv_delegations [OF inv])
  note D = staking_invD [OF inv]
  show wf: "bt_wf (bt_insert (dg, val) (d\<lparr>unbondings := r\<rparr>) (delegations s))"
    using D(2) by (simp add: bt_simps)
  show "bonded_to ?s addr = bonded_to s addr" for addr
    using bonded_to_insert [OF D(2), of dg val "d\<lparr>unbondings := r\<rparr>" addr] d by (auto split: if_splits)
  have "id_count ?s i \<le> id_count s i" for i
    using id_count_insert [OF D(2), of "(dg, val)" "d\<lparr>unbondings := r\<rparr>" i] d sub [of i] by simp
  then show "unbonding_ids_ok ?s"
    using D wf by (intro unbonding_ids_mono [of s ?s]) simp_all
qed

lemma withdraw_inv:
  assumes inv: "staking_inv s"
  shows "staking_inv (fst (withdraw s dg val ep))"
proof (cases rule: withdraw_cases [of s dg val ep])
  case (Keep d w r)
  have "r = filter (\<lambda>e. ep < unlock_epoch e) (unbondings d)"
    using Keep(2) by (auto simp: withdraw_loop_eq Let_def split: if_splits)
  then show ?thesis
    using Keep staking_inv_queue [OF inv Keep(1), of r] by (simp add: length_filter_filter del: filter_filter)
next
  case (Drop d w)
  note D = staking_invD [OF inv]
  let ?s = "s\<lparr>delegations := bt_remove (dg, val) (delegations s)\<rparr>"
  have "bonded_to ?s addr = bonded_to s addr" for addr
    using bt.total_del [OF D(2) Drop(1), of "\<lambda>k d. if snd k = addr then amount d else 0"] Drop(2)
    by (simp add: bonded_to_def split: if_splits)
  moreover have "unbonding_ids_ok ?s"
    using D id_count_remove [OF D(2)] by (intro unbonding_ids_mono [of s ?s]) (simp_all add: bt_simps)
  ultimately show ?thesis
    using Drop D by (simp add: staking_inv_delegations [OF inv] bt_simps)
qed (simp_all add: inv staking_inv_queue)

subsection \<open>Slashing\<close>

lemma mul_div_bps_exact: "mul_div_bps a bps = a * bps div MAX_BPS"
proof -
  have "a * bps = (a div MAX_BPS * bps) * MAX_BPS + (a mod MAX_BPS) * bps"
    by (metis (no_types, lifting) add_mult_distrib div_mult_mod_eq mult.assoc mult.commute)
  then have "a * bps div MAX_BPS = a div MAX_BPS * bps + (a mod MAX_BPS) * bps div MAX_BPS"
    by (simp add: MAX_BPS_def)
  then show ?thesis by (simp add: mul_div_bps_def Let_def)
qed

lemma mul_div_bps_le: "bps \<le> MAX_BPS \<Longrightarrow> mul_div_bps a bps \<le> a"
  using div_le_mono [OF mult_le_mono2, of bps MAX_BPS a MAX_BPS]
  by (simp add: mul_div_bps_exact MAX_BPS_def)

text \<open>What slashing does to one entry and one delegation, without the accumulators.\<close>

definition cut_entry :: "u64 \<Rightarrow> unbonding_entry \<Rightarrow> unbonding_entry" where
  "cut_entry bps e = e\<lparr>ub_amount := ub_amount e - ub_amount e * bps div MAX_BPS\<rparr>"

definition cut_delegation :: "u64 \<Rightarrow> delegation \<Rightarrow> delegation" where
  "cut_delegation bps d =
     d\<lparr>amount := amount d - amount d * bps div MAX_BPS,
       unbondings := map (cut_entry bps) (unbondings d)\<rparr>"

definition cut_delegations ::
  "string \<Rightarrow> u64 \<Rightarrow> (string \<times> string, delegation) btree \<Rightarrow> (string \<times> string, delegation) btree" where
  "cut_delegations val bps m =
     map (\<lambda>(k, d). (k, if snd k = val then cut_delegation bps d else d)) m"

definition bonded_cut :: "string \<Rightarrow> u64 \<Rightarrow> (string \<times> string, delegation) btree \<Rightarrow> nat" where
  "bonded_cut val bps m =
     bt_sum (\<lambda>k d. if snd k = val then amount d * bps div MAX_BPS else 0) m"

definition unbonding_cut :: "string \<Rightarrow> u64 \<Rightarrow> (string \<times> string, delegation) btree \<Rightarrow> nat" where
  "unbonding_cut val bps m =
     bt_sum (\<lambda>k d. if snd k = val
       then (\<Sum>e\<leftarrow>unbondings d. ub_amount e * bps div MAX_BPS) else 0) m"

lemma slash_unbondings_eq:
  assumes "us < 2 ^ 128"
  shows "slash_unbondings bps es us =
    (let c = us + (\<Sum>e\<leftarrow>es. ub_amount e * bps div MAX_BPS)
     in if c < 2 ^ 128 then Some (map (cut_entry bps) es, c) else None)"
  using assms
proof (induction es arbitrary: us)
  case (Cons e es)
  then show ?case
    by (auto simp: Let_def checked_add_def mul_div_bps_exact cut_entry_def add.assoc not_less)
qed simp

lemma slash_delegations_eq:
  assumes "ds < 2 ^ 128" and "us < 2 ^ 128"
  shows "slash_delegations val bps m ds us =
    (let b = ds + bonded_cut val bps m; u = us + unbonding_cut val bps m
     in if b < 2 ^ 128 \<and> u < 2 ^ 128 then Some (cut_delegations val bps m, b, u) else None)"
  using assms
proof (induction m arbitrary: ds us)
  case Nil
  then show ?case by (simp add: bonded_cut_def unbonding_cut_def cut_delegations_def)
next
  case (Cons x m)
  obtain k d where x: "x = (k, d)" by (cases x)
  show ?case
  proof (cases "snd k = val")
    case False
    then show ?thesis
      using Cons x by (simp add: Let_def bonded_cut_def unbonding_cut_def cut_delegations_def)
  next
    case True
    let ?b = "amount d * bps div MAX_BPS" and ?u = "\<Sum>e\<leftarrow>unbondings d. ub_amount e * bps div MAX_BPS"
    have b: "bonded_cut val bps ((k, d) # m) = ?b + bonded_cut val bps m"
      and u: "unbonding_cut val bps ((k, d) # m) = ?u + unbonding_cut val bps m"
      and c: "cut_delegations val bps ((k, d) # m) = (k, cut_delegation bps d) # cut_delegations val bps m"
      using True by (simp_all add: bonded_cut_def unbonding_cut_def cut_delegations_def)
    show ?thesis
    proof (cases "ds + ?b < 2 ^ 128 \<and> us + ?u < 2 ^ 128")
      case fits: True
      then show ?thesis
        using True Cons.IH [of "ds + ?b" "us + ?u"] x Cons.prems
        by (simp add: Let_def b u c checked_add_def mul_div_bps_exact slash_unbondings_eq
            cut_delegation_def add.assoc)
    next
      case False
      then show ?thesis
        using True x Cons.prems
        by (auto simp: Let_def b u checked_add_def mul_div_bps_exact slash_unbondings_eq not_less)
    qed
  qed
qed

lemma cut_delegations_get:
  "bt_get (cut_delegations val bps m) k =
     map_option (\<lambda>d. if snd k = val then cut_delegation bps d else d) (bt_get m k)"
  by (induction m) (auto simp: cut_delegations_def)

lemma cut_delegations_wf [simp]: "bt_wf (cut_delegations val bps m) = bt_wf m"
  by (simp add: bt_wf_def cut_delegations_def case_prod_beta comp_def)

lemma cut_delegations_sum:
  "bt_sum f (cut_delegations val bps m) =
     bt_sum (\<lambda>k d. f k (if snd k = val then cut_delegation bps d else d)) m"
  by (induction m) (auto simp: cut_delegations_def)

lemma cut_le: "bps \<le> MAX_BPS \<Longrightarrow> a * bps div MAX_BPS \<le> a"
  using mul_div_bps_le by (simp add: mul_div_bps_exact)

lemma bonded_cut_bound:
  assumes "bps \<le> MAX_BPS"
  shows "bt_sum (\<lambda>k d. if snd k = val then amount d else 0) (cut_delegations val bps m)
      + bonded_cut val bps m
    = bt_sum (\<lambda>k d. if snd k = val then amount d else 0) m"
  unfolding cut_delegations_sum bonded_cut_def bt_sum_add [symmetric]
  by (rule bt_sum_cong) (simp add: cut_delegation_def cut_le [OF assms])

lemma bonded_other:
  assumes "addr \<noteq> val"
  shows "bt_sum (\<lambda>k d. if snd k = addr then amount d else 0) (cut_delegations val bps m)
    = bt_sum (\<lambda>k d. if snd k = addr then amount d else 0) m"
  unfolding cut_delegations_sum by (rule bt_sum_cong) (use assms in auto)

lemma id_count_cut: "id_count (s\<lparr>delegations := cut_delegations val bps (delegations s)\<rparr>) i = id_count s i"
proof -
  have "filter (\<lambda>e. ub_id e = i) (map (cut_entry bps) es)
      = map (cut_entry bps) (filter (\<lambda>e. ub_id e = i) es)" for es
    by (induction es) (auto simp: cut_entry_def)
  then show ?thesis
    by (auto simp: id_count_def cut_delegations_sum cut_delegation_def intro!: bt_sum_cong)
qed

definition cut_validator :: "staking_state \<Rightarrow> string \<Rightarrow> u64 \<Rightarrow> validator \<Rightarrow> validator" where
  "cut_validator s val bps v =
     v\<lparr>self_stake := self_stake v - self_stake v * bps div MAX_BPS,
       total_stake := total_stake v
         - (self_stake v * bps div MAX_BPS + bonded_cut val bps (delegations s)),
       jailed := True\<rparr>"

definition slashed :: "staking_state \<Rightarrow> string \<Rightarrow> u64 \<Rightarrow> validator \<Rightarrow> staking_state" where
  "slashed s val bps v =
     s\<lparr>validators := bt_insert val (cut_validator s val bps v) (validators s),
       delegations := cut_delegations val bps (delegations s)\<rparr>"

definition slash_total :: "staking_state \<Rightarrow> string \<Rightarrow> u64 \<Rightarrow> validator \<Rightarrow> nat" where
  "slash_total s val bps v =
     self_stake v * bps div MAX_BPS + bonded_cut val bps (delegations s)
     + unbonding_cut val bps (delegations s)"

lemma slash_bond_bound:
  assumes inv: "staking_inv s" and v: "bt_get (validators s) val = Some v" and bps: "bps \<le> MAX_BPS"
  shows "self_stake v * bps div MAX_BPS + bonded_cut val bps (delegations s) \<le> total_stake v"
    and "total_stake v < 2 ^ 128"
proof -
  have "bonded_cut val bps (delegations s) \<le> bonded_to s val"
    using bonded_cut_bound [OF bps, of val "delegations s"] by (simp add: bonded_to_def)
  then show "self_stake v * bps div MAX_BPS + bonded_cut val bps (delegations s) \<le> total_stake v"
    and "total_stake v < 2 ^ 128"
    using staking_invD(4) [OF inv v] cut_le [OF bps, of "self_stake v"]
    by (simp_all add: validator_ok_def)
qed

lemma slash_eq:
  assumes inv: "staking_inv s" and v: "bt_get (validators s) val = Some v" and bps: "bps \<le> MAX_BPS"
  shows "slash s val bps =
    (if unbonding_cut val bps (delegations s) < 2 ^ 128
     then (slashed s val bps v,
       if slash_total s val bps v < 2 ^ 128
       then Ok \<lparr>so_validator = val, so_slash_bps = bps,
              self_slashed = self_stake v * bps div MAX_BPS,
              delegations_slashed = bonded_cut val bps (delegations s),
              unbondings_slashed = unbonding_cut val bps (delegations s),
              total_slashed = slash_total s val bps v, so_jailed = True\<rparr>
       else Err (Overflow ''slash.total''))
     else (s\<lparr>validators := bt_insert val
         (v\<lparr>self_stake := self_stake v - self_stake v * bps div MAX_BPS\<rparr>) (validators s)\<rparr>, Panic))"
  using slash_bond_bound [OF assms] bps v
  by (simp add: slash_def Let_def slash_delegations_eq mul_div_bps_exact checked_add_def
      checked_sub_def slashed_def slash_total_def cut_validator_def not_less)

lemma slashed_inv:
  assumes inv: "staking_inv s" and v: "bt_get (validators s) val = Some v" and bps: "bps \<le> MAX_BPS"
  shows "staking_inv (slashed s val bps v)"
proof (rule staking_invI)
  note D = staking_invD [OF inv]
  show wf: "bt_wf (validators (slashed s val bps v))" "bt_wf (delegations (slashed s val bps v))"
    using D by (simp_all add: slashed_def bt_simps)
  have "id_count (slashed s val bps v) i = id_count s i" for i
    using id_count_cut [of val bps s i] by (simp add: slashed_def id_count_def)
  then show "unbonding_ids_ok (slashed s val bps v)"
    by (intro unbonding_ids_mono [OF D(3,2) wf(2)]) (simp_all, simp add: slashed_def)
  fix addr w
  assume w: "bt_get (validators (slashed s val bps v)) addr = Some w"
  show "validator_ok (slashed s val bps v) addr w"
  proof (cases "addr = val")
    case True
    then have "w = cut_validator s val bps v" using w D by (simp add: slashed_def bt_simps)
    moreover have "bonded_to (slashed s val bps v) val + bonded_cut val bps (delegations s)
        = bonded_to s val"
      using bonded_cut_bound [OF bps, of val "delegations s"] by (simp add: slashed_def bonded_to_def)
    ultimately show ?thesis
      using True D(4) [OF v] cut_le [OF bps, of "self_stake v"]
      by (auto simp: validator_ok_def cut_validator_def)
  next
    case False
    then have "bt_get (validators s) addr = Some w" using w D by (simp add: slashed_def bt_simps)
    moreover have "bonded_to (slashed s val bps v) addr = bonded_to s addr"
      using bonded_other [OF False, of bps "delegations s"] by (simp add: slashed_def bonded_to_def)
    ultimately show ?thesis using D(4) [of addr w] by (simp add: validator_ok_def)
  qed
qed

lemma slash_guard:
  "MAX_BPS < bps \<Longrightarrow> slash s val bps = (s, Err (InvalidSlashRate bps))"
  "bps \<le> MAX_BPS \<Longrightarrow> bt_get (validators s) val = None \<Longrightarrow>
     slash s val bps = (s, Err (ValidatorNotFound val))"
  by (simp_all add: slash_def)

lemma slash_inv:
  assumes inv: "staking_inv s" and "snd (slash s val bps) \<noteq> Panic"
  shows "staking_inv (fst (slash s val bps))"
proof (cases "bps \<le> MAX_BPS \<and> bt_get (validators s) val \<noteq> None")
  case True
  then obtain v where v: "bt_get (validators s) val = Some v" by blast
  show ?thesis
    using assms(2) slash_eq [OF inv v, of bps] slashed_inv [OF inv v, of bps] True
    by (auto split: if_splits)
qed (cases "bps \<le> MAX_BPS"; simp add: inv slash_guard)

lemma unjail_inv: "staking_inv s \<Longrightarrow> staking_inv (fst (unjail s val))"
  by (auto simp: unjail_def staking_inv_validator_flag split: option.splits)

lemma recompute_inv:
  assumes "staking_inv s"
  shows "recompute_total_stake s val =
    (case bt_get (validators s) val of None \<Rightarrow> (s, Err (ValidatorNotFound val))
     | Some v \<Rightarrow> (s\<lparr>validators := bt_insert val v (validators s)\<rparr>, Ok ()))"
proof (cases "bt_get (validators s) val")
  case (Some v)
  have ok: "total_stake v = self_stake v + bonded_to s val" "total_stake v < 2 ^ 128"
    using staking_invD(4) [OF assms Some] by (simp_all add: validator_ok_def)
  then have "self_stake v + total_delegated_to s val = total_stake v"
    by (simp add: total_delegated_to_min)
  then show ?thesis using ok(2) Some
    by (simp add: recompute_total_stake_def Let_def checked_add_def)
qed (simp add: recompute_total_stake_def Let_def)

subsection \<open>Token flow\<close>

text \<open>
  The tokens of the module change by exactly what an operation reports: a delegation adds its
  amount, an undelegation moves tokens into the queue, a withdrawal and a slash remove what they
  return.
\<close>

lemma staked_total_delegations:
  assumes "bt_wf (delegations s)"
  shows "staked_total (s\<lparr>delegations := bt_insert k d (delegations s)\<rparr>)
      + (case bt_get (delegations s) k of None \<Rightarrow> 0 | Some d \<Rightarrow> amount d + unbonding_sum d)
    = staked_total s + (amount d + unbonding_sum d)"
  using bt.total_upsert [OF assms, of "\<lambda>_ d. amount d + unbonding_sum d" k d]
  by (simp add: staked_total_def)

lemma staked_total_validator:
  assumes "bt_wf (validators s)" "bt_get (validators s) val = Some v"
  shows "staked_total (s\<lparr>validators := bt_insert val v' (validators s)\<rparr>) + self_stake v
    = staked_total s + self_stake v'"
  using bt.total_replace [OF assms, of "\<lambda>_ v. self_stake v" v'] by (simp add: staked_total_def)

lemma staked_total_next [simp]: "staked_total (s\<lparr>next_unbonding_id := n\<rparr>) = staked_total s"
  by (simp add: staked_total_def)

lemma delegate_flow:
  assumes inv: "staking_inv s" and ok: "snd (delegate s dg val amt bal) = Ok ()"
  shows "staked_total (fst (delegate s dg val amt bal)) = staked_total s + amt"
proof -
  obtain v d where v: "bt_get (validators s) val = Some v"
    and d: "d = (case bt_get (delegations s) (dg, val) of None \<Rightarrow> delegation_default | Some d \<Rightarrow> d)"
    and s': "fst (delegate s dg val amt bal) =
      s\<lparr>validators := bt_insert val (v\<lparr>total_stake := total_stake v + amt\<rparr>) (validators s),
        delegations := bt_insert (dg, val) (d\<lparr>amount := amount d + amt\<rparr>) (delegations s)\<rparr>"
    using delegate_state [OF ok] by metis
  let ?s = "s\<lparr>delegations := bt_insert (dg, val) (d\<lparr>amount := amount d + amt\<rparr>) (delegations s)\<rparr>"
  have "staked_total ?s = staked_total s + amt"
    using staked_total_delegations [OF staking_invD(2) [OF inv], of "(dg, val)" "d\<lparr>amount := amount d + amt\<rparr>"] d
    by (auto simp: delegation_default_def unbonding_sum_def split: option.splits)
  moreover have "staked_total (fst (delegate s dg val amt bal)) = staked_total ?s"
    using staked_total_validator [of ?s val v "v\<lparr>total_stake := total_stake v + amt\<rparr>"] v
      staking_invD(1) [OF inv] s' by (simp add: staked_total_def)
  ultimately show ?thesis by simp
qed

lemma undelegate_flow:
  assumes inv: "staking_inv s"
  shows "staked_total (fst (undelegate s dg val amt ep ue)) = staked_total s"
  using inv
proof (cases rule: undelegate_cases [of s dg val amt ep ue])
  case (Ok v d)
  let ?d = "d\<lparr>amount := amount d - amt, unbondings := unbondings d @
    [\<lparr>ub_id = next_unbonding_id s, ub_amount = amt, unlock_epoch = saturating_add 64 ep ue\<rparr>]\<rparr>"
  let ?s = "s\<lparr>delegations := bt_insert (dg, val) ?d (delegations s)\<rparr>"
  have "staked_total ?s = staked_total s"
    using staked_total_delegations [OF staking_invD(2) [OF inv], of "(dg, val)" ?d] Ok(2,4)
    by (simp add: unbonding_sum_def)
  moreover have "staked_total (fst (undelegate s dg val amt ep ue)) = staked_total ?s"
    using staked_total_validator [of ?s val v "v\<lparr>total_stake := total_stake v - amt\<rparr>"]
      Ok(1) staking_invD(1) [OF inv] Ok(7) by (simp add: staked_total_def)
  ultimately show ?thesis by simp
qed simp

lemma sum_filter_split:
  "(\<Sum>x\<leftarrow>filter P xs. f x) + (\<Sum>x\<leftarrow>filter (\<lambda>x. \<not> P x) xs. f x) = ((\<Sum>x\<leftarrow>xs. f x) :: nat)"
  by (induction xs) auto

lemma withdraw_loop_sum:
  assumes "withdraw_loop ep es 0 = Some (w, r)"
  shows "w + (\<Sum>e\<leftarrow>r. ub_amount e) = (\<Sum>e\<leftarrow>es. ub_amount e)"
  using assms sum_filter_split [of ub_amount "\<lambda>e. unlock_epoch e \<le> ep" es]
  by (auto simp: withdraw_loop_eq Let_def not_le split: if_splits)

lemma withdraw_flow:
  assumes inv: "staking_inv s" and ok: "snd (withdraw s dg val ep) = Ok w"
  shows "staked_total (fst (withdraw s dg val ep)) + w = staked_total s"
  using ok
proof (cases rule: withdraw_cases [of s dg val ep])
  case (Drop d w')
  then show ?thesis
    using ok bt.total_del [OF staking_invD(2) [OF inv] Drop(1), of "\<lambda>_ d. amount d + unbonding_sum d"]
      withdraw_loop_sum [OF Drop(3)]
    by (simp add: staked_total_def unbonding_sum_def)
next
  case (Keep d w' r)
  then show ?thesis
    using ok staked_total_delegations [OF staking_invD(2) [OF inv], of "(dg, val)" "d\<lparr>unbondings := r\<rparr>"]
      withdraw_loop_sum [OF Keep(2)]
    by (simp add: unbonding_sum_def)
qed simp_all

lemma slashed_flow:
  assumes inv: "staking_inv s" and v: "bt_get (validators s) val = Some v" and bps: "bps \<le> MAX_BPS"
  shows "staked_total (slashed s val bps v) + slash_total s val bps v = staked_total s"
proof -
  have e: "(\<Sum>e\<leftarrow>map (cut_entry bps) es. ub_amount e) + (\<Sum>e\<leftarrow>es. ub_amount e * bps div MAX_BPS)
      = (\<Sum>e\<leftarrow>es. ub_amount e)" for es
  proof (induction es)
    case (Cons a es)
    then show ?case using cut_le [OF bps, of "ub_amount a"] by (simp add: cut_entry_def)
  qed simp
  have "bt_sum (\<lambda>_ d. amount d + unbonding_sum d) (cut_delegations val bps (delegations s))
      + (bonded_cut val bps (delegations s) + unbonding_cut val bps (delegations s))
    = bt_sum (\<lambda>_ d. amount d + unbonding_sum d) (delegations s)"
    unfolding cut_delegations_sum bonded_cut_def unbonding_cut_def bt_sum_add [symmetric]
  proof (rule bt_sum_cong)
    fix k d
    show "(amount (if snd k = val then cut_delegation bps d else d)
        + unbonding_sum (if snd k = val then cut_delegation bps d else d))
      + ((if snd k = val then amount d * bps div MAX_BPS else 0)
        + (if snd k = val then \<Sum>e\<leftarrow>unbondings d. ub_amount e * bps div MAX_BPS else 0))
      = amount d + unbonding_sum d"
      using e [of "unbondings d"] cut_le [OF bps, of "amount d"]
      by (simp add: cut_delegation_def unbonding_sum_def)
  qed
  moreover have "bt_sum (\<lambda>_ v. self_stake v) (bt_insert val (cut_validator s val bps v) (validators s))
      + self_stake v * bps div MAX_BPS = bt_sum (\<lambda>_ v. self_stake v) (validators s)"
    using bt.total_replace [OF staking_invD(1) [OF inv] v, of "\<lambda>_ v. self_stake v" "cut_validator s val bps v"]
      cut_le [OF bps, of "self_stake v"] bt.total_ge [OF staking_invD(1) [OF inv] v, of "\<lambda>_ v. self_stake v"]
    by (simp add: cut_validator_def)
  ultimately show ?thesis by (simp add: staked_total_def slashed_def slash_total_def)
qed

lemma staking_writes_flow:
  assumes inv: "staking_inv s"
  shows "staked_total (fst (unjail s val)) = staked_total s"
    and "staked_total (fst (recompute_total_stake s val)) = staked_total s"
proof -
  have "staked_total (s\<lparr>validators := bt_insert val v' (validators s)\<rparr>) = staked_total s"
    if "bt_get (validators s) val = Some v" "self_stake v' = self_stake v" for v v'
    using staked_total_validator [OF staking_invD(1) [OF inv] that(1), of v'] that(2) by simp
  then show "staked_total (fst (unjail s val)) = staked_total s"
    and "staked_total (fst (recompute_total_stake s val)) = staked_total s"
    by (auto simp: unjail_def recompute_inv [OF inv] split: option.splits)
qed

text \<open>With all tokens below \<open>2 ^ 128\<close> the sums of \<open>withdraw\<close> and \<open>slash\<close> cannot overflow.\<close>

lemma withdraw_loop_fits:
  assumes "bt_wf (delegations s)" "staked_total s < 2 ^ 128" "bt_get (delegations s) k = Some d"
  shows "withdraw_loop ep (unbondings d) 0 \<noteq> None"
proof -
  have "(\<Sum>e\<leftarrow>filter (\<lambda>e. unlock_epoch e \<le> ep) (unbondings d). ub_amount e) \<le> unbonding_sum d"
    using sum_filter_split [of ub_amount "\<lambda>e. unlock_epoch e \<le> ep" "unbondings d"]
    by (simp add: unbonding_sum_def)
  then show ?thesis
    using bt.total_ge [OF assms(1,3), of "\<lambda>_ d. amount d + unbonding_sum d"] assms(2)
    by (simp add: withdraw_loop_eq Let_def staked_total_def)
qed

lemma slash_fits:
  assumes inv: "staking_inv s" and "staked_total s < 2 ^ 128"
    and v: "bt_get (validators s) val = Some v" and bps: "bps \<le> MAX_BPS"
  shows "\<exists>out. slash s val bps = (slashed s val bps v, Ok out) \<and> total_slashed out = slash_total s val bps v"
proof -
  have "slash_total s val bps v < 2 ^ 128" using slashed_flow [OF inv v bps] assms(2) by linarith
  moreover from this have "unbonding_cut val bps (delegations s) < 2 ^ 128"
    by (simp add: slash_total_def)
  ultimately show ?thesis using slash_eq [OF inv v bps] by simp
qed

subsection \<open>Sequences of operations\<close>

text \<open>
  A call of one of the module's operations, its flow of tokens into and out of the module (zero
  for a call that returns an error), and a run of calls. \<open>None\<close> is a panic, which ends the run.
\<close>

datatype staking_op =
    Delegate_Op string string u128 "string \<Rightarrow> u128"
  | Undelegate_Op string string u128 u64 u64
  | Withdraw_Op string string u64
  | Slash_Op string u64
  | Unjail_Op string
  | Recompute_Op string

definition flow_of :: "('a \<Rightarrow> nat \<times> nat) \<Rightarrow> ('e, 'a) result \<Rightarrow> (nat \<times> nat) option" where
  "flow_of f r = (case r of Ok x \<Rightarrow> Some (f x) | Err _ \<Rightarrow> Some (0, 0) | Panic \<Rightarrow> None)"

fun staking_apply :: "staking_state \<Rightarrow> staking_op \<Rightarrow> staking_state \<times> (nat \<times> nat) option" where
  "staking_apply s (Delegate_Op dg val amt bal) =
     map_prod id (flow_of (\<lambda>_. (amt, 0))) (delegate s dg val amt bal)"
| "staking_apply s (Undelegate_Op dg val amt ep ue) =
     map_prod id (flow_of (\<lambda>_. (0, 0))) (undelegate s dg val amt ep ue)"
| "staking_apply s (Withdraw_Op dg val ep) =
     map_prod id (flow_of (\<lambda>w. (0, w))) (withdraw s dg val ep)"
| "staking_apply s (Slash_Op val bps) =
     map_prod id (flow_of (\<lambda>out. (0, total_slashed out))) (slash s val bps)"
| "staking_apply s (Unjail_Op val) = map_prod id (flow_of (\<lambda>_. (0, 0))) (unjail s val)"
| "staking_apply s (Recompute_Op val) =
     map_prod id (flow_of (\<lambda>_. (0, 0))) (recompute_total_stake s val)"

fun staking_run :: "staking_state \<Rightarrow> staking_op list \<Rightarrow> (staking_state \<times> nat \<times> nat) option" where
  "staking_run s [] = Some (s, 0, 0)"
| "staking_run s (op # ops) =
     (case staking_apply s op of
        (s1, None) \<Rightarrow> None
      | (s1, Some (i, out)) \<Rightarrow>
          map_option (\<lambda>(s2, i', out'). (s2, i + i', out + out')) (staking_run s1 ops))"

fun requested :: "staking_op \<Rightarrow> nat" where
  "requested (Delegate_Op dg val amt bal) = amt"
| "requested _ = 0"

lemma flow_of_simps [simp]:
  "flow_of f (Ok x) = Some (f x)" "flow_of f (Err e) = Some (0, 0)" "flow_of f Panic = None"
  by (simp_all add: flow_of_def)

lemma staking_apply_inv:
  assumes inv: "staking_inv s" and step: "staking_apply s op = (s', Some f)"
  shows "staking_inv s'"
proof (cases op)
  case (Delegate_Op dg val amt bal)
  then have "s' = fst (delegate s dg val amt bal)" using step by (simp add: map_prod_def case_prod_beta)
  then show ?thesis using delegate_inv [OF inv] by simp
next
  case (Undelegate_Op dg val amt ep ue)
  then have "s' = fst (undelegate s dg val amt ep ue)" using step by (simp add: map_prod_def case_prod_beta)
  then show ?thesis using undelegate_inv [OF inv] by simp
next
  case (Withdraw_Op dg val ep)
  then have "s' = fst (withdraw s dg val ep)" using step by (simp add: map_prod_def case_prod_beta)
  then show ?thesis using withdraw_inv [OF inv] by simp
next
  case (Slash_Op val bps)
  then have "s' = fst (slash s val bps)" "snd (slash s val bps) \<noteq> Panic"
    using step by (auto simp: map_prod_def case_prod_beta)
  then show ?thesis using slash_inv [OF inv] by simp
next
  case (Unjail_Op val)
  then have "s' = fst (unjail s val)" using step by (simp add: map_prod_def case_prod_beta)
  then show ?thesis using unjail_inv [OF inv] by simp
next
  case (Recompute_Op val)
  then have "s' = fst (recompute_total_stake s val)" using step by (simp add: map_prod_def case_prod_beta)
  then show ?thesis using staking_inv_validator_flag [OF inv] inv
    by (auto simp: recompute_inv [OF inv] split: option.splits)
qed

text \<open>
  One call with room for the requested tokens: it does not panic, and the module's tokens move by
  the reported flow, also when it returns an error.
\<close>

lemma staking_apply_flow:
  assumes inv: "staking_inv s" and fits: "staked_total s < 2 ^ 128"
  shows "\<exists>s' i out. staking_apply s op = (s', Some (i, out)) \<and> i \<le> requested op \<and>
    staked_total s' + out = staked_total s + i"
proof (cases op)
  case (Delegate_Op dg val amt bal)
  show ?thesis
  proof (cases "snd (delegate s dg val amt bal) = Ok ()")
    case True
    then show ?thesis using Delegate_Op delegate_flow [OF inv True] by (simp add: map_prod_def case_prod_beta)
  next
    case False
    then obtain e where "delegate s dg val amt bal = (s, Err e)"
      using delegate_atomic [OF False] delegate_never_panics [of s dg val amt bal]
      by (cases "delegate s dg val amt bal"; cases "snd (delegate s dg val amt bal)") auto
    then show ?thesis using Delegate_Op by simp
  qed
next
  case (Undelegate_Op dg val amt ep ue)
  obtain s' r where d: "undelegate s dg val amt ep ue = (s', r)" by fastforce
  then show ?thesis
    using Undelegate_Op undelegate_flow [OF inv, of dg val amt ep ue]
      undelegate_never_panics [of s dg val amt ep ue]
    by (cases r) simp_all
next
  case (Withdraw_Op dg val ep)
  show ?thesis
  proof (cases rule: withdraw_cases [of s dg val ep])
    case (Lost d)
    then show ?thesis using withdraw_loop_fits [OF staking_invD(2) [OF inv] fits] by blast
  next
    case (Drop d w)
    then show ?thesis using Withdraw_Op withdraw_flow [OF inv, of dg val ep w] by simp
  next
    case (Keep d w r)
    then show ?thesis using Withdraw_Op withdraw_flow [OF inv, of dg val ep w] by simp
  qed (use Withdraw_Op in simp)
next
  case (Slash_Op val bps)
  show ?thesis
  proof (cases "bps \<le> MAX_BPS \<and> bt_get (validators s) val \<noteq> None")
    case True
    then obtain v where v: "bt_get (validators s) val = Some v" and b: "bps \<le> MAX_BPS" by blast
    then show ?thesis using slash_fits [OF inv fits v b] Slash_Op slashed_flow [OF inv v b] by auto
  next
    case False
    then show ?thesis using Slash_Op by (cases "bps \<le> MAX_BPS"; simp add: slash_guard)
  qed
next
  case (Unjail_Op val)
  then show ?thesis
    using staking_writes_flow(1) [OF inv, of val] by (cases "bt_get (validators s) val") (simp_all add: unjail_def)
next
  case (Recompute_Op val)
  then show ?thesis
    using staking_writes_flow(2) [OF inv, of val]
    by (cases "bt_get (validators s) val") (simp_all add: recompute_inv [OF inv])
qed


lemma validator_slashed:
  assumes "bt_wf (validators s)"
  shows "bt_get (validators (slashed s val bps v)) a =
    (if a = val then Some (cut_validator s val bps v) else bt_get (validators s) a)"
  using assms by (simp add: slashed_def bt_simps)

text \<open>What a delegator has with a validator, bonded and unbonding together.\<close>

definition holding :: "staking_state \<Rightarrow> string \<Rightarrow> string \<Rightarrow> nat" where
  "holding s dg val =
     (case bt_get (delegations s) (dg, val) of None \<Rightarrow> 0 | Some d \<Rightarrow> amount d + unbonding_sum d)"

lemma slashed_holding:
  assumes "bps \<le> MAX_BPS" and "bt_get (delegations s) (dg, val) = Some d"
  shows "holding (slashed s val bps v) dg val =
    (amount d - amount d * bps div MAX_BPS)
    + (\<Sum>e\<leftarrow>unbondings d. ub_amount e - ub_amount e * bps div MAX_BPS)"
  using assms(2)
  by (simp add: holding_def slashed_def cut_delegations_get cut_delegation_def unbonding_sum_def
      cut_entry_def comp_def)

text \<open>Rounding: cutting two parts loses at most one token less than cutting their sum.\<close>

lemma cut_split:
  "(a - a * bps div MAX_BPS) + (b - b * bps div MAX_BPS) \<le> ((a + b) - (a + b) * bps div MAX_BPS) + 1
   \<and> (a + b) - (a + b) * bps div MAX_BPS \<le> (a - a * bps div MAX_BPS) + (b - b * bps div MAX_BPS)"
  if "bps \<le> MAX_BPS"
proof -
  have "(a * bps + b * bps) div MAX_BPS \<le> a * bps div MAX_BPS + b * bps div MAX_BPS + 1"
    by (rule div_add_ge) (simp add: MAX_BPS_def)
  moreover have "a * bps div MAX_BPS + b * bps div MAX_BPS \<le> (a * bps + b * bps) div MAX_BPS"
    by (rule div_add_le)
  ultimately show ?thesis
    using cut_le [OF that, of a] cut_le [OF that, of b] cut_le [OF that, of "a + b"]
    by (simp add: add_mult_distrib) linarith
qed


text \<open>A small state for the witnesses: one validator, one delegator.\<close>

definition demo_state :: staking_state where
  "demo_state =
     \<lparr>validators = [(''v'', \<lparr>operator = ''v'', self_stake = 100, total_stake = 150, jailed = False,
        commission_bps = 500\<rparr>)],
      delegations = [((''d'', ''v''), \<lparr>amount = 50, unbondings = []\<rparr>)],
      next_unbonding_id = 0\<rparr>"

definition demo_ops :: "staking_op list" where
  "demo_ops = [Delegate_Op ''d'' ''v'' 10 (\<lambda>_. 100), Undelegate_Op ''d'' ''v'' 30 5 2,
     Slash_Op ''v'' 1000, Withdraw_Op ''d'' ''v'' 7]"

lemma demo_state_inv [simp]: "staking_inv demo_state"
  by (simp add: demo_state_def staking_inv_def validator_ok_def bonded_to_def unbonding_ids_ok_def)

lemma demo_state_total [simp]: "staked_total demo_state = 150"
  by (simp add: demo_state_def staked_total_def unbonding_sum_def)

lemmas demo_eval = demo_ops_def demo_state_def delegate_def undelegate_def withdraw_def slash_def
  mul_div_bps_def MAX_BPS_def checked_defs saturating_defs delegation_default_def

lemma demo_run:
  "\<exists>s'. staking_run demo_state demo_ops = Some (s', 10, 43)"
  by (simp add: demo_eval)

text \<open>C7: Whatever sequence of calls is made on the staking state, from any state that satisfies
  the bond invariant, a run that does not abort ends in a state that satisfies it: for every
  validator \<open>total_stake = self_stake +\<close> the sum of its delegations, within 128 bits, with unbonding
  ids unique and below the next id; and the assertion of \<open>check_invariants\<close> holds.\<close>

theorem staking_run_invariant:
  assumes "staking_inv s" and "staking_run s ops = Some (s', i, out)"
  shows "staking_inv s' \<and> check_invariants s'"
  using assms
proof (induction ops arbitrary: s i out)
  case (Cons op ops)
  then obtain s1 i1 o1 i2 o2 where "staking_apply s op = (s1, Some (i1, o1))"
    "staking_run s1 ops = Some (s', i2, o2)"
    by (auto split: prod.splits option.splits)
  then show ?case using Cons.IH staking_apply_inv [OF Cons.prems(1)] by blast
qed (auto intro: staking_inv_check)

theorem staking_run_invariant_witness:
  "\<exists>s'. staking_run demo_state demo_ops = Some (s', 10, 43) \<and> staking_inv s' \<and> check_invariants s'"
  using demo_run staking_run_invariant [OF demo_state_inv, of demo_ops] by blast

text \<open>C2: As long as all tokens ever requested fit 128 bits, no sequence of calls panics and tokens
  are conserved: what the module holds at the end, plus everything its calls paid out (withdrawals
  and slashes), is what it held at the start plus everything its successful delegations brought in.
  Calls that fail move nothing.\<close>

theorem staking_run_conserves:
  assumes "staking_inv s" and "staked_total s + (\<Sum>op\<leftarrow>ops. requested op) < 2 ^ 128"
  shows "\<exists>s' i out. staking_run s ops = Some (s', i, out) \<and> staking_inv s' \<and>
    staked_total s' + out = staked_total s + i"
  using assms
proof (induction ops arbitrary: s)
  case (Cons op ops)
  have "staked_total s < 2 ^ 128" using Cons.prems(2) by simp
  then obtain s1 i out where a: "staking_apply s op = (s1, Some (i, out))" "i \<le> requested op"
    "staked_total s1 + out = staked_total s + i"
    using staking_apply_flow [OF Cons.prems(1)] by metis
  have "staked_total s1 + (\<Sum>op\<leftarrow>ops. requested op) < 2 ^ 128" using a Cons.prems(2) by simp
  then obtain s2 i2 o2 where r: "staking_run s1 ops = Some (s2, i2, o2)" "staking_inv s2"
    "staked_total s2 + o2 = staked_total s1 + i2"
    using Cons.IH [OF staking_apply_inv [OF Cons.prems(1) a(1)]] by blast
  have "staking_run s (op # ops) = Some (s2, i + i2, out + o2)" using a(1) r(1) by simp
  moreover have "staked_total s2 + (out + o2) = staked_total s + (i + i2)" using a(3) r(3) by simp
  ultimately show ?case using r(2) by blast
qed simp

theorem staking_run_conserves_witness:
  "\<exists>s' i out. staking_run demo_state demo_ops = Some (s', i, out) \<and> staking_inv s' \<and>
    staked_total s' + out = 150 + i"
  using staking_run_conserves [OF demo_state_inv, of demo_ops] by (simp add: demo_ops_def)

text \<open>C16: Slashing is exact and complete. With all tokens below \<open>2 ^ 128\<close> it succeeds; the validator is
  jailed and loses \<open>bps / 10000\<close> of its self stake rounded down; every delegation to it and every
  pending unbonding entry loses the same share; no other validator or delegation changes; and the
  reported total is exactly what left the module.\<close>

theorem slash_exact:
  assumes "staking_inv s" and "staked_total s < 2 ^ 128"
    and "bt_get (validators s) val = Some v" and "bps \<le> MAX_BPS"
  shows "\<exists>s' out. slash s val bps = (s', Ok out) \<and>
    bt_get (validators s') val = Some (v\<lparr>self_stake := self_stake v - self_stake v * bps div 10000,
      total_stake := total_stake v - (self_slashed out + delegations_slashed out), jailed := True\<rparr>) \<and>
    (\<forall>a. a \<noteq> val \<longrightarrow> bt_get (validators s') a = bt_get (validators s) a) \<and>
    (\<forall>k. bt_get (delegations s') k =
       map_option (\<lambda>d. if snd k = val
         then \<lparr>amount = amount d - amount d * bps div 10000,
               unbondings = map (\<lambda>e. e\<lparr>ub_amount := ub_amount e - ub_amount e * bps div 10000\<rparr>)
                 (unbondings d)\<rparr> else d) (bt_get (delegations s) k)) \<and>
    staked_total s' + total_slashed out = staked_total s"
proof -
  note slashed_flow [OF assms(1,3,4)]
  moreover from this have "slash_total s val bps v < 2 ^ 128" using assms(2) by linarith
  moreover from this have "unbonding_cut val bps (delegations s) < 2 ^ 128"
    by (simp add: slash_total_def)
  moreover have "cut_delegation bps d = \<lparr>amount = amount d - amount d * bps div 10000,
      unbondings = map (\<lambda>e. e\<lparr>ub_amount := ub_amount e - ub_amount e * bps div 10000\<rparr>) (unbondings d)\<rparr>" for d
    by (cases d) (simp add: cut_delegation_def MAX_BPS_def cut_entry_def [abs_def])
  moreover have "delegations (slashed s val bps v) = cut_delegations val bps (delegations s)"
    by (simp add: slashed_def)
  ultimately show ?thesis
    using slash_eq [OF assms(1,3,4)] validator_slashed [OF staking_invD(1) [OF assms(1)]]
    by (simp add: cut_delegations_get cut_validator_def MAX_BPS_def cong: if_cong)
qed

theorem slash_exact_witness:
  "\<exists>s' out. slash demo_state ''v'' 500 = (s', Ok out) \<and> staked_total s' + total_slashed out = 150"
  using slash_exact [OF demo_state_inv, of "''v''" _ 500]
  by (fastforce simp: demo_state_def staked_total_def unbonding_sum_def MAX_BPS_def)

text \<open>C22: Undelegating does not escape a slash. If a delegator moves any amount into the unbonding
  queue right before the validator is slashed, their remaining tokens (bonded and unbonding) differ
  by at most one unit of rounding from what they would keep without undelegating.\<close>

theorem undelegate_no_escape:
  assumes inv: "staking_inv s" and fits: "staked_total s < 2 ^ 128" and bps: "bps \<le> MAX_BPS"
    and und: "undelegate s dg val amt ep ue = (s1, Ok i)"
  shows "holding (fst (slash s val bps)) dg val \<le> holding (fst (slash s1 val bps)) dg val \<and>
    holding (fst (slash s1 val bps)) dg val \<le> holding (fst (slash s val bps)) dg val + 1"
  using inv
proof (cases rule: undelegate_cases [of s dg val amt ep ue])
  case (Ok v d)
  have s1: "s1 = fst (undelegate s dg val amt ep ue)" using und by simp
  have inv1: "staking_inv s1" and fits1: "staked_total s1 < 2 ^ 128"
    using undelegate_inv [OF inv] undelegate_flow [OF inv] fits s1 by simp_all
  obtain v1 d1 where 1: "bt_get (validators s1) val = Some v1" "bt_get (delegations s1) (dg, val) = Some d1"
    "amount d1 = amount d - amt" "map ub_amount (unbondings d1) = map ub_amount (unbondings d) @ [amt]"
    using Ok staking_invD(1,2) [OF inv] s1 by (simp add: bt_simps)
  have "(\<Sum>e\<leftarrow>unbondings d1. ub_amount e - ub_amount e * bps div MAX_BPS)
      = (\<Sum>x\<leftarrow>map ub_amount (unbondings d1). x - x * bps div MAX_BPS)" by (simp add: comp_def)
  also have "\<dots> = (\<Sum>e\<leftarrow>unbondings d. ub_amount e - ub_amount e * bps div MAX_BPS)
      + (amt - amt * bps div MAX_BPS)" unfolding 1(4) by (simp add: comp_def)
  finally have q: "(\<Sum>e\<leftarrow>unbondings d1. ub_amount e - ub_amount e * bps div MAX_BPS) = \<dots>" .
  show ?thesis
    using slash_fits [OF inv fits Ok(1) bps] slash_fits [OF inv1 fits1 1(1) bps]
      slashed_holding [OF bps Ok(2)] slashed_holding [OF bps 1(2)] q 1(3) Ok(4)
      cut_split [OF bps, of "amount d - amt" amt]
    by auto
qed (use und in simp)

theorem undelegate_no_escape_witness:
  "holding (fst (slash (fst (undelegate demo_state ''d'' ''v'' 30 5 2)) ''v'' 1000)) ''d'' ''v''
    \<le> holding (fst (slash demo_state ''v'' 1000)) ''d'' ''v'' + 1"
proof -
  have "\<exists>s1. undelegate demo_state ''d'' ''v'' 30 5 2 = (s1, Ok 0)" by (simp add: demo_eval)
  then show ?thesis
    using undelegate_no_escape [OF demo_state_inv, of 1000 "''d''" "''v''" 30 5 2]
    by (auto simp: MAX_BPS_def)
qed

end
