(* ===== verification/Econ_Params.thy ===== *)
theory Econ_Params
  imports Staking
begin

text \<open>
  The economic parameters, \<open>src/economics/params.rs\<close>: the parameter set with its defaults, its
  validation, and the slash calculators with their split multiplication. The \<open>f64\<close> accessors are
  for display only and are left out. \<open>MAX_BPS\<close> is declared here and in \<open>staking.rs\<close> with the same
  value; the development has it once, in \<open>Staking\<close>.
\<close>

definition MIN_STAKE :: u128 where
  "MIN_STAKE = 1"

definition MAX_UNBONDING_EPOCHS :: u64 where
  "MAX_UNBONDING_EPOCHS = 20000"

record economics_params =
  base_inflation_bps :: u64
  min_stake :: u128
  slash_double_sign_bps :: u64
  slash_downtime_bps :: u64
  unbonding_epochs :: u64
  treasury_bps :: u64

definition economics_default :: economics_params where
  "economics_default =
     \<lparr>base_inflation_bps = 500, min_stake = 10000000000, slash_double_sign_bps = 5000,
      slash_downtime_bps = 100, unbonding_epochs = 14, treasury_bps = 500\<rparr>"

datatype econ_params_error =
    InflationTooHigh u64
  | DoubleSignSlashTooHigh u64
  | DowntimeSlashTooHigh u64
  | TotalSlashExceedsBond u64 u64 u64
  | TreasuryTooHigh u64
  | MinStakeTooLow u128
  | UnbondingZero
  | UnbondingTooLong u64

definition econ_validate :: "economics_params \<Rightarrow> (econ_params_error, unit) result" where
  "econ_validate p =
     (if MAX_BPS < base_inflation_bps p then Err (InflationTooHigh (base_inflation_bps p))
      else if MAX_BPS < slash_double_sign_bps p
      then Err (DoubleSignSlashTooHigh (slash_double_sign_bps p))
      else if MAX_BPS < slash_downtime_bps p
      then Err (DowntimeSlashTooHigh (slash_downtime_bps p))
      else let total_slash = saturating_add 64 (slash_double_sign_bps p) (slash_downtime_bps p) in
        if MAX_BPS < total_slash
        then Err (TotalSlashExceedsBond (slash_double_sign_bps p) (slash_downtime_bps p) total_slash)
        else if MAX_BPS < treasury_bps p then Err (TreasuryTooHigh (treasury_bps p))
        else if min_stake p < MIN_STAKE then Err (MinStakeTooLow (min_stake p))
        else if unbonding_epochs p = 0 then Err UnbondingZero
        else if MAX_UNBONDING_EPOCHS < unbonding_epochs p
        then Err (UnbondingTooLong (unbonding_epochs p))
        else Ok ())"

definition econ_try_new :: "economics_params \<Rightarrow> (econ_params_error, economics_params) result" where
  "econ_try_new p = (case econ_validate p of Ok _ \<Rightarrow> Ok p | Err e \<Rightarrow> Err e | Panic \<Rightarrow> Panic)"

definition validator_reward_bps :: "economics_params \<Rightarrow> u64" where
  "validator_reward_bps p = saturating_sub MAX_BPS (treasury_bps p)"

text \<open>
  Every step of the split multiplication is a plain \<open>u128\<close> operation; \<open>None\<close> is its panic (a
  division by zero or an overflow).
\<close>

definition mul_div_u128 :: "u128 \<Rightarrow> u64 \<Rightarrow> u64 \<Rightarrow> u128 option" where
  "mul_div_u128 a b c =
     (if c = 0 then None
      else let hi = a div c; lo = a mod c in
        case checked_mul 128 hi b of
          None \<Rightarrow> None
        | Some x \<Rightarrow>
            (case checked_mul 128 lo b of
               None \<Rightarrow> None
             | Some y \<Rightarrow> checked_add 128 x (y div c)))"

definition slash_double_sign_amount :: "economics_params \<Rightarrow> u128 \<Rightarrow> u128 option" where
  "slash_double_sign_amount p stake = mul_div_u128 stake (slash_double_sign_bps p) MAX_BPS"

definition slash_downtime_amount :: "economics_params \<Rightarrow> u128 \<Rightarrow> u128 option" where
  "slash_downtime_amount p stake = mul_div_u128 stake (slash_downtime_bps p) MAX_BPS"

subsection \<open>Lemmas\<close>

lemma econ_validate_Ok:
  "econ_validate p = Ok () \<longleftrightarrow>
     base_inflation_bps p \<le> 10000 \<and> slash_double_sign_bps p + slash_downtime_bps p \<le> 10000 \<and>
     treasury_bps p \<le> 10000 \<and> 1 \<le> min_stake p \<and> 1 \<le> unbonding_epochs p \<and>
     unbonding_epochs p \<le> 20000"
  by (auto simp: econ_validate_def Let_def saturating_add_def MAX_BPS_def MIN_STAKE_def
      MAX_UNBONDING_EPOCHS_def)

lemma econ_default_valid [simp]: "econ_validate economics_default = Ok ()"
  by (simp add: econ_validate_Ok economics_default_def)

lemma split_mul_div:
  assumes "0 < (c :: nat)"
  shows "a * b div c = a div c * b + (a mod c * b) div c"
proof -
  have "a * b = (a div c * b) * c + a mod c * b"
    by (metis add_mult_distrib div_mult_mod_eq mult.assoc mult.commute)
  then have "a * b div c = ((a div c * b) * c + a mod c * b) div c" by simp
  also have "\<dots> = a div c * b + (a mod c * b) div c" using assms by simp
  finally show ?thesis .
qed

lemma mul_div_u128_exact:
  assumes "a < 2 ^ 128" "b \<le> c" "0 < c" "c < 2 ^ 64"
  shows "mul_div_u128 a b c = Some (a * b div c)"
proof -
  have le: "a * b div c \<le> a" using div_le_mono [OF mult_le_mono2 [OF assms(2)], of a c] assms(3) by simp
  have "a mod c < 2 ^ 64" by (rule less_trans [OF mod_less_divisor [OF assms(3)] assms(4)])
  then have "a mod c * b < 2 ^ 64 * 2 ^ 64" using assms by (intro mult_strict_mono) auto
  then have lo: "a mod c * b < 2 ^ 128" by simp
  have "a div c * b \<le> a" using split_mul_div [OF assms(3), of a b] le by linarith
  then show ?thesis
    using lo le assms(1,3) split_mul_div [OF assms(3), of a b]
    by (simp add: mul_div_u128_def Let_def checked_mul_def checked_add_def)
qed

text \<open>C28: A parameter set that passes validation makes the slash calculators total and exact: for every
  stake of 128 bits they return the floor of \<open>stake * bps / 10000\<close> with no intermediate overflow or
  division by zero, and both penalties together never exceed the stake.\<close>

theorem slash_amounts_exact:
  assumes "econ_validate p = Ok ()" and "stake < 2 ^ 128"
  shows "slash_double_sign_amount p stake = Some (stake * slash_double_sign_bps p div 10000) \<and>
    slash_downtime_amount p stake = Some (stake * slash_downtime_bps p div 10000) \<and>
    stake * slash_double_sign_bps p div 10000 + stake * slash_downtime_bps p div 10000 \<le> stake"
proof (intro conjI)
  have b: "slash_double_sign_bps p + slash_downtime_bps p \<le> 10000"
    using assms(1) by (simp add: econ_validate_Ok)
  show "slash_double_sign_amount p stake = Some (stake * slash_double_sign_bps p div 10000)"
    and "slash_downtime_amount p stake = Some (stake * slash_downtime_bps p div 10000)"
    using b assms(2) mul_div_u128_exact [of stake _ MAX_BPS]
    by (simp_all add: slash_double_sign_amount_def slash_downtime_amount_def MAX_BPS_def)
  have "stake * slash_double_sign_bps p div 10000 + stake * slash_downtime_bps p div 10000
      \<le> stake * (slash_double_sign_bps p + slash_downtime_bps p) div 10000"
    using div_add_le [of "stake * slash_double_sign_bps p" 10000] by (simp add: add_mult_distrib2)
  also have "\<dots> \<le> stake * 10000 div 10000" using b by (intro div_le_mono mult_le_mono2)
  finally show "stake * slash_double_sign_bps p div 10000 + stake * slash_downtime_bps p div 10000 \<le> stake"
    by simp
qed

theorem slash_amounts_exact_witness:
  "slash_double_sign_amount economics_default (2 ^ 128 - 1)
     = Some ((2 ^ 128 - 1) * slash_double_sign_bps economics_default div 10000)"
  using slash_amounts_exact [OF econ_default_valid, of "2 ^ 128 - 1"] by simp

end
