(* ===== verification/Kv_State.thy ===== *)
theory Kv_State
  imports Btree_Map
begin

text \<open>
  The application state of \<open>src/execution.rs\<close>: the key-value store, the account balances and
  nonces, the burned fees and the VM storage. The VM storage is a type parameter here; what the
  VM does with it is in \<open>Vm_State\<close>. The two \<open>f64\<close> fields are informational and left out.
\<close>

record 'vm kv_state =
  kv :: "(string, string) btree"
  balances :: "(string, u64) btree"
  nonces :: "(string, u64) btree"
  burned :: u64
  vm :: 'vm

definition balances_ok :: "(string, u64) btree \<Rightarrow> bool" where
  "balances_ok b \<longleftrightarrow> bt_wf b \<and> (\<forall>(a, x) \<in> set b. x < 2 ^ 64)"

definition total_supply :: "(string, u64) btree \<Rightarrow> nat" where
  "total_supply b = bt_sum (\<lambda>_ x. x) b"

definition balance_or_zero :: "(string, u64) btree \<Rightarrow> string \<Rightarrow> u64" where
  "balance_or_zero b a = (case bt_get b a of None \<Rightarrow> 0 | Some x \<Rightarrow> x)"

lemma balances_ok_get: "balances_ok b \<Longrightarrow> balance_or_zero b a < 2 ^ 64"
  by (auto simp: balances_ok_def balance_or_zero_def dest!: bt_get_in_set split: option.splits)

lemma balances_ok_insert:
  assumes "balances_ok b" "x < 2 ^ 64"
  shows "balances_ok (bt_insert a x b)"
proof -
  have "y < 2 ^ 64" if "(c, y) \<in> set (bt_insert a x b)" for c y
  proof -
    have "bt_get (bt_insert a x b) c = Some y"
      using that assms(1) by (intro bt_in_set_get) (simp_all add: balances_ok_def bt_simps)
    then show ?thesis
      using assms by (auto simp: balances_ok_def bt_get_insert split: if_splits dest!: bt_get_in_set)
  qed
  then show ?thesis using assms(1) by (auto simp: balances_ok_def bt_simps)
qed

lemma total_supply_insert:
  assumes "bt_wf b"
  shows "total_supply (bt_insert a x b) + balance_or_zero b a = total_supply b + x"
  using bt.total_upsert [OF assms, of "\<lambda>_ x. x" a x] by (simp add: total_supply_def balance_or_zero_def)

lemma balance_le_supply: "bt_wf b \<Longrightarrow> balance_or_zero b a \<le> total_supply b"
  using bt.total_ge [of b a _ "\<lambda>_ x. x"]
  by (auto simp: balance_or_zero_def total_supply_def split: option.splits)

lemma balance_insert [simp]:
  "balance_or_zero (bt_insert a x b) c = (if c = a then x else balance_or_zero b c)"
  by (simp add: balance_or_zero_def bt_get_insert)

end
