(* ===== verification/Rust_Str.thy ===== *)
theory Rust_Str
  imports Iona_Prelude
begin

text \<open>
  The string functions of Rust's standard library the sources use: \<open>trim\<close>, \<open>strip_prefix\<close>,
  \<open>split_whitespace\<close>, \<open>split_once\<close>-style splitting, decimal printing and \<open>str::parse\<close> for unsigned
  integers. A character is a code point below 256; \<open>char::is_whitespace\<close> is restricted to those.
\<close>

definition is_whitespace :: "char \<Rightarrow> bool" where
  "is_whitespace c =
     (let n = of_char c :: nat in (9 \<le> n \<and> n \<le> 13) \<or> n = 32 \<or> n = 133 \<or> n = 160)"

definition trim :: "string \<Rightarrow> string" where
  "trim s = rev (dropWhile is_whitespace (rev (dropWhile is_whitespace s)))"

fun strip_prefix :: "string \<Rightarrow> string \<Rightarrow> string option" where
  "strip_prefix [] s = Some s"
| "strip_prefix (p # ps) [] = None"
| "strip_prefix (p # ps) (c # s) = (if p = c then strip_prefix ps s else None)"

fun split_on :: "(char \<Rightarrow> bool) \<Rightarrow> string \<Rightarrow> string list" where
  "split_on P [] = [[]]"
| "split_on P (c # cs) =
     (if P c then [] # split_on P cs
      else case split_on P cs of [] \<Rightarrow> [[c]] | t # ts \<Rightarrow> (c # t) # ts)"

definition split_whitespace :: "string \<Rightarrow> string list" where
  "split_whitespace s = filter (\<lambda>t. t \<noteq> []) (split_on is_whitespace s)"

subsection \<open>Decimal numbers\<close>

definition digit_char :: "nat \<Rightarrow> char" where
  "digit_char d = char_of (48 + d)"

definition to_digit :: "char \<Rightarrow> nat option" where
  "to_digit c = (let n = of_char c :: nat in if 48 \<le> n \<and> n \<le> 57 then Some (n - 48) else None)"

fun decimal :: "nat \<Rightarrow> string" where
  "decimal n = (if n < 10 then [digit_char n] else decimal (n div 10) @ [digit_char (n mod 10)])"

fun parse_digits :: "nat \<Rightarrow> nat \<Rightarrow> string \<Rightarrow> nat option" where
  "parse_digits w acc [] = Some acc"
| "parse_digits w acc (c # cs) =
     (case to_digit c of
        None \<Rightarrow> None
      | Some d \<Rightarrow>
          (case checked_mul w acc 10 of
             None \<Rightarrow> None
           | Some x \<Rightarrow>
               (case checked_add w x d of None \<Rightarrow> None | Some y \<Rightarrow> parse_digits w y cs)))"

definition parse_unsigned :: "nat \<Rightarrow> string \<Rightarrow> nat option" where
  "parse_unsigned w s =
     (case s of
        [] \<Rightarrow> None
      | c # cs \<Rightarrow>
          (if cs = [] \<and> (c = CHR ''+'' \<or> c = CHR ''-'') then None
           else if c = CHR ''+'' then parse_digits w 0 cs
           else parse_digits w 0 s))"

declare decimal.simps [simp del]

lemma digit_round_trip: "d < 10 \<Longrightarrow> to_digit (digit_char d) = Some d"
  by (simp add: to_digit_def digit_char_def)

lemma digit_char_not_sign: "d < 10 \<Longrightarrow> digit_char d \<noteq> CHR ''+'' \<and> digit_char d \<noteq> CHR ''-''"
  by (auto simp: digit_char_def dest!: arg_cong [where f = "of_char :: char \<Rightarrow> nat"])

lemma decimal_not_Nil [simp]: "decimal n \<noteq> []"
  by (subst decimal.simps) simp

lemma decimal_hd: "\<exists>d < 10. hd (decimal n) = digit_char d"
proof (induction n rule: decimal.induct)
  case (1 n)
  then show ?case by (subst (1) decimal.simps) auto
qed

lemma parse_digits_append:
  "parse_digits w acc (xs @ ys) =
     (case parse_digits w acc xs of None \<Rightarrow> None | Some a \<Rightarrow> parse_digits w a ys)"
  by (induction xs arbitrary: acc) (auto split: option.splits)

lemma parse_digits_decimal: "n < 2 ^ w \<Longrightarrow> parse_digits w 0 (decimal n) = Some n"
proof (induction n rule: decimal.induct)
  case (1 n)
  show ?case
  proof (cases "n < 10")
    case True
    then show ?thesis using 1
      by (subst decimal.simps) (simp add: digit_round_trip checked_mul_def checked_add_def)
  next
    case False
    have "n div 10 < 2 ^ w" using "1.prems" by (meson div_le_dividend le_less_trans)
    then have "parse_digits w 0 (decimal (n div 10)) = Some (n div 10)" using "1.IH" False by blast
    moreover have "n div 10 * 10 + n mod 10 = n" "n div 10 * 10 \<le> n" by simp_all
    ultimately show ?thesis using False "1.prems"
      by (subst decimal.simps)
        (simp add: parse_digits_append digit_round_trip checked_mul_def checked_add_def)
  qed
qed

text \<open>Printing an integer and parsing it gives it back when it fits the width.\<close>

lemma parse_decimal: "n < 2 ^ w \<Longrightarrow> parse_unsigned w (decimal n) = Some n"
proof -
  assume n: "n < 2 ^ w"
  obtain c cs where d: "decimal n = c # cs" by (cases "decimal n") simp_all
  have "c \<noteq> CHR ''+''" "c \<noteq> CHR ''-''" using decimal_hd [of n] digit_char_not_sign d by auto
  then show ?thesis using parse_digits_decimal [OF n] d by (simp add: parse_unsigned_def)
qed

lemma decimal_inj: "decimal m = decimal n \<Longrightarrow> m = n"
proof -
  assume eq: "decimal m = decimal n"
  have "m < 2 ^ (m + n)" by (rule less_le_trans [OF less_exp]) simp
  then have "parse_unsigned (m + n) (decimal n) = Some m" using eq parse_decimal [of m "m + n"] by simp
  moreover have "n < 2 ^ (m + n)" by (rule less_le_trans [OF less_exp]) simp
  then have "parse_unsigned (m + n) (decimal n) = Some n" by (rule parse_decimal)
  ultimately show ?thesis by simp
qed

lemma parse_digits_bound: "acc < 2 ^ w \<Longrightarrow> parse_digits w acc s = Some n \<Longrightarrow> n < 2 ^ w"
  by (induction w acc s rule: parse_digits.induct) (auto split: option.splits)

lemma parse_unsigned_bound: "parse_unsigned w s = Some n \<Longrightarrow> n < 2 ^ w"
  using parse_digits_bound [of 0 w]
  by (auto simp: parse_unsigned_def simp del: parse_digits.simps split: list.splits if_splits)

subsection \<open>Splitting\<close>

lemma split_on_none: "\<forall>c \<in> set xs. \<not> P c \<Longrightarrow> split_on P xs = [xs]"
  by (induction xs) auto

lemma split_on_not_Nil [simp]: "split_on P xs \<noteq> []"
  by (cases xs) (auto split: list.splits)

lemma split_on_sep: "P c \<Longrightarrow> split_on P (xs @ c # ys) = split_on P xs @ split_on P ys"
  by (induction xs) (auto split: list.splits)

lemma split_at_colon:
  "c \<notin> set xs \<Longrightarrow> c \<notin> set xs' \<Longrightarrow> xs @ c # ys = xs' @ c # ys' \<longleftrightarrow> xs = xs' \<and> ys = ys'"
proof (induction xs arbitrary: xs')
  case Nil
  then show ?case by (cases xs') auto
next
  case (Cons x xs)
  then show ?case by (cases xs') auto
qed

end
