(* ===== verification/Staking_Tx.thy ===== *)
theory Staking_Tx
  imports Econ_Params Kv_State Rust_Str
begin

text \<open>
  Staking transactions, \<open>src/economics/staking_tx.rs\<close>: payload parsing, the five handlers and the
  gas table. A handler takes the account state and the staking state and returns both with its
  result; on an early return they come back as they are at that point. The error of a result is
  the error value itself where the code stores its printed form.
\<close>

subsection \<open>Constants, errors, results\<close>

definition GAS_BASE :: u64 where "GAS_BASE = 21000"
definition GAS_DELEGATE :: u64 where "GAS_DELEGATE = GAS_BASE + 5000"
definition GAS_UNDELEGATE :: u64 where "GAS_UNDELEGATE = GAS_BASE + 5000"
definition GAS_WITHDRAW :: u64 where "GAS_WITHDRAW = GAS_BASE"
definition GAS_REGISTER :: u64 where "GAS_REGISTER = GAS_BASE + 10000"
definition GAS_DEREGISTER :: u64 where "GAS_DEREGISTER = GAS_BASE"
definition GAS_UNKNOWN_ACTION :: u64 where "GAS_UNKNOWN_ACTION = GAS_BASE"

lemmas gas_table_defs = GAS_BASE_def GAS_DELEGATE_def GAS_UNDELEGATE_def GAS_WITHDRAW_def
  GAS_REGISTER_def GAS_DEREGISTER_def GAS_UNKNOWN_ACTION_def

definition PAYLOAD_PREFIX :: string where "PAYLOAD_PREFIX = ''stake ''"

datatype staking_tx_error =
    EmptySender
  | MissingArgument string
  | InvalidArgument string string
  | UnknownAction string
  | Tx_ZeroAmount
  | Tx_InsufficientBalance u128 u128
  | BelowMinStake u128 u128
  | ValidatorExists string
  | ValidatorMissing string
  | CommissionOutOfRange u64
  | NothingToWithdraw string
  | HasExternalDelegations string u128
  | Tx_Overflow string
  | Domain staking_error

record staking_tx_result =
  success :: bool
  tx_error :: "staking_tx_error option"
  gas_used :: u64

definition tx_ok :: "u64 \<Rightarrow> staking_tx_result" where
  "tx_ok gas = \<lparr>success = True, tx_error = None, gas_used = gas\<rparr>"

definition tx_err :: "staking_tx_error \<Rightarrow> u64 \<Rightarrow> staking_tx_result" where
  "tx_err e gas = \<lparr>success = False, tx_error = Some e, gas_used = gas\<rparr>"

type_synonym 'vm tx_outcome =
  "'vm kv_state \<times> staking_state \<times> (staking_tx_error, u64) result"

subsection \<open>Helpers\<close>

definition parse_u128 :: "string \<Rightarrow> string \<Rightarrow> (staking_tx_error, u128) result" where
  "parse_u128 s name =
     (case parse_unsigned 128 s of Some n \<Rightarrow> Ok n | None \<Rightarrow> Err (InvalidArgument name s))"

definition parse_u64 :: "string \<Rightarrow> string \<Rightarrow> (staking_tx_error, u64) result" where
  "parse_u64 s name =
     (case parse_unsigned 64 s of Some n \<Rightarrow> Ok n | None \<Rightarrow> Err (InvalidArgument name s))"

definition read_balance :: "'vm kv_state \<Rightarrow> string \<Rightarrow> u128" where
  "read_balance k addr = (case bt_get (balances k) addr of None \<Rightarrow> 0 | Some b \<Rightarrow> b)"

definition debit_balance ::
  "'vm kv_state \<Rightarrow> string \<Rightarrow> u128 \<Rightarrow> 'vm kv_state \<times> (staking_tx_error, unit) result" where
  "debit_balance k addr amt =
     (case Option.bind (checked_sub (read_balance k addr) amt) (try_from 64) of
        None \<Rightarrow> (k, Err (Tx_Overflow ''debit_balance''))
      | Some b \<Rightarrow> (k\<lparr>balances := bt_insert addr b (balances k)\<rparr>, Ok ()))"

definition credit_balance ::
  "'vm kv_state \<Rightarrow> string \<Rightarrow> u128 \<Rightarrow> 'vm kv_state \<times> (staking_tx_error, unit) result" where
  "credit_balance k addr amt =
     (case Option.bind (checked_add 128 (read_balance k addr) amt) (try_from 64) of
        None \<Rightarrow> (k, Err (Tx_Overflow ''credit_balance''))
      | Some b \<Rightarrow> (k\<lparr>balances := bt_insert addr b (balances k)\<rparr>, Ok ()))"

definition gas_for_action :: "string \<Rightarrow> u64" where
  "gas_for_action action =
     (if action = ''delegate'' then GAS_DELEGATE
      else if action = ''undelegate'' then GAS_UNDELEGATE
      else if action = ''withdraw'' then GAS_WITHDRAW
      else if action = ''register'' then GAS_REGISTER
      else if action = ''deregister'' then GAS_DEREGISTER
      else GAS_UNKNOWN_ACTION)"

definition validator_and_amount ::
  "string list \<Rightarrow> (staking_tx_error, string \<times> u128) result" where
  \<comment> \<open>the argument parsing that opens \<open>apply_delegate\<close> and \<open>apply_undelegate\<close>\<close>
  "validator_and_amount args =
     (case args of
        [] \<Rightarrow> Err (MissingArgument ''validator'')
      | [v] \<Rightarrow> Err (MissingArgument ''amount'')
      | v # a # _ \<Rightarrow>
          (case parse_u128 a ''amount'' of
             Ok n \<Rightarrow> if n = 0 then Err Tx_ZeroAmount else Ok (v, n)
           | Err e \<Rightarrow> Err e
           | Panic \<Rightarrow> Panic))"

subsection \<open>Handlers\<close>

definition apply_delegate ::
  "string list \<Rightarrow> string \<Rightarrow> 'vm kv_state \<Rightarrow> staking_state \<Rightarrow> 'vm tx_outcome" where
  "apply_delegate args from k s =
     (case validator_and_amount args of
        Err e \<Rightarrow> (k, s, Err e)
      | Panic \<Rightarrow> (k, s, Panic)
      | Ok (val, amt) \<Rightarrow>
          (let balance = read_balance k from in
           if balance < amt then (k, s, Err (Tx_InsufficientBalance balance amt))
           else case delegate s from val amt (\<lambda>_. balance) of
               (s1, Err e) \<Rightarrow> (k, s1, Err (Domain e))
             | (s1, Panic) \<Rightarrow> (k, s1, Panic)
             | (s1, Ok _) \<Rightarrow>
                 (case debit_balance k from amt of
                    (k1, Ok _) \<Rightarrow> (k1, s1, Ok GAS_DELEGATE)
                  | (k1, Err e) \<Rightarrow> (k1, s1, Err e)
                  | (k1, Panic) \<Rightarrow> (k1, s1, Panic))))"

definition apply_undelegate ::
  "string list \<Rightarrow> string \<Rightarrow> 'vm kv_state \<Rightarrow> staking_state \<Rightarrow> economics_params \<Rightarrow> u64
    \<Rightarrow> 'vm tx_outcome" where
  "apply_undelegate args from k s params epoch =
     (case validator_and_amount args of
        Err e \<Rightarrow> (k, s, Err e)
      | Panic \<Rightarrow> (k, s, Panic)
      | Ok (val, amt) \<Rightarrow>
          (case undelegate s from val amt epoch (unbonding_epochs params) of
             (s1, Ok _) \<Rightarrow> (k, s1, Ok GAS_UNDELEGATE)
           | (s1, Err e) \<Rightarrow> (k, s1, Err (Domain e))
           | (s1, Panic) \<Rightarrow> (k, s1, Panic)))"

definition apply_withdraw ::
  "string list \<Rightarrow> string \<Rightarrow> 'vm kv_state \<Rightarrow> staking_state \<Rightarrow> u64 \<Rightarrow> 'vm tx_outcome" where
  "apply_withdraw args from k s epoch =
     (case args of
        [] \<Rightarrow> (k, s, Err (MissingArgument ''validator''))
      | val # _ \<Rightarrow>
          (case withdraw s from val epoch of
             (s1, Err e) \<Rightarrow> (k, s1, Err (Domain e))
           | (s1, Panic) \<Rightarrow> (k, s1, Panic)
           | (s1, Ok withdrawn) \<Rightarrow>
               (if withdrawn = 0 then (k, s1, Err (NothingToWithdraw val))
                else case credit_balance k from withdrawn of
                    (k1, Ok _) \<Rightarrow> (k1, s1, Ok GAS_WITHDRAW)
                  | (k1, Err e) \<Rightarrow> (k1, s1, Err e)
                  | (k1, Panic) \<Rightarrow> (k1, s1, Panic))))"

definition apply_register ::
  "string list \<Rightarrow> string \<Rightarrow> 'vm kv_state \<Rightarrow> staking_state \<Rightarrow> economics_params \<Rightarrow> 'vm tx_outcome" where
  "apply_register args from k s params =
     (case args of
        [] \<Rightarrow> (k, s, Err (MissingArgument ''commission_bps''))
      | a # _ \<Rightarrow>
          (case parse_u64 a ''commission_bps'' of
             Err e \<Rightarrow> (k, s, Err e)
           | Panic \<Rightarrow> (k, s, Panic)
           | Ok bps \<Rightarrow>
               (if MAX_BPS < bps then (k, s, Err (CommissionOutOfRange bps))
                else if bt_contains (validators s) from then (k, s, Err (ValidatorExists from))
                else let balance = read_balance k from in
                  if balance < min_stake params
                  then (k, s, Err (BelowMinStake balance (min_stake params)))
                  else case Option.bind (checked_sub balance (min_stake params)) (try_from 64) of
                      None \<Rightarrow> (k, s, Err (Tx_Overflow ''register.debit''))
                    | Some new_balance \<Rightarrow>
                        (case validator_new from (min_stake params) bps of
                           Err e \<Rightarrow> (k, s, Err (Domain e))
                         | Panic \<Rightarrow> (k, s, Panic)
                         | Ok v \<Rightarrow>
                             (k\<lparr>balances := bt_insert from new_balance (balances k)\<rparr>,
                              s\<lparr>validators := bt_insert from v (validators s)\<rparr>, Ok GAS_REGISTER)))))"

definition external_delegations :: "staking_state \<Rightarrow> string \<Rightarrow> u128" where
  \<comment> \<open>the fold at the head of \<open>apply_deregister\<close>\<close>
  "external_delegations s from =
     foldl (saturating_add 128) 0
       (map (\<lambda>(_, d). amount d)
         (filter (\<lambda>((delegator, val), _). val = from \<and> delegator \<noteq> from) (delegations s)))"

definition drop_self_delegation :: "staking_state \<Rightarrow> string \<Rightarrow> staking_state" where
  \<comment> \<open>the commit phase of \<open>apply_deregister\<close> on the delegation map\<close>
  "drop_self_delegation s from =
     (case bt_get (delegations s) (from, from) of
        None \<Rightarrow> s
      | Some d \<Rightarrow>
          (if unbondings d = [] then s\<lparr>delegations := bt_remove (from, from) (delegations s)\<rparr>
           else s\<lparr>delegations := bt_insert (from, from) (d\<lparr>amount := 0\<rparr>) (delegations s)\<rparr>))"

definition apply_deregister ::
  "string \<Rightarrow> 'vm kv_state \<Rightarrow> staking_state \<Rightarrow> 'vm tx_outcome" where
  "apply_deregister from k s =
     (case bt_get (validators s) from of
        None \<Rightarrow> (k, s, Err (ValidatorMissing from))
      | Some v \<Rightarrow>
          (let external = external_delegations s from in
           if 0 < external then (k, s, Err (HasExternalDelegations from external))
           else case Option.bind (checked_add 128 (read_balance k from) (self_stake v)) (try_from 64) of
               None \<Rightarrow> (k, s, Err (Tx_Overflow ''deregister.credit''))
             | Some new_balance \<Rightarrow>
                 (k\<lparr>balances := bt_insert from new_balance (balances k)\<rparr>,
                  drop_self_delegation (s\<lparr>validators := bt_remove from (validators s)\<rparr>) from,
                  Ok GAS_DEREGISTER)))"

subsection \<open>Entry point\<close>

definition dispatch ::
  "string \<Rightarrow> string list \<Rightarrow> string \<Rightarrow> 'vm kv_state \<Rightarrow> staking_state \<Rightarrow> economics_params \<Rightarrow> u64
    \<Rightarrow> 'vm tx_outcome" where
  "dispatch action args from k s params epoch =
     (if action = ''delegate'' then apply_delegate args from k s
      else if action = ''undelegate'' then apply_undelegate args from k s params epoch
      else if action = ''withdraw'' then apply_withdraw args from k s epoch
      else if action = ''register'' then apply_register args from k s params
      else if action = ''deregister'' then apply_deregister from k s
      else (k, s, Err (UnknownAction action)))"

definition try_apply_staking_tx ::
  "string \<Rightarrow> string \<Rightarrow> 'vm kv_state \<Rightarrow> staking_state \<Rightarrow> economics_params \<Rightarrow> u64
    \<Rightarrow> 'vm kv_state \<times> staking_state \<times> (staking_tx_error, staking_tx_result option) result" where
  "try_apply_staking_tx payload from k s params epoch =
     (case strip_prefix PAYLOAD_PREFIX (trim payload) of
        None \<Rightarrow> (k, s, Ok None)
      | Some rest \<Rightarrow>
          (if from = [] then (k, s, Ok (Some (tx_err EmptySender GAS_UNKNOWN_ACTION)))
           else let tokens = split_whitespace rest;
                    action = (case tokens of [] \<Rightarrow> [] | t # _ \<Rightarrow> t);
                    args = (case tokens of [] \<Rightarrow> [] | _ # ts \<Rightarrow> ts)
             in case dispatch action args from k s params epoch of
                  (k1, s1, Ok gas) \<Rightarrow> (k1, s1, Ok (Some (tx_ok gas)))
                | (k1, s1, Err e) \<Rightarrow> (k1, s1, Ok (Some (tx_err e (gas_for_action action))))
                | (k1, s1, Panic) \<Rightarrow> (k1, s1, Panic)))"

subsection \<open>Invariant and wealth\<close>

definition no_orphans :: "staking_state \<Rightarrow> bool" where
  "no_orphans s \<longleftrightarrow>
     (\<forall>(k, d) \<in> set (delegations s). bt_get (validators s) (snd k) = None \<longrightarrow> amount d = 0)"

definition tx_inv :: "'vm kv_state \<Rightarrow> staking_state \<Rightarrow> bool" where
  "tx_inv k s \<longleftrightarrow> staking_inv s \<and> no_orphans s \<and> balances_ok (balances k)"

definition wealth :: "'vm kv_state \<Rightarrow> staking_state \<Rightarrow> nat" where
  "wealth k s = total_supply (balances k) + staked_total s"

definition self_bond :: "staking_state \<Rightarrow> string \<Rightarrow> nat" where
  "self_bond s a = (case bt_get (delegations s) (a, a) of None \<Rightarrow> 0 | Some d \<Rightarrow> amount d)"

lemma read_balance_eq: "read_balance k a = balance_or_zero (balances k) a"
  by (simp add: read_balance_def balance_or_zero_def)

lemma no_orphans_iff:
  "no_orphans s \<longleftrightarrow> (\<forall>addr. bt_get (validators s) addr = None \<longrightarrow> bonded_to s addr = 0)"
  unfolding no_orphans_def bonded_to_def bt_sum_zero_iff by (auto split: if_splits)

lemma tx_invD:
  assumes "tx_inv k s"
  shows "staking_inv s" "no_orphans s" "balances_ok (balances k)" "bt_wf (balances k)"
    "bt_wf (validators s)" "bt_wf (delegations s)"
  using assms staking_invD(1,2) [of s] by (auto simp: tx_inv_def balances_ok_def)

lemma no_orphans_mono:
  assumes "no_orphans s"
    and "\<And>a. bt_get (validators s') a = None \<Longrightarrow> bt_get (validators s) a = None"
    and "\<And>a. bt_get (validators s') a = None \<Longrightarrow> bonded_to s' a \<le> bonded_to s a"
  shows "no_orphans s'"
  using assms by (fastforce simp: no_orphans_iff)

lemma delegate_no_orphans:
  assumes inv: "staking_inv s" and no: "no_orphans s"
  shows "no_orphans (fst (delegate s dg val amt bal))"
proof (cases "snd (delegate s dg val amt bal) = Ok ()")
  case True
  obtain v d where v: "bt_get (validators s) val = Some v"
    and s': "fst (delegate s dg val amt bal) =
      s\<lparr>validators := bt_insert val (v\<lparr>total_stake := total_stake v + amt\<rparr>) (validators s),
        delegations := bt_insert (dg, val) (d\<lparr>amount := amount d + amt\<rparr>) (delegations s)\<rparr>"
    using delegate_state [OF True] by metis
  let ?d = "d\<lparr>amount := amount d + amt\<rparr>"
  have b: "bonded_to (fst (delegate s dg val amt bal)) a \<le> bonded_to s a" if "a \<noteq> val" for a
    using bonded_to_insert [OF staking_invD(2) [OF inv], of dg val ?d a] that s'
    by (simp add: bonded_to_def)
  show ?thesis
    by (rule no_orphans_mono [OF no])
      (use b v s' in \<open>auto simp: bt_get_insert split: if_splits\<close>)
qed (simp add: delegate_atomic no)

lemma undelegate_no_orphans:
  assumes inv: "staking_inv s" and no: "no_orphans s"
  shows "no_orphans (fst (undelegate s dg val amt ep ue))"
  using inv
proof (cases rule: undelegate_cases [of s dg val amt ep ue])
  case (Ok v d)
  let ?s' = "fst (undelegate s dg val amt ep ue)"
  let ?d = "d\<lparr>amount := amount d - amt, unbondings := unbondings d @
    [\<lparr>ub_id = next_unbonding_id s, ub_amount = amt, unlock_epoch = saturating_add 64 ep ue\<rparr>]\<rparr>"
  have b: "bonded_to ?s' a \<le> bonded_to s a" if "a \<noteq> val" for a
    using bonded_to_insert [OF staking_invD(2) [OF inv], of dg val ?d a] that Ok(7)
    by (simp add: bonded_to_def)
  show ?thesis
    by (rule no_orphans_mono [OF no])
      (use b Ok(1,7) in \<open>auto simp: bt_get_insert split: if_splits\<close>)
qed (simp add: no)

lemma withdraw_bonded:
  assumes inv: "staking_inv s"
  shows "bonded_to (fst (withdraw s dg val ep)) a \<le> bonded_to s a"
    and "validators (fst (withdraw s dg val ep)) = validators s"
proof -
  note wf = staking_invD(2) [OF inv]
  have q: "bonded_to (s\<lparr>delegations := bt_insert (dg, val) (d\<lparr>unbondings := r\<rparr>) (delegations s)\<rparr>) a
      \<le> bonded_to s a" if "bt_get (delegations s) (dg, val) = Some d" for d r
    using bonded_to_insert [OF wf, of dg val "d\<lparr>unbondings := r\<rparr>" a] that by (auto split: if_splits)
  show "bonded_to (fst (withdraw s dg val ep)) a \<le> bonded_to s a"
  proof (cases rule: withdraw_cases [of s dg val ep])
    case (Drop d w)
    then show ?thesis
      using bt.total_del [OF wf Drop(1), of "\<lambda>k d. if snd k = a then amount d else 0"]
      by (simp add: bonded_to_def)
  qed (simp_all add: q)
  show "validators (fst (withdraw s dg val ep)) = validators s"
    by (cases rule: withdraw_cases [of s dg val ep]) simp_all
qed

lemma withdraw_no_orphans:
  "staking_inv s \<Longrightarrow> no_orphans s \<Longrightarrow> no_orphans (fst (withdraw s dg val ep))"
  by (rule no_orphans_mono) (auto simp: withdraw_bonded)

subsection \<open>The handlers preserve the invariant and the wealth\<close>

definition sound_outcome ::
  "'vm kv_state \<Rightarrow> staking_state \<Rightarrow> nat \<Rightarrow> 'vm kv_state \<Rightarrow> staking_state
    \<Rightarrow> (staking_tx_error, 'a) result \<Rightarrow> bool" where
  "sound_outcome k s lost k' s' r \<longleftrightarrow>
     r \<noteq> Panic \<and> tx_inv k' s' \<and> wealth k' s' + lost = wealth k s"

lemma sound_refl: "tx_inv k s \<Longrightarrow> sound_outcome k s 0 k s (Err e)"
  by (simp add: sound_outcome_def)

lemma set_balance_wealth:
  assumes "balances_ok (balances k)"
  shows "total_supply (bt_insert a x (balances k)) + read_balance k a = total_supply (balances k) + x"
  using total_supply_insert [of "balances k" a x] assms by (simp add: balances_ok_def read_balance_eq)

lemma read_balance_bound: "balances_ok (balances k) \<Longrightarrow> read_balance k a < 2 ^ 64"
  unfolding read_balance_eq by (rule balances_ok_get)

lemma apply_delegate_sound:
  assumes inv: "tx_inv k s" and run: "apply_delegate args from k s = (k', s', r)"
  shows "sound_outcome k s 0 k' s' r"
proof (cases "validator_and_amount args")
  case (Ok va)
  obtain val amt where va: "va = (val, amt)" by fastforce
  note I = tx_invD [OF inv]
  let ?b = "read_balance k from"
  let ?d = "delegate s from val amt (\<lambda>_. ?b)"
  show ?thesis
  proof (cases "?b < amt")
    case True
    then show ?thesis using run Ok va inv sound_refl by (auto simp: apply_delegate_def)
  next
    case False
    show ?thesis
    proof (cases "snd ?d = Ok ()")
      case True
      have fits: "?b - amt < 2 ^ 64" using read_balance_bound [OF I(3), of "from"] by linarith
      moreover obtain s1 where d: "?d = (s1, Ok ())" using True by (metis prod.collapse)
      ultimately have "r \<noteq> Panic" "s' = fst ?d" "k' = k\<lparr>balances := bt_insert from (?b - amt) (balances k)\<rparr>"
        using run Ok va False
        by (auto simp: apply_delegate_def debit_balance_def checked_sub_def try_from_def Let_def)
      moreover have "total_supply (bt_insert from (?b - amt) (balances k)) + amt = total_supply (balances k)"
        using set_balance_wealth [OF I(3), of "from" "?b - amt"] False by simp
      ultimately show ?thesis
        using delegate_flow [OF I(1) True] delegate_inv [OF I(1)] delegate_no_orphans [OF I(1,2)]
          balances_ok_insert [OF I(3) fits]
        by (simp add: sound_outcome_def tx_inv_def wealth_def)
    next
      case fail: False
      then have "fst ?d = s" by (rule delegate_atomic)
      moreover obtain e where "snd ?d = Err e"
        using fail delegate_never_panics [of s "from" val amt] by (cases "snd ?d") auto
      ultimately have "?d = (s, Err e)" by (metis prod.collapse)
      then show ?thesis using run Ok va False inv sound_refl by (auto simp: apply_delegate_def)
    qed
  qed
qed (use run inv sound_refl in \<open>auto simp: apply_delegate_def validator_and_amount_def parse_u128_def
      split: list.splits option.splits if_splits\<close>)

lemma apply_undelegate_sound:
  assumes inv: "tx_inv k s" and run: "apply_undelegate args from k s params epoch = (k', s', r)"
  shows "sound_outcome k s 0 k' s' r"
proof (cases "validator_and_amount args")
  case (Ok va)
  obtain val amt where va: "va = (val, amt)" by fastforce
  note I = tx_invD [OF inv]
  let ?u = "undelegate s from val amt epoch (unbonding_epochs params)"
  obtain s1 u where u: "?u = (s1, u)" by fastforce
  have "u \<noteq> Panic"
    using u undelegate_never_panics [of s "from" val amt epoch "unbonding_epochs params"] by simp
  then have "k' = k" "s' = fst ?u" "r \<noteq> Panic"
    using run Ok va u by (cases u; auto simp: apply_undelegate_def)+
  then show ?thesis
    using undelegate_inv [OF I(1)] undelegate_flow [OF I(1)] undelegate_no_orphans [OF I(1,2)] I(3)
    by (simp add: sound_outcome_def tx_inv_def wealth_def)
qed (use run inv sound_refl in \<open>auto simp: apply_undelegate_def validator_and_amount_def parse_u128_def
      split: list.splits option.splits if_splits\<close>)

lemma apply_withdraw_sound:
  assumes inv: "tx_inv k s" and fits: "wealth k s < 2 ^ 64"
    and run: "apply_withdraw args from k s epoch = (k', s', r)"
  shows "sound_outcome k s 0 k' s' r"
proof (cases args)
  case (Cons val rest)
  note I = tx_invD [OF inv]
  let ?w = "withdraw s from val epoch"
  have tot: "staked_total s < 2 ^ 128" using fits by (simp add: wealth_def)
  have I': "staking_inv (fst ?w)" "no_orphans (fst ?w)"
    using withdraw_inv [OF I(1)] withdraw_no_orphans [OF I(1,2)] by blast+
  show ?thesis
  proof (cases "snd ?w")
    case (Ok w)
    then obtain s1 where w: "?w = (s1, Ok w)" by (metis prod.collapse)
    have flow: "staked_total (fst ?w) + w = staked_total s" by (rule withdraw_flow [OF I(1) Ok])
    have le: "read_balance k from + w < 2 ^ 64"
      using flow fits balance_le_supply [OF I(4), of "from"] by (simp add: wealth_def read_balance_eq)
    then have "k' = (if w = 0 then k else k\<lparr>balances := bt_insert from (read_balance k from + w) (balances k)\<rparr>)"
      "s' = fst ?w" "r \<noteq> Panic"
      using run Cons w
      by (auto simp: apply_withdraw_def credit_balance_def checked_add_def try_from_def split: if_splits)
    then show ?thesis
      using I' I(3) balances_ok_insert [OF I(3) le] flow set_balance_wealth [OF I(3), of "from" "read_balance k from + w"]
      by (auto simp: sound_outcome_def tx_inv_def wealth_def)
  next
    case (Err e)
    have "withdraw s from val epoch = (s, Err e)"
    proof (cases rule: withdraw_cases [of s "from" val epoch])
      case (Lost d)
      then show ?thesis using withdraw_loop_fits [OF I(6) tot Lost(1), of epoch] by simp
    qed (use Err in simp_all)
    then show ?thesis using run Cons inv sound_refl by (auto simp: apply_withdraw_def)
  next
    case Panic
    then show ?thesis using withdraw_never_panics by metis
  qed
qed (use run inv sound_refl in \<open>auto simp: apply_withdraw_def\<close>)

lemma register_inv:
  assumes inv: "tx_inv k s" and fresh: "bt_get (validators s) a = None"
    and v: "self_stake v < 2 ^ 128" "total_stake v = self_stake v"
    and upd: "s' = s\<lparr>validators := bt_insert a v (validators s)\<rparr>"
  shows "staking_inv s'" and "no_orphans s'" and "staked_total s' = staked_total s + self_stake v"
  unfolding upd
proof -
  let ?s = "s\<lparr>validators := bt_insert a v (validators s)\<rparr>"
  note I = tx_invD [OF inv]
  note D = staking_invD [OF I(1)]
  show "staking_inv ?s"
  proof (rule staking_invI)
    show "bt_wf (validators ?s)" "bt_wf (delegations ?s)" using D by (simp_all add: bt_simps)
    show "unbonding_ids_ok ?s" using D(3) by (simp add: unbonding_ids_ok_def)
    fix b w
    assume "bt_get (validators ?s) b = Some w"
    then have "(b = a \<and> w = v) \<or> bt_get (validators s) b = Some w"
      by (auto simp: bt_get_insert split: if_splits)
    moreover have "bonded_to s a = 0" using I(2) fresh by (simp add: no_orphans_iff)
    ultimately show "validator_ok ?s b w"
      using D(4) [of b w] v by (auto simp: validator_ok_def)
  qed
  show "no_orphans ?s"
    using I(2) by (auto simp: no_orphans_iff bt_get_insert split: if_splits)
  show "staked_total ?s = staked_total s + self_stake v"
    using bt.total_fresh [OF D(1) fresh, of "\<lambda>_ v. self_stake v" v] by (simp add: staked_total_def)
qed

lemma apply_register_fail:
  "apply_register args from k s params = (k', s', r) \<Longrightarrow> \<not> is_ok r \<Longrightarrow> k' = k \<and> s' = s \<and> r \<noteq> Panic"
  by (auto simp: apply_register_def parse_u64_def validator_new_def Let_def
      split: list.splits option.splits if_splits)

lemma apply_register_Ok:
  assumes "apply_register args from k s params = (k', s', Ok g)"
  shows "min_stake params \<le> read_balance k from \<and> bt_get (validators s) from = None \<and>
    k' = k\<lparr>balances := bt_insert from (read_balance k from - min_stake params) (balances k)\<rparr> \<and>
    (\<exists>bps \<le> MAX_BPS. s' = s\<lparr>validators := bt_insert from \<lparr>operator = from,
       self_stake = min_stake params, total_stake = min_stake params, jailed = False,
       commission_bps = bps\<rparr> (validators s)\<rparr>)"
  using assms
  by (auto simp: apply_register_def parse_u64_def validator_new_def bt_contains_def Let_def
      Option.bind_eq_Some_conv not_less split: list.splits option.splits if_splits)

lemma apply_register_sound:
  assumes inv: "tx_inv k s" and run: "apply_register args from k s params = (k', s', r)"
  shows "sound_outcome k s 0 k' s' r"
proof (cases "is_ok r")
  case True
  note I = tx_invD [OF inv]
  let ?b = "read_balance k from" and ?m = "min_stake params"
  obtain g where r: "r = Ok g" using True by (auto simp: is_ok_iff)
  obtain bps where le: "?m \<le> ?b" and none: "bt_get (validators s) from = None"
    and k': "k' = k\<lparr>balances := bt_insert from (?b - ?m) (balances k)\<rparr>"
    and s': "s' = s\<lparr>validators := bt_insert from \<lparr>operator = from, self_stake = ?m,
      total_stake = ?m, jailed = False, commission_bps = bps\<rparr> (validators s)\<rparr>"
    using apply_register_Ok run r by metis
  have "?b < 2 ^ 64" using read_balance_bound [OF I(3)] .
  then have m: "?m < 2 ^ 128" "?b - ?m < 2 ^ 64" using le by simp_all
  show ?thesis
    using register_inv [OF inv none _ _ s'] m(1) k' r le
      balances_ok_insert [OF I(3) m(2), of "from"] set_balance_wealth [OF I(3), of "from" "?b - ?m"]
    by (simp add: sound_outcome_def tx_inv_def wealth_def)
next
  case False
  then show ?thesis
    using apply_register_fail [OF run] inv by (simp add: sound_outcome_def)
qed

text \<open>Deregistration: without external delegations the whole bond of the validator is its own.\<close>

lemma external_zero:
  assumes "external_delegations s a = 0" and "((dg, a), d) \<in> set (delegations s)" and "0 < amount d"
  shows "dg = a"
proof (rule ccontr)
  assume ne: "dg \<noteq> a"
  define f where "f = filter (\<lambda>((delegator, val), _). val = a \<and> delegator \<noteq> a) (delegations s)"
  define S where "S = (\<Sum>x\<leftarrow>f. amount (snd x))"
  have "external_delegations s a = min S (2 ^ 128 - 1)"
    using foldl_saturating_add [of 0 128 "\<lambda>x. amount (snd x)" f]
    by (simp add: external_delegations_def f_def S_def foldl_map case_prod_beta)
  then have "S = 0" using assms(1) by (auto simp: min_def split: if_splits)
  moreover have "((dg, a), d) \<in> set f" using assms(2) ne by (simp add: f_def)
  then have "amount d \<in> set (map (\<lambda>x. amount (snd x)) f)" by force
  then have "amount d \<le> S" unfolding S_def by (rule member_le_sum_list) simp
  ultimately show False using assms(3) by simp
qed

lemma bonded_self:
  assumes wf: "bt_wf (delegations s)" and ext: "external_delegations s a = 0"
  shows "bonded_to s a = self_bond s a"
proof (cases "bt_get (delegations s) (a, a)")
  case (Some d)
  have "bt_sum (\<lambda>k d. if snd k = a then amount d else 0) (bt_remove (a, a) (delegations s)) = 0"
    using external_zero [OF ext] by (intro bt_sum_zero) (auto simp: bt_remove_def)
  then show ?thesis
    using bt.total_split [OF wf Some, of "\<lambda>k d. if snd k = a then amount d else 0"] Some
    by (simp add: bonded_to_def self_bond_def)
next
  case None
  have "((a, a), d) \<notin> set (delegations s)" for d using bt_in_set_get [OF wf] None by fastforce
  then have "bonded_to s a = 0"
    unfolding bonded_to_def using external_zero [OF ext] by (intro bt_sum_zero) (metis neq0_conv prod.collapse)
  then show ?thesis using None by (simp add: self_bond_def)
qed

lemma drop_self_delegation_facts:
  assumes wf: "bt_wf (delegations s)" and s': "s' = drop_self_delegation s a"
  shows "bt_wf (delegations s')" "validators s' = validators s"
    "next_unbonding_id s' = next_unbonding_id s"
    "id_count s' i \<le> id_count s i"
    "b \<noteq> a \<Longrightarrow> bonded_to s' b = bonded_to s b"
    "bonded_to s' a + self_bond s a = bonded_to s a"
    "staked_total s' + self_bond s a = staked_total s"
proof -
  show "bt_wf (delegations s')" "validators s' = validators s"
    "next_unbonding_id s' = next_unbonding_id s"
    using wf unfolding s' by (auto simp: drop_self_delegation_def bt_simps split: option.splits)
  show "id_count s' i \<le> id_count s i"
  proof (cases "bt_get (delegations s) (a, a)")
    case (Some d)
    then show ?thesis
      using id_count_insert [OF wf, of "(a, a)" "d\<lparr>amount := 0\<rparr>" i] id_count_remove [OF wf, of "(a, a)" i]
      by (simp add: s' drop_self_delegation_def)
  qed (simp add: s' drop_self_delegation_def)
  show "bonded_to s' b = bonded_to s b" if "b \<noteq> a"
  proof (cases "bt_get (delegations s) (a, a)")
    case (Some d)
    then show ?thesis
      using bonded_to_insert [OF wf, of a a "d\<lparr>amount := 0\<rparr>" b] that
        bt.total_del [OF wf Some, of "\<lambda>k d. if snd k = b then amount d else 0"]
      by (simp add: s' drop_self_delegation_def bonded_to_def)
  qed (simp add: s' drop_self_delegation_def)
  show "bonded_to s' a + self_bond s a = bonded_to s a"
  proof (cases "bt_get (delegations s) (a, a)")
    case (Some d)
    then show ?thesis
      using bonded_to_insert [OF wf, of a a "d\<lparr>amount := 0\<rparr>" a]
        bt.total_del [OF wf Some, of "\<lambda>k d. if snd k = a then amount d else 0"]
      by (simp add: s' drop_self_delegation_def bonded_to_def self_bond_def)
  qed (simp add: s' drop_self_delegation_def self_bond_def)
  show "staked_total s' + self_bond s a = staked_total s"
  proof (cases "bt_get (delegations s) (a, a)")
    case (Some d)
    then show ?thesis
      using bt.total_replace [OF wf Some, of "\<lambda>_ d. amount d + unbonding_sum d" "d\<lparr>amount := 0\<rparr>"]
        bt.total_del [OF wf Some, of "\<lambda>_ d. amount d + unbonding_sum d"]
      by (auto simp: s' drop_self_delegation_def staked_total_def self_bond_def unbonding_sum_def)
  qed (simp add: s' drop_self_delegation_def self_bond_def)
qed

lemma deregister_inv:
  assumes inv: "tx_inv k s" and v: "bt_get (validators s) a = Some v"
    and ext: "external_delegations s a = 0"
    and upd: "s' = drop_self_delegation (s\<lparr>validators := bt_remove a (validators s)\<rparr>) a"
  shows "staking_inv s'" "no_orphans s'" "staked_total s' + self_bond s a + self_stake v = staked_total s"
proof -
  note I = tx_invD [OF inv]
  note D = staking_invD [OF I(1)]
  let ?s1 = "s\<lparr>validators := bt_remove a (validators s)\<rparr>"
  have wf1: "bt_wf (delegations ?s1)" using D(2) by simp
  note F = drop_self_delegation_facts [OF wf1 upd]
  have sb: "self_bond ?s1 a = self_bond s a" by (simp add: self_bond_def)
  have val: "bt_get (validators s') b = (if b = a then None else bt_get (validators s) b)" for b
    using F(2) by (simp add: bt_get_remove)
  have zero: "bonded_to s' a = 0" using F(6) sb bonded_self [OF D(2) ext] by simp
  show "staking_inv s'"
  proof (rule staking_invI)
    show "bt_wf (validators s')" "bt_wf (delegations s')" using F(1,2) D(1) by (simp_all add: bt_simps)
    show "unbonding_ids_ok s'"
      by (rule unbonding_ids_mono [OF D(3,2) F(1)]) (use F(3,4) in simp_all)
    fix b w
    assume "bt_get (validators s') b = Some w"
    then have "b \<noteq> a" "bt_get (validators s) b = Some w" using val by (auto split: if_splits)
    then show "validator_ok s' b w" using D(4) [of b w] F(5) [of b] by (simp add: validator_ok_def)
  qed
  show "no_orphans s'"
    unfolding no_orphans_iff
  proof (intro allI impI)
    fix b
    assume "bt_get (validators s') b = None"
    then show "bonded_to s' b = 0"
      using zero F(5) [of b] val I(2) by (cases "b = a") (simp_all add: no_orphans_iff)
  qed
  have "staked_total ?s1 + self_stake v = staked_total s"
    using bt.total_del [OF D(1) v, of "\<lambda>_ v. self_stake v"] by (simp add: staked_total_def)
  then show "staked_total s' + self_bond s a + self_stake v = staked_total s" using F(7) sb by simp
qed

lemma apply_deregister_sound:
  assumes inv: "tx_inv k s" and run: "apply_deregister from k s = (k', s', r)"
  shows "sound_outcome k s (if bt_get (validators s') from = bt_get (validators s) from then 0
    else self_bond s from) k' s' r"
proof (cases "\<exists>e. (k', s', r) = (k, s, Err e)")
  case True
  then show ?thesis using sound_refl [OF inv] by auto
next
  case False
  note I = tx_invD [OF inv]
  let ?b = "read_balance k from"
  obtain v where v: "bt_get (validators s) from = Some v"
    using run False by (cases "bt_get (validators s) from") (auto simp: apply_deregister_def)
  have ext: "external_delegations s from = 0"
    using run False v by (auto simp: apply_deregister_def Let_def split: if_splits)
  have b: "?b + self_stake v < 2 ^ 128" "?b + self_stake v < 2 ^ 64"
    using run False v ext
    by (auto simp: apply_deregister_def checked_add_def try_from_def split: if_splits)
  have k': "k' = k\<lparr>balances := bt_insert from (?b + self_stake v) (balances k)\<rparr>"
    and s': "s' = drop_self_delegation (s\<lparr>validators := bt_remove from (validators s)\<rparr>) from"
    and r: "r \<noteq> Panic"
    using run v ext b by (auto simp: apply_deregister_def checked_add_def try_from_def)
  note J = deregister_inv [OF inv v ext s']
  have "bt_get (validators s') from = None"
    using drop_self_delegation_facts(2) [of "s\<lparr>validators := bt_remove from (validators s)\<rparr>", OF _ s'] I(6)
    by (simp add: bt_get_remove)
  then show ?thesis
    using J v k' r balances_ok_insert [OF I(3) b(2), of "from"]
      set_balance_wealth [OF I(3), of "from" "?b + self_stake v"]
    by (simp add: sound_outcome_def tx_inv_def wealth_def)
qed

text \<open>Only deregistration removes a validator.\<close>

lemma delegate_dom:
  "delegate s dg val amt bal = (s', r) \<Longrightarrow> bt_get (validators s') a = None \<longleftrightarrow> bt_get (validators s) a = None"
  by (auto simp: delegate_def Let_def bt_get_insert split: option.splits if_splits)

lemma undelegate_dom:
  "undelegate s dg val amt ep ue = (s', r) \<Longrightarrow> bt_get (validators s') a = None \<longleftrightarrow> bt_get (validators s) a = None"
  by (auto simp: undelegate_def Let_def bt_get_insert split: option.splits if_splits)

lemma withdraw_dom: "withdraw s dg val ep = (s', r) \<Longrightarrow> validators s' = validators s"
  by (cases rule: withdraw_cases [of s dg val ep]) auto

lemma apply_delegate_dom:
  "apply_delegate args from k s = (k', s', r) \<Longrightarrow>
     bt_get (validators s') a = None \<longleftrightarrow> bt_get (validators s) a = None"
  by (auto simp: apply_delegate_def Let_def split: result.splits if_splits prod.splits
      dest!: delegate_dom [where a = a])

lemma apply_undelegate_dom:
  "apply_undelegate args from k s params epoch = (k', s', r) \<Longrightarrow>
     bt_get (validators s') a = None \<longleftrightarrow> bt_get (validators s) a = None"
  by (auto simp: apply_undelegate_def Let_def split: result.splits if_splits prod.splits
      dest!: undelegate_dom [where a = a])

lemma apply_withdraw_dom:
  "apply_withdraw args from k s epoch = (k', s', r) \<Longrightarrow> validators s' = validators s"
  by (auto simp: apply_withdraw_def split: list.splits result.splits if_splits prod.splits
      dest!: withdraw_dom)

lemma apply_register_dom:
  "apply_register args from k s params = (k', s', r) \<Longrightarrow> bt_get (validators s') a = None
     \<Longrightarrow> bt_get (validators s) a = None"
  using apply_register_fail [of args "from" k s params k' s' r] apply_register_Ok [of args "from" k s params k' s']
  by (cases r) (auto simp: bt_get_insert split: if_splits)

definition lost_bond :: "staking_state \<Rightarrow> staking_state \<Rightarrow> string \<Rightarrow> nat" where
  "lost_bond s s' a =
     (if bt_get (validators s') a = None \<and> bt_get (validators s) a \<noteq> None then self_bond s a else 0)"

lemma dispatch_sound:
  assumes inv: "tx_inv k s" and fits: "wealth k s < 2 ^ 64"
    and run: "dispatch action args from k s params epoch = (k', s', r)"
  shows "sound_outcome k s (lost_bond s s' from) k' s' r"
proof -
  consider (a) "apply_delegate args from k s = (k', s', r)"
    | (b) "apply_undelegate args from k s params epoch = (k', s', r)"
    | (c) "apply_withdraw args from k s epoch = (k', s', r)"
    | (d) "apply_register args from k s params = (k', s', r)"
    | (e) "apply_deregister from k s = (k', s', r)"
    | (f) "(k, s, Err (UnknownAction action)) = (k', s', r)"
    using run by (auto simp: dispatch_def split: if_splits)
  then show ?thesis
  proof cases
    case a
    then show ?thesis using apply_delegate_sound [OF inv a] apply_delegate_dom [OF a, of "from"]
      by (auto simp: lost_bond_def)
  next
    case b
    then show ?thesis using apply_undelegate_sound [OF inv b] apply_undelegate_dom [OF b, of "from"]
      by (auto simp: lost_bond_def)
  next
    case c
    then show ?thesis using apply_withdraw_sound [OF inv fits c] apply_withdraw_dom [OF c]
      by (auto simp: lost_bond_def)
  next
    case d
    then show ?thesis using apply_register_sound [OF inv d] apply_register_dom [OF d, of "from"]
      by (auto simp: lost_bond_def)
  next
    case e
    have "bt_get (validators s') from = bt_get (validators s) from \<or>
        bt_get (validators s') from = None \<and> bt_get (validators s) from \<noteq> None"
      using e drop_self_delegation_facts(2) [of "s\<lparr>validators := bt_remove from (validators s)\<rparr>" s' "from"]
        tx_invD(6) [OF inv]
      by (auto simp: apply_deregister_def Let_def bt_get_remove split: option.splits if_splits)
    then show ?thesis using apply_deregister_sound [OF inv e] by (auto simp: lost_bond_def split: if_splits)
  next
    case f
    then show ?thesis using sound_refl [OF inv] by (auto simp: lost_bond_def)
  qed
qed

subsection \<open>Payloads\<close>

lemma is_whitespace_space [simp]: "is_whitespace CHR '' ''"
  by (simp add: is_whitespace_def)

lemma decimal_no_whitespace: "c \<in> set (decimal n) \<Longrightarrow> \<not> is_whitespace c"
proof (induction n rule: decimal.induct)
  case (1 n)
  have d: "\<not> is_whitespace (digit_char m)" if "m < 10" for m
    using that by (simp add: is_whitespace_def digit_char_def Let_def)
  show ?case
  proof (cases "n < 10")
    case True
    then show ?thesis using "1.prems" d by (subst (asm) decimal.simps) simp
  next
    case False
    then have "c \<in> set (decimal (n div 10)) \<or> c = digit_char (n mod 10)"
      using "1.prems" by (subst (asm) decimal.simps) auto
    then show ?thesis using "1.IH" [OF False] d [of "n mod 10"] by auto
  qed
qed

lemma trim_id:
  assumes "s \<noteq> []" "\<not> is_whitespace (hd s)" "\<not> is_whitespace (last s)"
  shows "trim s = s"
proof -
  have "dropWhile is_whitespace s = s" using assms(1,2) by (cases s) auto
  moreover have "dropWhile is_whitespace (rev s) = rev s"
    using assms(1,3) by (cases s rule: rev_cases) auto
  ultimately show ?thesis by (simp add: trim_def)
qed

lemma strip_prefix_append [simp]: "strip_prefix p (p @ s) = Some s"
  by (induction p) auto

text \<open>The printed form of a delegation is read back as its validator and amount.\<close>

lemma delegate_payload_tokens:
  assumes "val \<noteq> []" "\<forall>c \<in> set val. \<not> is_whitespace c"
  shows "strip_prefix PAYLOAD_PREFIX (trim (''stake delegate '' @ val @ '' '' @ decimal amt))
      = Some (''delegate '' @ val @ '' '' @ decimal amt)"
    and "split_whitespace (''delegate '' @ val @ '' '' @ decimal amt) = [''delegate'', val, decimal amt]"
proof -
  let ?p = "''stake delegate '' @ val @ '' '' @ decimal amt"
  have "\<not> is_whitespace (last ?p)" using decimal_no_whitespace [of "last (decimal amt)" amt] by simp
  then have "trim ?p = ?p" by (intro trim_id) (simp_all add: is_whitespace_def)
  moreover have "?p = PAYLOAD_PREFIX @ (''delegate '' @ val @ '' '' @ decimal amt)"
    by (simp add: PAYLOAD_PREFIX_def)
  ultimately show "strip_prefix PAYLOAD_PREFIX (trim ?p) = Some (''delegate '' @ val @ '' '' @ decimal amt)"
    by (metis strip_prefix_append)
  have "split_on is_whitespace (''delegate'' @ CHR '' '' # val @ CHR '' '' # decimal amt)
      = [''delegate'', val, decimal amt]"
    using assms(2) decimal_no_whitespace
    by (subst split_on_sep, simp, subst split_on_sep, simp)
      (simp add: split_on_none is_whitespace_def)
  then show "split_whitespace (''delegate '' @ val @ '' '' @ decimal amt) = [''delegate'', val, decimal amt]"
    using assms(1) by (simp add: split_whitespace_def)
qed

lemma total_stake_le_staked:
  assumes inv: "staking_inv s" and v: "bt_get (validators s) val = Some v"
  shows "total_stake v \<le> staked_total s"
proof -
  have "bonded_to s val \<le> bt_sum (\<lambda>_ d. amount d + unbonding_sum d) (delegations s)"
    unfolding bonded_to_def by (rule bt_sum_mono) simp
  then show ?thesis
    using staking_invD(4) [OF inv v] bt.total_ge [OF staking_invD(1) [OF inv] v, of "\<lambda>_ v. self_stake v"]
    by (simp add: validator_ok_def staked_total_def)
qed

lemma delegate_amounts:
  assumes "snd (delegate s dg val amt bal) = Ok ()" and "bt_get (validators s) val = Some v"
  shows "holding (fst (delegate s dg val amt bal)) dg val = holding s dg val + amt"
    and "bt_get (validators (fst (delegate s dg val amt bal))) val
      = Some (v\<lparr>total_stake := total_stake v + amt\<rparr>)"
proof -
  obtain v' d where v': "bt_get (validators s) val = Some v'"
    and d: "d = (case bt_get (delegations s) (dg, val) of None \<Rightarrow> delegation_default | Some d \<Rightarrow> d)"
    and "fst (delegate s dg val amt bal) =
      s\<lparr>validators := bt_insert val (v'\<lparr>total_stake := total_stake v' + amt\<rparr>) (validators s),
        delegations := bt_insert (dg, val) (d\<lparr>amount := amount d + amt\<rparr>) (delegations s)\<rparr>"
    using delegate_state [OF assms(1)] by metis
  then have s': "fst (delegate s dg val amt bal) =
      s\<lparr>validators := bt_insert val (v\<lparr>total_stake := total_stake v + amt\<rparr>) (validators s),
        delegations := bt_insert (dg, val) (d\<lparr>amount := amount d + amt\<rparr>) (delegations s)\<rparr>"
    using assms(2) by simp
  show "holding (fst (delegate s dg val amt bal)) dg val = holding s dg val + amt"
    using d unfolding s'
    by (auto simp: holding_def bt_get_insert delegation_default_def unbonding_sum_def split: option.splits)
  show "bt_get (validators (fst (delegate s dg val amt bal))) val
      = Some (v\<lparr>total_stake := total_stake v + amt\<rparr>)"
    unfolding s' by (simp add: bt_get_insert)
qed

lemma apply_delegate_Ok:
  assumes inv: "tx_inv k s" and fits: "wealth k s < 2 ^ 64" and v: "bt_get (validators s) val = Some v"
    and amt: "0 < amt" "amt \<le> read_balance k from" and free: "\<not> jailed v"
    and args: "validator_and_amount args = Ok (val, amt)"
  shows "\<exists>s'. delegate s from val amt (\<lambda>_. read_balance k from) = (s', Ok ()) \<and>
    apply_delegate args from k s =
      (k\<lparr>balances := bt_insert from (read_balance k from - amt) (balances k)\<rparr>, s', Ok GAS_DELEGATE)"
proof -
  note I = tx_invD [OF inv]
  have b: "read_balance k from \<le> total_supply (balances k)"
    using balance_le_supply [OF I(4)] by (simp add: read_balance_eq)
  have t: "total_stake v + amt < 2 ^ 128"
    using total_stake_le_staked [OF I(1) v] b amt(2) fits by (simp add: wealth_def)
  have "(case bt_get (delegations s) (from, val) of None \<Rightarrow> 0 | Some d \<Rightarrow> amount d) \<le> total_stake v"
    using bonded_to_get [OF I(6), of "from" val] staking_invD(4) [OF I(1) v]
    by (auto simp: validator_ok_def split: option.splits intro: le_trans)
  then have "snd (delegate s from val amt (\<lambda>_. read_balance k from)) = Ok ()"
    unfolding delegate_Ok using v amt free t by auto
  then obtain s' where d: "delegate s from val amt (\<lambda>_. read_balance k from) = (s', Ok ())"
    by (metis prod.collapse)
  moreover have "read_balance k from - amt < 2 ^ 64" using read_balance_bound [OF I(3), of "from"] by linarith
  ultimately show ?thesis
    using args amt
    by (simp add: apply_delegate_def Let_def debit_balance_def checked_sub_def try_from_def)
qed

lemma handler_gas:
  "apply_delegate args from k s = (k', s', Ok gas) \<Longrightarrow> gas = GAS_DELEGATE"
  "apply_undelegate args from k s params epoch = (k', s', Ok gas) \<Longrightarrow> gas = GAS_UNDELEGATE"
  "apply_withdraw args from k s epoch = (k', s', Ok gas) \<Longrightarrow> gas = GAS_WITHDRAW"
  "apply_register args from k s params = (k', s', Ok gas) \<Longrightarrow> gas = GAS_REGISTER"
  "apply_deregister from k s = (k', s', Ok gas) \<Longrightarrow> gas = GAS_DEREGISTER"
  subgoal by (auto simp: apply_delegate_def Let_def split: if_splits result.splits prod.splits)
  subgoal by (auto simp: apply_undelegate_def split: result.splits prod.splits)
  subgoal by (auto simp: apply_withdraw_def split: if_splits result.splits prod.splits list.splits)
  subgoal by (auto simp: apply_register_def Let_def split: if_splits result.splits list.splits option.splits)
  subgoal by (auto simp: apply_deregister_def Let_def split: if_splits option.splits)
  done

lemma dispatch_gas:
  assumes "dispatch action args from k s params epoch = (k', s', Ok gas)"
  shows "gas = gas_for_action action"
  using assms handler_gas unfolding dispatch_def gas_for_action_def by (simp split: if_splits) blast+

text \<open>A withdrawal of nothing leaves every holding as it was.\<close>

lemma withdraw_nothing:
  assumes inv: "staking_inv s" and run: "withdraw s dg val ep = (s', Ok 0)"
  shows "holding s' a b = holding s a b"
proof (cases rule: withdraw_cases [of s dg val ep])
  case (Drop d w)
  then have "unbonding_sum d = 0"
    using withdraw_loop_sum [OF Drop(3)] run by (simp add: unbonding_sum_def)
  then show ?thesis using Drop run by (auto simp: holding_def bt_get_remove)
next
  case (Keep d w r)
  then have "(\<Sum>e\<leftarrow>r. ub_amount e) = unbonding_sum d"
    using withdraw_loop_sum [OF Keep(2)] run by (simp add: unbonding_sum_def)
  then show ?thesis
    using Keep run by (auto simp: holding_def bt_get_insert unbonding_sum_def simp del: sum_list_eq_0_iff)
qed (use run in simp_all)

definition same_value :: "'vm kv_state \<Rightarrow> staking_state \<Rightarrow> 'vm kv_state \<Rightarrow> staking_state \<Rightarrow> bool" where
  "same_value k s k' s' \<longleftrightarrow>
     k' = k \<and> validators s' = validators s \<and> (\<forall>a b. holding s' a b = holding s a b)"

lemma same_value_refl [simp]: "same_value k s k s"
  by (simp add: same_value_def)

lemma apply_delegate_fail:
  assumes inv: "tx_inv k s" and run: "apply_delegate args from k s = (k', s', Err e)"
  shows "same_value k s k' s'"
proof -
  have le: "read_balance k from - amt < 2 ^ 64" for amt
    using read_balance_bound [OF tx_invD(3) [OF inv], of "from"] by linarith
  have atomic: "s1 = s" if "delegate s dg val amt bal = (s1, Err e1)" for dg val amt bal s1 e1
    using delegate_atomic [of s dg val amt bal] that by simp
  show ?thesis
    using run le
    by (auto simp: apply_delegate_def Let_def debit_balance_def checked_sub_def try_from_def not_less
        split: result.splits if_splits prod.splits option.splits dest!: atomic)
qed

lemma apply_undelegate_fail:
  assumes inv: "tx_inv k s" and run: "apply_undelegate args from k s params epoch = (k', s', Err e)"
  shows "same_value k s k' s'"
proof -
  have atomic: "s1 = s" if "undelegate s dg val amt ep ue = (s1, Err e1)" for dg val amt ep ue s1 e1
    using tx_invD(1) [OF inv] by (cases rule: undelegate_cases [of s dg val amt ep ue]) (use that in auto)
  show ?thesis
    using run by (auto simp: apply_undelegate_def split: result.splits prod.splits dest!: atomic)
qed

lemma apply_withdraw_fail:
  assumes inv: "tx_inv k s" and fits: "wealth k s < 2 ^ 64"
    and run: "apply_withdraw args from k s epoch = (k', s', Err e)"
  shows "same_value k s k' s'"
proof (cases args)
  case Nil
  then show ?thesis using run by (simp add: apply_withdraw_def)
next
  case (Cons val rest)
  note I = tx_invD [OF inv]
  have tot: "staked_total s < 2 ^ 128" using fits by (simp add: wealth_def)
  obtain s1 w where w: "withdraw s from val epoch = (s1, w)" by fastforce
  show ?thesis
  proof (cases w)
    case (Ok x)
    have "read_balance k from + x < 2 ^ 64"
      using withdraw_flow [OF I(1), of "from" val epoch x] w Ok fits balance_le_supply [OF I(4), of "from"]
      by (simp add: wealth_def read_balance_eq)
    then have "x = 0 \<and> s' = s1 \<and> k' = k"
      using run Cons w Ok
      by (auto simp: apply_withdraw_def credit_balance_def checked_add_def try_from_def split: if_splits)
    then show ?thesis
      using withdraw_nothing [OF I(1), of "from" val epoch s1] withdraw_dom [OF w] w Ok
      by (simp add: same_value_def)
  next
    case (Err e1)
    have "s1 = s"
    proof (cases rule: withdraw_cases [of s "from" val epoch])
      case (Lost d)
      then show ?thesis using withdraw_loop_fits [OF I(6) tot Lost(1), of epoch] by simp
    qed (use w Err in simp_all)
    then show ?thesis using run Cons w Err by (simp add: apply_withdraw_def)
  next
    case Panic
    then show ?thesis using withdraw_never_panics [of s "from" val epoch] w by simp
  qed
qed

lemma dispatch_fail:
  assumes inv: "tx_inv k s" and fits: "wealth k s < 2 ^ 64"
    and run: "dispatch action args from k s params epoch = (k', s', Err e)"
  shows "same_value k s k' s'"
proof -
  have "same_value k s k' s'" if "apply_register args from k s params = (k', s', Err e)"
    using apply_register_fail [OF that] by simp
  moreover have "same_value k s k' s'" if "apply_deregister from k s = (k', s', Err e)"
    using that by (auto simp: apply_deregister_def Let_def split: option.splits if_splits)
  ultimately show ?thesis
    using run apply_delegate_fail [OF inv] apply_undelegate_fail [OF inv] apply_withdraw_fail [OF inv fits]
    by (auto simp: dispatch_def split: if_splits)
qed

text \<open>C8: Staking transactions conserve tokens. In a well-formed state whose total wealth (balances,
  self stakes, delegations, unbonding entries) fits 64 bits, every payload from every sender, valid
  or not, is processed without a panic, keeps the state well-formed and keeps the total wealth, with
  one exception: when a deregistration removes the sender's validator, the tokens the operator had
  also delegated to it are gone.\<close>

theorem staking_tx_conserves:
  assumes "tx_inv k s" and "wealth k s < 2 ^ 64"
    and "try_apply_staking_tx payload from k s params epoch = (k', s', r)"
  shows "r \<noteq> Panic \<and> tx_inv k' s' \<and> wealth k' s' + lost_bond s s' from = wealth k s"
proof -
  have same: "(k', s') = (k, s) \<Longrightarrow> r \<noteq> Panic \<Longrightarrow> ?thesis" using assms(1) by (auto simp: lost_bond_def)
  show ?thesis
  proof (cases "strip_prefix PAYLOAD_PREFIX (trim payload)")
    case None
    then show ?thesis using same assms(3) by (auto simp: try_apply_staking_tx_def)
  next
    case (Some rest)
    show ?thesis
    proof (cases "from = []")
      case True
      then show ?thesis using same assms(3) Some by (auto simp: try_apply_staking_tx_def)
    next
      case False
      then obtain action args r' where d: "dispatch action args from k s params epoch = (k', s', r')"
        and r: "r = Panic \<longrightarrow> r' = Panic"
        using assms(3) Some by (fastforce simp: try_apply_staking_tx_def Let_def split: result.splits prod.splits)
      then show ?thesis
        using dispatch_sound [OF assms(1,2) d] by (auto simp: sound_outcome_def)
    qed
  qed
qed

text \<open>A state for the witnesses: validator \<open>v\<close> of the staking example, with account balances.\<close>

definition demo_kv :: "unit kv_state" where
  "demo_kv = \<lparr>kv = [], balances = [(''d'', 1000), (''v'', 20)], nonces = [], burned = 0, vm = ()\<rparr>"

lemma demo_tx [simp]: "tx_inv demo_kv demo_state" "wealth demo_kv demo_state = 1170"
proof -
  show "tx_inv demo_kv demo_state"
    unfolding tx_inv_def by (simp add: no_orphans_def balances_ok_def demo_kv_def) (simp add: demo_state_def)
  show "wealth demo_kv demo_state = 1170" by (simp add: wealth_def total_supply_def demo_kv_def)
qed

theorem staking_tx_conserves_witness:
  "\<exists>k' s' r. try_apply_staking_tx ''  stake  undelegate v 20 '' ''d'' demo_kv demo_state economics_default 3
     = (k', s', r) \<and> r \<noteq> Panic \<and> tx_inv k' s' \<and> wealth k' s' + lost_bond demo_state s' ''d'' = 1170"
proof -
  obtain k' s' r where run: "try_apply_staking_tx ''  stake  undelegate v 20 '' ''d'' demo_kv demo_state
    economics_default 3 = (k', s', r)" by (metis prod_cases3)
  then show ?thesis using staking_tx_conserves [OF demo_tx(1) _ run] by auto
qed

text \<open>C20: A delegation transaction does what it says, end to end: the payload \<open>stake delegate <val> <amount>\<close>
  from a sender who has the amount, to an existing validator that is not jailed, succeeds with the
  delegation gas; the sender's balance falls and their delegation and the validator's voting power
  grow by exactly the printed amount.\<close>

theorem delegate_tx_end_to_end:
  assumes "tx_inv k s" and "wealth k s < 2 ^ 64" and "from \<noteq> []"
    and "val \<noteq> []" and "\<forall>c \<in> set val. \<not> is_whitespace c"
    and "0 < amt" and "amt \<le> read_balance k from"
    and "bt_get (validators s) val = Some v" and "\<not> jailed v"
  shows "\<exists>k' s'. try_apply_staking_tx (''stake delegate '' @ val @ '' '' @ decimal amt) from k s params epoch
      = (k', s', Ok (Some (tx_ok 26000))) \<and>
    read_balance k' from = read_balance k from - amt \<and>
    holding s' from val = holding s from val + amt \<and>
    bt_get (validators s') val = Some (v\<lparr>total_stake := total_stake v + amt\<rparr>)"
proof -
  have "amt < 2 ^ 128"
    using assms(7) read_balance_bound [OF tx_invD(3) [OF assms(1)], of "from"] by simp
  then have a: "validator_and_amount [val, decimal amt] = Ok (val, amt)"
    using assms(6) parse_decimal [of amt 128] by (simp add: validator_and_amount_def parse_u128_def)
  obtain s' where d: "delegate s from val amt (\<lambda>_. read_balance k from) = (s', Ok ())"
    and app: "apply_delegate [val, decimal amt] from k s =
      (k\<lparr>balances := bt_insert from (read_balance k from - amt) (balances k)\<rparr>, s', Ok GAS_DELEGATE)"
    using apply_delegate_Ok [OF assms(1,2,8,6,7,9) a] by blast
  have "try_apply_staking_tx (''stake delegate '' @ val @ '' '' @ decimal amt) from k s params epoch =
      (k\<lparr>balances := bt_insert from (read_balance k from - amt) (balances k)\<rparr>, s',
       Ok (Some (tx_ok GAS_DELEGATE)))"
    unfolding try_apply_staking_tx_def delegate_payload_tokens(1) [OF assms(4,5)] option.case
      delegate_payload_tokens(2) [OF assms(4,5)] Let_def list.case
    using assms(3) app by (simp add: dispatch_def)
  then show ?thesis
    using delegate_amounts [of s "from" val amt "\<lambda>_. read_balance k from" v] d assms(8)
    by (simp add: read_balance_eq GAS_DELEGATE_def GAS_BASE_def)
qed

theorem delegate_tx_end_to_end_witness:
  "\<exists>k' s'. try_apply_staking_tx (''stake delegate '' @ ''v'' @ '' '' @ decimal 300) ''d'' demo_kv demo_state
      economics_default 3 = (k', s', Ok (Some (tx_ok 26000))) \<and> read_balance k' ''d'' = 700"
proof -
  have "read_balance demo_kv ''d'' = 1000" by (simp add: read_balance_def demo_kv_def)
  moreover have "\<exists>v. bt_get (validators demo_state) ''v'' = Some v \<and> \<not> jailed v" by (simp add: demo_state_def)
  ultimately show ?thesis
    using delegate_tx_end_to_end [OF demo_tx(1), of "''d''" "''v''" 300 _ economics_default 3]
    by (auto simp: is_whitespace_def)
qed

text \<open>Gas is charged for the action named in the payload, whether or not it succeeds, and for every
  staking payload: the result's gas is the table entry of the first token.\<close>

theorem staking_tx_gas:
  assumes "strip_prefix PAYLOAD_PREFIX (trim payload) = Some rest" and "from \<noteq> []"
    and "try_apply_staking_tx payload from k s params epoch = (k', s', Ok res)"
  shows "\<exists>x. res = Some x \<and>
    gas_used x = gas_for_action (case split_whitespace rest of [] \<Rightarrow> [] | t # _ \<Rightarrow> t)"
  using assms dispatch_gas
  by (fastforce simp: try_apply_staking_tx_def Let_def tx_ok_def tx_err_def split: result.splits prod.splits)

theorem staking_tx_gas_witness:
  "\<exists>k' s' x. try_apply_staking_tx ''stake register 70000'' ''d'' demo_kv demo_state economics_default 0
     = (k', s', Ok (Some x)) \<and> \<not> success x \<and> gas_used x = 31000"
proof -
  obtain k' s' x where run: "try_apply_staking_tx ''stake register 70000'' ''d'' demo_kv demo_state
      economics_default 0 = (k', s', Ok (Some x))" and f: "\<not> success x"
    by (simp add: try_apply_staking_tx_def PAYLOAD_PREFIX_def trim_def is_whitespace_def split_whitespace_def
        dispatch_def apply_register_def parse_u64_def parse_unsigned_def to_digit_def checked_defs MAX_BPS_def
        tx_err_def)
  have "strip_prefix PAYLOAD_PREFIX (trim ''stake register 70000'') = Some ''register 70000''"
    by (simp add: PAYLOAD_PREFIX_def trim_def is_whitespace_def)
  from staking_tx_gas [OF this _ run] show ?thesis
    using run f by (simp add: split_whitespace_def is_whitespace_def gas_for_action_def gas_table_defs)
qed

text \<open>C25: A rejected staking transaction moves no value: whatever the payload, if the result is not a
  success the accounts and the validators are untouched and every delegator holds with every
  validator what they held before.\<close>

theorem staking_tx_failure:
  assumes "tx_inv k s" and "wealth k s < 2 ^ 64"
    and "try_apply_staking_tx payload from k s params epoch = (k', s', Ok (Some x))" and "\<not> success x"
  shows "k' = k \<and> validators s' = validators s \<and> (\<forall>a b. holding s' a b = holding s a b)"
proof -
  have "same_value k s k' s'"
    using assms(3,4) dispatch_fail [OF assms(1,2)]
    by (auto simp: try_apply_staking_tx_def Let_def tx_ok_def
        split: option.splits if_splits result.splits prod.splits)
  then show ?thesis by (simp add: same_value_def)
qed

theorem staking_tx_failure_witness:
  "\<exists>k' s' x. try_apply_staking_tx ''stake withdraw v'' ''d'' demo_kv demo_state economics_default 0
     = (k', s', Ok (Some x)) \<and> \<not> success x \<and> k' = demo_kv"
proof -
  obtain k' s' x where run: "try_apply_staking_tx ''stake withdraw v'' ''d'' demo_kv demo_state
      economics_default 0 = (k', s', Ok (Some x))" and f: "\<not> success x"
    by (simp add: try_apply_staking_tx_def PAYLOAD_PREFIX_def trim_def is_whitespace_def split_whitespace_def
        dispatch_def apply_withdraw_def demo_eval tx_err_def)
  then show ?thesis using staking_tx_failure [OF demo_tx(1) _ run f] by simp
qed

text \<open>C32: Deregistration pays back the self stake only. A validator without external delegations can
  always deregister and gets its self stake credited, but whatever its operator had delegated to it
  (its self-delegation) is erased without being credited to anyone.\<close>

theorem deregister_tx_burns_self_delegation:
  assumes inv: "tx_inv k s" and fits: "wealth k s < 2 ^ 64" and "from \<noteq> []"
    and v: "bt_get (validators s) from = Some v" and ext: "external_delegations s from = 0"
  shows "\<exists>k' s'. try_apply_staking_tx ''stake deregister'' from k s params epoch
      = (k', s', Ok (Some (tx_ok 21000))) \<and>
    read_balance k' from = read_balance k from + self_stake v \<and>
    bt_get (validators s') from = None \<and> self_bond s' from = 0 \<and>
    wealth k' s' + self_bond s from = wealth k s"
proof -
  note I = tx_invD [OF inv]
  let ?b = "read_balance k from"
  let ?s1 = "s\<lparr>validators := bt_remove from (validators s)\<rparr>"
  let ?s' = "drop_self_delegation ?s1 from"
  have "self_stake v \<le> staked_total s"
    using bt.total_ge [OF I(5) v, of "\<lambda>_ v. self_stake v"] by (simp add: staked_total_def)
  then have b: "?b + self_stake v < 2 ^ 64"
    using fits balance_le_supply [OF I(4), of "from"] by (simp add: wealth_def read_balance_eq)
  then have "dispatch ''deregister'' [] from k s params epoch =
      (k\<lparr>balances := bt_insert from (?b + self_stake v) (balances k)\<rparr>, ?s', Ok GAS_DEREGISTER)"
    using v ext by (simp add: dispatch_def apply_deregister_def checked_add_def try_from_def)
  moreover have "strip_prefix PAYLOAD_PREFIX (trim ''stake deregister'') = Some ''deregister''"
    "split_whitespace ''deregister'' = [''deregister'']"
    by (simp_all add: PAYLOAD_PREFIX_def trim_def split_whitespace_def is_whitespace_def)
  ultimately have "try_apply_staking_tx ''stake deregister'' from k s params epoch =
      (k\<lparr>balances := bt_insert from (?b + self_stake v) (balances k)\<rparr>, ?s', Ok (Some (tx_ok 21000)))"
    using assms(3) by (simp add: try_apply_staking_tx_def gas_table_defs)
  moreover have "bt_get (validators ?s') from = None"
    using drop_self_delegation_facts(2) [of ?s1 ?s' "from"] I(6) by (simp add: bt_get_remove)
  moreover have "self_bond ?s' from = 0"
    by (auto simp: self_bond_def drop_self_delegation_def bt_get_remove bt_get_insert split: option.splits)
  ultimately show ?thesis
    using deregister_inv(3) [OF inv v ext refl] set_balance_wealth [OF I(3), of "from" "?b + self_stake v"]
    by (simp add: wealth_def) (simp add: read_balance_eq)
qed

definition demo_self :: staking_state where
  "demo_self =
     \<lparr>validators = [(''v'', \<lparr>operator = ''v'', self_stake = 100, total_stake = 150, jailed = False,
        commission_bps = 500\<rparr>)],
      delegations = [((''v'', ''v''), \<lparr>amount = 50, unbondings = []\<rparr>)],
      next_unbonding_id = 0\<rparr>"

lemma demo_self_inv [simp]: "tx_inv demo_kv demo_self" "wealth demo_kv demo_self = 1170"
  by (simp_all add: tx_inv_def no_orphans_def balances_ok_def demo_kv_def demo_self_def staking_inv_def
      validator_ok_def bonded_to_def unbonding_ids_ok_def wealth_def total_supply_def staked_total_def
      unbonding_sum_def)

theorem deregister_tx_burns_self_delegation_witness:
  "\<exists>k' s'. try_apply_staking_tx ''stake deregister'' ''v'' demo_kv demo_self economics_default 0
      = (k', s', Ok (Some (tx_ok 21000))) \<and> wealth demo_kv demo_self = 1170 \<and> wealth k' s' = 1120"
  using deregister_tx_burns_self_delegation [OF demo_self_inv(1), of "''v''" _ economics_default 0]
  by (auto simp: demo_self_inv(2))
    (simp add: demo_self_def self_bond_def external_delegations_def saturating_add_def, blast)

end
