(* ===== verification/Bytes.thy ===== *)
theory Bytes
  imports Iona_Prelude "HOL-Library.Word"
begin

text \<open>
  Bytes and the fixed-width encodings the sources use: \<open>to_le_bytes\<close> of the integer types, the bytes of
  a string literal, and lower-case hexadecimal. The function \<open>hex::encode\<close> belongs to the third-party
  crate \<open>hex\<close>; definitions that call it take it as an argument, with injectivity as the hypothesis,
  and \<open>hex_lower\<close> is an instance.
\<close>

type_synonym byte = "8 word"

subsection \<open>Bytes of an integer\<close>

fun to_le_bytes :: "nat \<Rightarrow> nat \<Rightarrow> byte list" where
  "to_le_bytes 0 n = []"
| "to_le_bytes (Suc len) n = of_nat (n mod 256) # to_le_bytes len (n div 256)"

lemma to_le_bytes_inj:
  "m < 256 ^ len \<Longrightarrow> n < 256 ^ len \<Longrightarrow> to_le_bytes len m = to_le_bytes len n \<Longrightarrow> m = n"
proof (induction len arbitrary: m n)
  case (Suc len)
  have "(of_nat (m mod 256) :: byte) = of_nat (n mod 256)" using Suc.prems(3) by simp
  then have "unat (of_nat (m mod 256) :: byte) = unat (of_nat (n mod 256) :: byte)" by simp
  then have "m mod 256 = n mod 256" by (simp add: unat_of_nat)
  moreover have "m div 256 = n div 256" using Suc by (simp add: less_mult_imp_div_less)
  ultimately show ?case by (metis div_mult_mod_eq)
qed simp

lemma to_le_bytes_length [simp]: "length (to_le_bytes len n) = len"
  by (induction len arbitrary: n) auto

lemma le_bytes_eq_iff:
  assumes "m < 256 ^ len" "n < 256 ^ len"
  shows "to_le_bytes len m = to_le_bytes len n \<longleftrightarrow> m = n"
  using to_le_bytes_inj [OF assms] by auto

definition str_bytes :: "string \<Rightarrow> byte list" where
  \<comment> \<open>a byte-string literal \<open>b"..."\<close>\<close>
  "str_bytes s = map (\<lambda>c. of_nat (of_char c)) s"

subsection \<open>Hexadecimal\<close>

definition hex_digit :: "nat \<Rightarrow> char" where
  "hex_digit d = char_of (if d < 10 then 48 + d else 87 + d)"

fun hex_lower :: "byte list \<Rightarrow> string" where
  "hex_lower [] = []"
| "hex_lower (b # bs) = hex_digit (unat b div 16) # hex_digit (unat b mod 16) # hex_lower bs"

lemma hex_digit_of: "d < 16 \<Longrightarrow> of_char (hex_digit d) = (if d < 10 then 48 + d else 87 + d :: nat)"
  unfolding hex_digit_def of_char_of by (rule mod_less) (cases "d < 10"; simp)

lemma hex_digit_inj:
  assumes "d < 16" "e < 16" "hex_digit d = hex_digit e"
  shows "d = e"
proof -
  have "(if d < 10 then 48 + d else 87 + d) = (if e < 10 then 48 + e else 87 + e)"
    unfolding hex_digit_of [OF assms(1), symmetric] hex_digit_of [OF assms(2), symmetric] assms(3) ..
  then show ?thesis by (auto split: if_splits)
qed

lemma unat_byte_less: "unat (b :: byte) < 256"
  by (rule order_less_le_trans [OF unsigned_less]) simp

lemma hex_lower_inj_iff: "hex_lower xs = hex_lower ys \<longleftrightarrow> xs = ys"
proof (induction xs arbitrary: ys)
  case Nil
  then show ?case by (cases ys) auto
next
  case (Cons x xs)
  show ?case
  proof (cases ys)
    case (Cons y ys')
    have "unat x div 16 < 16" "unat y div 16 < 16" using unat_byte_less [of x] unat_byte_less [of y] by auto
    moreover have "unat x mod 16 < 16" "unat y mod 16 < 16" by simp_all
    moreover have "x = y" if "unat x div 16 = unat y div 16" "unat x mod 16 = unat y mod 16"
      using that by (metis div_mult_mod_eq word_unat_eq_iff)
    ultimately show ?thesis using Cons Cons.IH [of ys'] hex_digit_inj by auto
  qed simp
qed

lemma hex_lower_inj: "inj hex_lower"
  by (simp add: inj_on_def hex_lower_inj_iff)

lemma hex_lower_length: "length (hex_lower xs) = 2 * length xs"
  by (induction xs) auto

lemma hex_lower_no_colon: "CHR '':'' \<notin> set (hex_lower x)"
proof (induction x)
  case (Cons b bs)
  have n: "CHR '':'' \<noteq> hex_digit d" if "d < 16" for d
  proof
    assume *: "CHR '':'' = hex_digit d"
    have "(of_char (hex_digit d) :: nat) = 58" unfolding * [symmetric] by simp
    then show False using hex_digit_of [OF that] by (auto split: if_splits)
  qed
  have "unat b div 16 < 16" "unat b mod 16 < 16" using unat_byte_less [of b] by auto
  note this [THEN n]
  then show ?case using Cons.IH by simp
qed simp

subsection \<open>Length-prefixed encodings\<close>

definition as_bytes :: "nat \<Rightarrow> nat \<Rightarrow> byte list" where
  \<comment> \<open>\<open>(n as uN).to_le_bytes()\<close>: the low bytes, the rest is cut off\<close>
  "as_bytes len n = to_le_bytes len (n mod 256 ^ len)"

lemma as_bytes_length [simp]: "length (as_bytes len n) = len"
  by (simp add: as_bytes_def)

lemma as_bytes_eq_iff: "m < 256 ^ len \<Longrightarrow> n < 256 ^ len \<Longrightarrow> as_bytes len m = as_bytes len n \<longleftrightarrow> m = n"
  by (simp add: as_bytes_def le_bytes_eq_iff)

lemma str_bytes_length [simp]: "length (str_bytes s) = length s"
  by (simp add: str_bytes_def)

lemma str_bytes_eq_iff [simp]: "str_bytes s = str_bytes t \<longleftrightarrow> s = t"
proof -
  have "(of_nat (of_char c) :: byte) = of_nat (of_char d) \<longleftrightarrow> c = d" for c d :: char
  proof
    assume "(of_nat (of_char c) :: byte) = of_nat (of_char d)"
    then have "unat (of_nat (of_char c) :: byte) = unat (of_nat (of_char d) :: byte)" by simp
    then have "of_char c mod (256 :: nat) = of_char d mod 256" by (simp add: unat_of_nat)
    then show "c = d" by (simp add: of_char_mod_256)
  qed simp
  then show ?thesis unfolding str_bytes_def by (intro inj_map_eq_map inj_onI) blast
qed

text \<open>A field of fixed length, and a field with its length in front, can be taken off both sides.\<close>

lemma take_off_field: "length x = length y \<Longrightarrow> x @ r = y @ r' \<longleftrightarrow> x = y \<and> r = r'"
  by simp

lemma take_off_word:
  assumes "m < 256 ^ len" "n < 256 ^ len"
  shows "to_le_bytes len m @ r = to_le_bytes len n @ r' \<longleftrightarrow> m = n \<and> r = r'"
  using le_bytes_eq_iff [OF assms] by simp

lemma take_off_prefixed:
  assumes "length x < 256 ^ len" "length y < 256 ^ len"
  shows "as_bytes len (length x) @ x @ r = as_bytes len (length y) @ y @ r' \<longleftrightarrow> x = y \<and> r = r'"
  using as_bytes_eq_iff [OF assms] by (auto simp: append_eq_append_conv)

lemma take_off_u64: "m < 2 ^ 64 \<Longrightarrow> n < 2 ^ 64 \<Longrightarrow> to_le_bytes 8 m @ r = to_le_bytes 8 n @ r' \<longleftrightarrow> m = n \<and> r = r'"
  by (rule take_off_word) simp_all

lemma take_off_u32: "m < 2 ^ 32 \<Longrightarrow> n < 2 ^ 32 \<Longrightarrow> to_le_bytes 4 m @ r = to_le_bytes 4 n @ r' \<longleftrightarrow> m = n \<and> r = r'"
  by (rule take_off_word) simp_all

lemma u32_bytes_eq_iff: "m < 2 ^ 32 \<Longrightarrow> n < 2 ^ 32 \<Longrightarrow> to_le_bytes 4 m = to_le_bytes 4 n \<longleftrightarrow> m = n"
  by (rule le_bytes_eq_iff) simp_all

lemma take_off_u16_prefixed:
  "length x < 2 ^ 16 \<Longrightarrow> length y < 2 ^ 16 \<Longrightarrow>
    as_bytes 2 (length x) @ x @ r = as_bytes 2 (length y) @ y @ r' \<longleftrightarrow> x = y \<and> r = r'"
  by (rule take_off_prefixed) simp_all

lemma take_off_u16_string:
  assumes "length s < 2 ^ 16" "length t < 2 ^ 16"
  shows "as_bytes 2 (length s) @ str_bytes s @ r = as_bytes 2 (length t) @ str_bytes t @ r' \<longleftrightarrow> s = t \<and> r = r'"
  using take_off_prefixed [of "str_bytes s" 2 "str_bytes t" r r'] assms by simp

lemma u32_string_eq_iff:
  assumes "length s < 2 ^ 32" "length t < 2 ^ 32"
  shows "as_bytes 4 (length s) @ str_bytes s = as_bytes 4 (length t) @ str_bytes t \<longleftrightarrow> s = t"
  using take_off_prefixed [of "str_bytes s" 4 "str_bytes t" "[]" "[]"] assms by simp

end
