(* ===== verification/Vm_Memory.thy ===== *)
theory Vm_Memory
  imports Bytes
begin

text \<open>
  The byte-addressed memory of the virtual machine, \<open>Memory\<close> of \<open>src/vm/state.rs\<close>. The locale
  \<open>flat_memory\<close> is what the interpreter relies on: a write changes exactly the bytes it covers.
  Its lemmas give reading back, framing and commutation of disjoint writes once; \<open>Memory\<close> is its
  instance \<open>fm\<close>, where the bytes past the end read as zero.
\<close>

subsection \<open>The interface\<close>

locale flat_memory =
  fixes ok :: "'m \<Rightarrow> bool"
    and pk :: "'m \<Rightarrow> nat \<Rightarrow> 'b"
    and wr :: "'m \<Rightarrow> nat \<Rightarrow> 'b list \<Rightarrow> 'm option"
  assumes ok_wr: "ok m \<Longrightarrow> wr m off bs = Some m' \<Longrightarrow> ok m'"
    and pk_wr: "ok m \<Longrightarrow> wr m off bs = Some m' \<Longrightarrow>
      pk m' i = (if off \<le> i \<and> i < off + length bs then bs ! (i - off) else pk m i)"
begin

lemma read_back:
  assumes "ok m" "wr m off bs = Some m'"
  shows "map (pk m') [off..<off + length bs] = bs"
  by (rule nth_equalityI) (simp_all add: pk_wr [OF assms])

lemma frame:
  assumes "ok m" "wr m off bs = Some m'" and "o' + n \<le> off \<or> off + length bs \<le> o'"
  shows "map (pk m') [o'..<o' + n] = map (pk m) [o'..<o' + n]"
  using assms(3) by (auto simp: pk_wr [OF assms(1,2)])

lemma disjoint_commute:
  assumes "ok m" "wr m o1 b1 = Some m1" "wr m1 o2 b2 = Some m12"
    and "wr m o2 b2 = Some m2" "wr m2 o1 b1 = Some m21"
    and "o1 + length b1 \<le> o2 \<or> o2 + length b2 \<le> o1"
  shows "pk m12 i = pk m21 i"
  using assms(6)
  by (auto simp: pk_wr [OF assms(1,2)] pk_wr [OF ok_wr [OF assms(1,2)] assms(3)]
      pk_wr [OF assms(1,4)] pk_wr [OF ok_wr [OF assms(1,4)] assms(5)])

lemma overwrite:
  assumes "ok m" "wr m off b1 = Some m1" "wr m1 off b2 = Some m2" "length b1 = length b2"
  shows "pk m2 i = (if off \<le> i \<and> i < off + length b2 then b2 ! (i - off) else pk m i)"
  using assms(4) by (simp add: pk_wr [OF assms(1,2)] pk_wr [OF ok_wr [OF assms(1,2)] assms(3)])

end

subsection \<open>Memory\<close>

record memory =
  data :: "byte list"
  max_size :: usize

datatype memory_error =
    MemoryLimit usize
  | MemoryOffsetOverflow usize usize

definition memory_new :: memory where
  "memory_new = \<lparr>data = [], max_size = 4 * 1024 * 1024\<rparr>"

definition with_max_size :: "usize \<Rightarrow> memory" where
  "with_max_size n = \<lparr>data = [], max_size = n\<rparr>"

definition mem_size :: "memory \<Rightarrow> usize" where
  "mem_size m = length (data m)"

definition mem_words :: "memory \<Rightarrow> usize" where
  "mem_words m = (mem_size m + 31) div 32"

text \<open>\<open>Vec::resize\<close> panics above \<open>isize::MAX\<close> bytes.\<close>

definition grow_to :: "memory \<Rightarrow> usize \<Rightarrow> memory \<times> (memory_error, u64) result" where
  "grow_to m new_size =
     (if max_size m < new_size then (m, Err (MemoryLimit new_size))
      else if new_size \<le> length (data m) then (m, Ok 0)
      else if 2 ^ 63 \<le> new_size then (m, Panic)
      else let old_words = mem_words m;
               m' = m\<lparr>data := data m @ replicate (new_size - length (data m)) 0\<rparr>
        in (m', Ok ((mem_words m' - old_words) * 3)))"

definition ensure :: "memory \<Rightarrow> usize \<Rightarrow> usize \<Rightarrow> memory \<times> (memory_error, u64) result" where
  "ensure m offset n =
     (if n = 0 then (m, Ok 0)
      else case checked_add 64 offset n of
          None \<Rightarrow> (m, Err (MemoryOffsetOverflow offset n))
        | Some new_end \<Rightarrow> grow_to m new_end)"

definition slice_of :: "'a list \<Rightarrow> nat \<Rightarrow> nat \<Rightarrow> 'a list" where
  "slice_of xs off n = take n (drop off xs)"

definition copy_into :: "'a list \<Rightarrow> nat \<Rightarrow> 'a list \<Rightarrow> 'a list" where
  \<comment> \<open>\<open>xs[off..off + bs.len()].copy_from_slice(bs)\<close>\<close>
  "copy_into xs off bs = take off xs @ bs @ drop (off + length bs) xs"

definition load32 :: "memory \<Rightarrow> usize \<Rightarrow> memory \<times> (memory_error, byte list) result" where
  "load32 m offset =
     (case ensure m offset 32 of
        (m', Ok _) \<Rightarrow> (m', Ok (slice_of (data m') offset 32))
      | (m', Err e) \<Rightarrow> (m', Err e)
      | (m', Panic) \<Rightarrow> (m', Panic))"

definition store32 :: "memory \<Rightarrow> usize \<Rightarrow> byte list \<Rightarrow> memory \<times> (memory_error, u64) result" where
  "store32 m offset value =
     (case ensure m offset 32 of
        (m', Ok cost) \<Rightarrow> (m'\<lparr>data := copy_into (data m') offset value\<rparr>, Ok cost)
      | (m', Err e) \<Rightarrow> (m', Err e)
      | (m', Panic) \<Rightarrow> (m', Panic))"

definition store8 :: "memory \<Rightarrow> usize \<Rightarrow> byte \<Rightarrow> memory \<times> (memory_error, u64) result" where
  "store8 m offset b =
     (case ensure m offset 1 of
        (m', Ok cost) \<Rightarrow> (m'\<lparr>data := (data m')[offset := b]\<rparr>, Ok cost)
      | (m', Err e) \<Rightarrow> (m', Err e)
      | (m', Panic) \<Rightarrow> (m', Panic))"

definition read_range :: "memory \<Rightarrow> usize \<Rightarrow> usize \<Rightarrow> memory \<times> (memory_error, byte list) result" where
  "read_range m offset n =
     (if n = 0 then (m, Ok [])
      else case ensure m offset n of
          (m', Ok _) \<Rightarrow> (m', Ok (slice_of (data m') offset n))
        | (m', Err e) \<Rightarrow> (m', Err e)
        | (m', Panic) \<Rightarrow> (m', Panic))"

definition write_range :: "memory \<Rightarrow> usize \<Rightarrow> byte list \<Rightarrow> memory \<times> (memory_error, u64) result" where
  "write_range m offset bs =
     (if bs = [] then (m, Ok 0)
      else case ensure m offset (length bs) of
          (m', Ok cost) \<Rightarrow> (m'\<lparr>data := copy_into (data m') offset bs\<rparr>, Ok cost)
        | (m', Err e) \<Rightarrow> (m', Err e)
        | (m', Panic) \<Rightarrow> (m', Panic))"

definition mem_reset :: "memory \<Rightarrow> memory" where
  "mem_reset m = m\<lparr>data := []\<rparr>"

subsection \<open>Lemmas\<close>

definition peek :: "memory \<Rightarrow> nat \<Rightarrow> byte" where
  "peek m i = (if i < length (data m) then data m ! i else 0)"

definition mem_ok :: "memory \<Rightarrow> bool" where
  "mem_ok m \<longleftrightarrow> length (data m) \<le> max_size m \<and> max_size m < 2 ^ 63"

definition mem_write :: "memory \<Rightarrow> nat \<Rightarrow> byte list \<Rightarrow> memory option" where
  "mem_write m off bs = (case write_range m off bs of (m', Ok _) \<Rightarrow> Some m' | _ \<Rightarrow> None)"

lemma ensure_cases:
  assumes "mem_ok m"
  shows "ensure m off n =
    (if n = 0 \<or> off + n \<le> length (data m) then (m, Ok 0)
     else if off + n \<le> max_size m
     then (m\<lparr>data := data m @ replicate (off + n - length (data m)) 0\<rparr>,
           Ok (3 * ((off + n + 31) div 32 - mem_words m)))
     else (m, Err (if off + n < 2 ^ 64 then MemoryLimit (off + n) else MemoryOffsetOverflow off n)))"
  using assms
  by (auto simp: ensure_def grow_to_def checked_add_def mem_ok_def mem_words_def mem_size_def Let_def
      mult.commute not_less not_le)

lemma copy_into_length: "off + length bs \<le> length xs \<Longrightarrow> length (copy_into xs off bs) = length xs"
  by (simp add: copy_into_def)

lemma copy_into_nth:
  assumes "off + length bs \<le> length xs" "i < length xs"
  shows "copy_into xs off bs ! i = (if off \<le> i \<and> i < off + length bs then bs ! (i - off) else xs ! i)"
proof -
  have "length (take off xs) = off" using assms(1) by simp
  then show ?thesis
    using assms by (auto simp: copy_into_def nth_append)
qed

text \<open>A write that succeeds: the memory grows to cover it and changes in those bytes only.\<close>

lemma write_range_Ok:
  assumes ok: "mem_ok m" and w: "write_range m off bs = (m', Ok cost)"
  shows "mem_ok m'" and "max_size m' = max_size m"
    and "length (data m') = (if bs = [] then length (data m) else max (length (data m)) (off + length bs))"
    and "peek m' i = (if off \<le> i \<and> i < off + length bs then bs ! (i - off) else peek m i)"
    and "cost = 3 * (mem_words m' - mem_words m)"
proof -
  define d where "d = (if off + length bs \<le> length (data m) then data m
    else data m @ replicate (off + length bs - length (data m)) 0)"
  have len: "length d = max (length (data m)) (off + length bs)" by (auto simp: d_def)
  have pd: "(if j < length d then d ! j else 0) = peek m j" for j
    by (auto simp: d_def peek_def nth_append)
  have fits: "bs = [] \<or> off + length bs \<le> max_size m"
    using w ensure_cases [OF ok, of off "length bs"] ok
    by (auto simp: write_range_def mem_ok_def split: if_splits)
  have m': "bs \<noteq> [] \<Longrightarrow> m' = m\<lparr>data := copy_into d off bs\<rparr>"
    using w fits ensure_cases [OF ok, of off "length bs"]
    by (auto simp: write_range_def d_def split: if_splits)
  have nil: "bs = [] \<Longrightarrow> m' = m \<and> cost = 0" using w by (simp add: write_range_def)
  have clen: "length (copy_into d off bs) = length d" using len by (simp add: copy_into_length)
  show len': "length (data m') = (if bs = [] then length (data m) else max (length (data m)) (off + length bs))"
    using m' nil clen len by auto
  show max': "max_size m' = max_size m" using m' nil by (cases "bs = []") auto
  show "mem_ok m'" using ok fits len' max' by (auto simp: mem_ok_def)
  show "peek m' i = (if off \<le> i \<and> i < off + length bs then bs ! (i - off) else peek m i)"
  proof (cases "bs = []")
    case True
    then show ?thesis using nil by auto
  next
    case False
    then show ?thesis
      using m' copy_into_nth [of off bs d i] pd [of i] clen len by (auto simp: peek_def)
  qed
  show "cost = 3 * (mem_words m' - mem_words m)"
  proof (cases "bs = []")
    case False
    have "mem_words m' = (max (length (data m)) (off + length bs) + 31) div 32"
      using len' False by (simp add: mem_words_def mem_size_def)
    then show ?thesis
      using w ensure_cases [OF ok, of off "length bs"] False fits
      by (auto simp: write_range_def mem_words_def mem_size_def split: if_splits)
  qed (simp add: nil)
qed

lemma write_range_iff:
  assumes "mem_ok m"
  shows "(\<exists>m' c. write_range m off bs = (m', Ok c)) \<longleftrightarrow> bs = [] \<or> off + length bs \<le> max_size m"
    and "\<not> (bs = [] \<or> off + length bs \<le> max_size m) \<Longrightarrow> \<exists>e. write_range m off bs = (m, Err e)"
  using ensure_cases [OF assms, of off "length bs"] assms by (auto simp: write_range_def mem_ok_def)

lemma read_range_peek:
  assumes ok: "mem_ok m" and fits: "off + n \<le> max_size m"
  shows "\<exists>m'. read_range m off n = (m', Ok (map (peek m) [off..<off + n])) \<and> (\<forall>i. peek m' i = peek m i)
    \<and> mem_ok m'"
proof (cases "n = 0")
  case False
  define d where "d = (if off + n \<le> length (data m) then data m
    else data m @ replicate (off + n - length (data m)) 0)"
  have len: "length d = max (length (data m)) (off + n)" by (auto simp: d_def)
  have pd: "(if j < length d then d ! j else 0) = peek m j" for j
    by (auto simp: d_def peek_def nth_append)
  have "slice_of d off n = map (peek m) [off..<off + n]"
  proof (rule nth_equalityI)
    show "length (slice_of d off n) = length (map (peek m) [off..<off + n])" using len by (simp add: slice_of_def)
    fix i
    assume "i < length (slice_of d off n)"
    then have i: "i < n" using len by (simp add: slice_of_def)
    then have "slice_of d off n ! i = d ! (off + i)" using len by (simp add: slice_of_def)
    then show "slice_of d off n ! i = map (peek m) [off..<off + n] ! i"
      using pd [of "off + i"] i len by (simp add: less_max_iff_disj)
  qed
  moreover have "read_range m off n = (m\<lparr>data := d\<rparr>, Ok (slice_of d off n))"
    using ensure_cases [OF ok, of off n] False fits by (simp add: read_range_def d_def)
  moreover have "peek (m\<lparr>data := d\<rparr>) i = peek m i" for i unfolding pd [symmetric] by (simp add: peek_def)
  moreover have "mem_ok (m\<lparr>data := d\<rparr>)" using ok fits len by (simp add: mem_ok_def)
  ultimately show ?thesis by auto
qed (simp add: read_range_def ok)

text \<open>The interface holds of \<open>Memory\<close> on the states the size limit allows.\<close>

lemma mem_write_Some: "mem_write m off bs = Some m' \<longleftrightarrow> (\<exists>c. write_range m off bs = (m', Ok c))"
  by (auto simp: mem_write_def split: prod.splits result.splits)

interpretation fm: flat_memory mem_ok peek mem_write
  by unfold_locales (auto simp: mem_write_Some write_range_Ok)

text \<open>\<open>store32\<close> and \<open>store8\<close> are writes of 32 bytes and of one byte.\<close>

lemma store32_write: "length v = 32 \<Longrightarrow> store32 m off v = write_range m off v"
  by (auto simp: store32_def write_range_def)

lemma store8_write:
  assumes ok: "mem_ok m"
  shows "store8 m off b = write_range m off [b]"
proof -
  have "copy_into xs off [b] = xs[off := b]" if "off < length xs" for xs
    using that by (simp add: copy_into_def upd_conv_take_nth_drop)
  then show ?thesis
    using ensure_cases [OF ok, of off 1] by (auto simp: store8_def write_range_def)
qed

lemma load32_read: "load32 m off = read_range m off 32"
  by (simp add: load32_def read_range_def)

text \<open>C21: Memory behaves as a flat byte array. A word store at any offset within the limit succeeds, a
  load at the same offset returns the stored word, every byte outside the 32 stored ones keeps its
  value (bytes never written read as zero), the size limit is respected, and the reported cost is
  three units per newly covered 32-byte word. A store past the limit is refused and changes nothing.\<close>

theorem memory_store_load:
  assumes "mem_ok m" and "length v = 32"
  shows "(if off + 32 \<le> max_size m
      then \<exists>m'. store32 m off v = (m', Ok (3 * (mem_words m' - mem_words m))) \<and> mem_ok m' \<and>
        max_size m' = max_size m \<and> snd (load32 m' off) = Ok v \<and>
        (\<forall>i. i < off \<or> off + 32 \<le> i \<longrightarrow> peek m' i = peek m i)
      else \<exists>e. store32 m off v = (m, Err e))"
proof (cases "off + 32 \<le> max_size m")
  case True
  then obtain m' c where w: "write_range m off v = (m', Ok c)"
    using write_range_iff(1) [OF assms(1), of off v] assms(2) by auto
  note W = write_range_Ok [OF assms(1) w]
  have "map (peek m') [off..<off + 32] = v"
    using fm.read_back [OF assms(1), of off v m'] w assms(2) by (simp add: mem_write_Some)
  then have "snd (load32 m' off) = Ok v"
    using read_range_peek [OF W(1), of off 32] True W(2) by (auto simp: load32_read)
  then show ?thesis
    using True w W assms(2) by (auto simp: store32_write)
next
  case False
  moreover have "v \<noteq> []" using assms(2) by auto
  ultimately show ?thesis
    using write_range_iff(2) [OF assms(1), of v off] assms(2) by (auto simp: store32_write)
qed

theorem memory_store_load_witness:
  "\<exists>m'. store32 memory_new 40 (replicate 32 7) = (m', Ok (3 * (mem_words m' - mem_words memory_new))) \<and>
     snd (load32 m' 40) = Ok (replicate 32 7)"
  using memory_store_load [of memory_new "replicate 32 7" 40] by (auto simp: mem_ok_def memory_new_def)

end
