(* ===== verification/Lru_Cache.thy ===== *)
theory Lru_Cache
  imports Iona_Prelude
begin

text \<open>
  The interface of \<open>LruCache\<close>, the bounded map of the third-party crate \<open>lru\<close>. Its operations are an
  argument (\<open>lru_ops\<close>) of the definitions that use a cache, and the locale \<open>lru_cache\<close> states what the
  code relies on: a read returns what was last stored under the key or nothing, and nothing else
  changes except that entries may be evicted. The interface has an instance below.
\<close>

record ('c, 'k, 'e) lru_ops =
  lru_new :: "usize \<Rightarrow> 'c"
  lru_get :: "'c \<Rightarrow> 'k \<Rightarrow> 'c \<times> 'e option"
  lru_put :: "'c \<Rightarrow> 'k \<Rightarrow> 'e \<Rightarrow> 'c"
  lru_pop :: "'c \<Rightarrow> 'k \<Rightarrow> 'c"
  lru_clear :: "'c \<Rightarrow> 'c"
  lru_keys :: "'c \<Rightarrow> 'k list"

locale lru_cache =
  fixes L :: "('c, 'k, 'e) lru_ops" and view :: "'c \<Rightarrow> 'k \<Rightarrow> 'e option"
  assumes view_new: "view (lru_new L n) k = None"
    and get_view: "snd (lru_get L c k) = view c k"
    and view_get: "view (fst (lru_get L c k)) k' = view c k'"
    and view_put: "view (lru_put L c k e) k = Some e"
    and view_put_other: "k' \<noteq> k \<Longrightarrow> view (lru_put L c k e) k' = None \<or> view (lru_put L c k e) k' = view c k'"
    and view_pop: "view (lru_pop L c k) k' = (if k' = k then None else view c k')"
    and view_clear: "view (lru_clear L c) k = None"
    and keys_view: "view c k \<noteq> None \<Longrightarrow> k \<in> set (lru_keys L c)"
begin

lemma view_pops: "view (foldl (lru_pop L) c ks) k = (if k \<in> set ks then None else view c k)"
  by (induction ks arbitrary: c) (auto simp: view_pop)

end

subsection \<open>A least-recently-used cache\<close>

text \<open>
  An instance of the interface: entries with the most recent first, cut off at the capacity
  (the \<open>lru\<close> crate takes a \<open>NonZeroUsize\<close>).
\<close>

type_synonym ('k, 'e) lru_list = "nat \<times> ('k \<times> 'e) list"

definition lru_list_ops :: "(('k, 'e) lru_list, 'k, 'e) lru_ops" where
  "lru_list_ops =
     \<lparr>lru_new = (\<lambda>n. (n, [])),
      lru_get = (\<lambda>(n, xs) k. case map_of xs k of
          None \<Rightarrow> ((n, xs), None)
        | Some e \<Rightarrow> ((n, (k, e) # filter (\<lambda>x. fst x \<noteq> k) xs), Some e)),
      lru_put = (\<lambda>(n, xs) k e. (n, take (max n 1) ((k, e) # filter (\<lambda>x. fst x \<noteq> k) xs))),
      lru_pop = (\<lambda>(n, xs) k. (n, filter (\<lambda>x. fst x \<noteq> k) xs)),
      lru_clear = (\<lambda>(n, xs). (n, [])),
      lru_keys = (\<lambda>(n, xs). map fst xs)\<rparr>"

definition lru_list_view :: "('k, 'e) lru_list \<Rightarrow> 'k \<Rightarrow> 'e option" where
  "lru_list_view c k = map_of (snd c) k"

lemma map_of_filter_key: "map_of (filter (\<lambda>x. fst x \<noteq> k) xs) k' = (if k' = k then None else map_of xs k')"
  by (induction xs) auto

lemma map_of_take: "map_of (take n xs) k = None \<or> map_of (take n xs) k = map_of xs k"
  by (induction xs arbitrary: n) (auto simp: take_Cons split: nat.splits)

interpretation lc: lru_cache lru_list_ops lru_list_view
proof
  fix n and k k' :: 'k and c :: "('k, 'e) lru_list" and e
  show "lru_list_view (lru_new lru_list_ops n) k = None"
    by (simp add: lru_list_ops_def lru_list_view_def)
  show "snd (lru_get lru_list_ops c k) = lru_list_view c k"
    by (auto simp: lru_list_ops_def lru_list_view_def split: prod.splits option.splits)
  show "lru_list_view (fst (lru_get lru_list_ops c k)) k' = lru_list_view c k'"
    by (auto simp: lru_list_ops_def lru_list_view_def map_of_filter_key split: prod.splits option.splits)
  show "lru_list_view (lru_put lru_list_ops c k e) k = Some e"
    by (auto simp: lru_list_ops_def lru_list_view_def take_Cons split: prod.splits nat.splits)
  show "lru_list_view (lru_pop lru_list_ops c k) k' = (if k' = k then None else lru_list_view c k')"
    by (auto simp: lru_list_ops_def lru_list_view_def map_of_filter_key split: prod.splits)
  show "lru_list_view (lru_clear lru_list_ops c) k = None"
    by (auto simp: lru_list_ops_def lru_list_view_def split: prod.splits)
  show "lru_list_view c k \<noteq> None \<Longrightarrow> k \<in> set (lru_keys lru_list_ops c)"
    using map_of_eq_None_iff [of "snd c" k] by (cases c) (auto simp: lru_list_ops_def lru_list_view_def)
  show "k' \<noteq> k \<Longrightarrow> lru_list_view (lru_put lru_list_ops c k e) k' = None \<or>
      lru_list_view (lru_put lru_list_ops c k e) k' = lru_list_view c k'"
    using map_of_take [of "max (fst c) 1" "(k, e) # filter (\<lambda>x. fst x \<noteq> k) (snd c)" k']
    by (cases c) (auto simp: lru_list_ops_def lru_list_view_def map_of_filter_key split: if_splits)
qed

end
