(* ===== verification/Vm_State.thy ===== *)
theory Vm_State
  imports Btree_Map Vm_Memory Lru_Cache
begin

text \<open>
  The contract storage of the virtual machine, \<open>VmStorage\<close> of \<open>src/vm/state.rs\<close>: storage slots,
  code, nonces, balances, logs, and the read cache. The cache is the \<open>LruCache\<close> of the third-party
  crate \<open>lru\<close> (\<open>Lru_Cache\<close>): its operations are the argument \<open>L\<close> of the definitions that use them.
  A clock reading \<open>Instant::now()\<close> is an argument too; an expiry time beyond the range of \<open>Instant\<close>, where the
  addition panics, is not modelled.
  Metrics and trace output are not part of the state. \<open>snapshot\<close> shares the cache handle with
  the original (\<open>Arc\<close>); \<open>apply_snapshot\<close> keeps the handle of the storage it is applied to, so the
  model passes the cache by value.
\<close>

subsection \<open>Configuration\<close>

type_synonym vm_word = "byte list"

definition zero_word :: vm_word where
  "zero_word = replicate 32 0"

definition CURRENT_SCHEMA_VERSION :: u32 where
  "CURRENT_SCHEMA_VERSION = 1"

record state_config =
  max_memory_bytes :: usize
  enable_storage_cache :: bool
  storage_cache_size :: usize
  storage_cache_ttl_secs :: u64
  track_metrics :: bool
  log_operations :: bool
  max_logs :: usize
  schema_version :: u32

definition state_config_default :: state_config where
  "state_config_default =
     \<lparr>max_memory_bytes = 4 * 1024 * 1024, enable_storage_cache = True, storage_cache_size = 1024,
      storage_cache_ttl_secs = 60, track_metrics = True, log_operations = False, max_logs = 1024,
      schema_version = CURRENT_SCHEMA_VERSION\<rparr>"

definition state_config_validate :: "state_config \<Rightarrow> (string, unit) result" where
  "state_config_validate c =
     (if max_memory_bytes c = 0 then Err ''max_memory_bytes must be > 0''
      else if storage_cache_size c = 0 then Err ''storage_cache_size must be > 0''
      else if storage_cache_ttl_secs c = 0 then Err ''storage_cache_ttl_secs must be > 0''
      else if max_logs c = 0 then Err ''max_logs must be > 0''
      else if schema_version c = 0 then Err ''schema_version must be > 0''
      else Ok ())"

subsection \<open>The cache\<close>

type_synonym cache_key = "vm_word \<times> vm_word"
type_synonym cache_entry = "vm_word \<times> nat"

type_synonym 'c storage_lru = "('c, cache_key, cache_entry) lru_ops"

subsection \<open>Storage\<close>

record vm_log =
  log_contract :: vm_word
  topics :: "vm_word list"
  log_data :: "byte list"

record 'c vm_storage =
  storage :: "(vm_word \<times> vm_word, vm_word) btree"
  code :: "(vm_word, byte list) btree"
  vm_nonces :: "(vm_word, u64) btree"
  vm_balances :: "(vm_word, u128) btree"
  logs :: "vm_log list"
  origin_addr :: vm_word
  gas_price_value :: u64
  vm_config :: state_config
  cache :: "'c option"

datatype vm_balance_error = VmInsufficientBalance u128 u128

definition vm_storage_default :: "'c vm_storage" where
  "vm_storage_default =
     \<lparr>storage = [], code = [], vm_nonces = [], vm_balances = [], logs = [], origin_addr = zero_word,
      gas_price_value = 0, vm_config = state_config_default, cache = None\<rparr>"

definition vm_with_config :: "'c storage_lru \<Rightarrow> state_config \<Rightarrow> 'c vm_storage" where
  "vm_with_config L c =
     vm_storage_default\<lparr>vm_config := c,
       cache := (if enable_storage_cache c \<and> storage_cache_size c \<noteq> 0
                 then Some (lru_new L (storage_cache_size c)) else None)\<rparr>"

definition clear_logs :: "'c vm_storage \<Rightarrow> 'c vm_storage" where
  "clear_logs s = s\<lparr>logs := []\<rparr>"

definition get_nonce :: "'c vm_storage \<Rightarrow> vm_word \<Rightarrow> u64" where
  "get_nonce s a = (case bt_get (vm_nonces s) a of None \<Rightarrow> 0 | Some n \<Rightarrow> n)"

definition inc_nonce :: "'c vm_storage \<Rightarrow> vm_word \<Rightarrow> 'c vm_storage \<times> u64" where
  "inc_nonce s a =
     (let prev = (case bt_get (vm_nonces s) a of None \<Rightarrow> 0 | Some n \<Rightarrow> n)
      in (s\<lparr>vm_nonces := bt_insert a (wrapping_add 64 prev 1) (vm_nonces s)\<rparr>, prev))"

definition apply_snapshot :: "'c vm_storage \<Rightarrow> 'c vm_storage \<Rightarrow> 'c vm_storage" where
  "apply_snapshot s snap = snap\<lparr>cache := cache s, vm_config := vm_config s\<rparr>"

definition invalidate_cache_key :: "'c storage_lru \<Rightarrow> 'c vm_storage \<Rightarrow> cache_key \<Rightarrow> 'c vm_storage" where
  "invalidate_cache_key L s k =
     (case cache s of None \<Rightarrow> s | Some c \<Rightarrow> s\<lparr>cache := Some (lru_pop L c k)\<rparr>)"

definition invalidate_cache_contract :: "'c storage_lru \<Rightarrow> 'c vm_storage \<Rightarrow> vm_word \<Rightarrow> 'c vm_storage" where
  "invalidate_cache_contract L s contract =
     (case cache s of
        None \<Rightarrow> s
      | Some c \<Rightarrow>
          s\<lparr>cache := Some (foldl (lru_pop L) c (filter (\<lambda>k. fst k = contract) (lru_keys L c)))\<rparr>)"

definition sload ::
  "'c storage_lru \<Rightarrow> nat \<Rightarrow> nat \<Rightarrow> 'c vm_storage \<Rightarrow> vm_word \<Rightarrow> vm_word \<Rightarrow> 'c vm_storage \<times> vm_word" where
  \<comment> \<open>the two clock readings: at the expiry check and when the entry is cached\<close>
  "sload L now now' s contract key =
     (let k = (contract, key);
          stored = (\<lambda>s. case bt_get (storage s) k of None \<Rightarrow> zero_word | Some v \<Rightarrow> v);
          fill = (\<lambda>s. case cache s of
             None \<Rightarrow> (s, stored s)
           | Some c \<Rightarrow>
               (s\<lparr>cache := Some (lru_put L c k (stored s, now' + storage_cache_ttl_secs (vm_config s)))\<rparr>,
                stored s))
      in case cache s of
           None \<Rightarrow> fill s
         | Some c \<Rightarrow>
             (case lru_get L c k of
                (c1, Some (v, expires)) \<Rightarrow>
                  (if now < expires then (s\<lparr>cache := Some c1\<rparr>, v)
                   else fill (s\<lparr>cache := Some (lru_pop L c1 k)\<rparr>))
              | (c1, None) \<Rightarrow> fill (s\<lparr>cache := Some c1\<rparr>)))"

definition sstore ::
  "'c storage_lru \<Rightarrow> 'c vm_storage \<Rightarrow> vm_word \<Rightarrow> vm_word \<Rightarrow> vm_word \<Rightarrow> 'c vm_storage" where
  "sstore L s contract key v =
     (let k = (contract, key);
          s1 = (if v = zero_word then s\<lparr>storage := bt_remove k (storage s)\<rparr>
                else s\<lparr>storage := bt_insert k v (storage s)\<rparr>)
      in invalidate_cache_key L s1 k)"

definition get_code :: "'c vm_storage \<Rightarrow> vm_word \<Rightarrow> byte list" where
  "get_code s contract = (case bt_get (code s) contract of None \<Rightarrow> [] | Some c \<Rightarrow> c)"

definition set_code :: "'c vm_storage \<Rightarrow> vm_word \<Rightarrow> byte list \<Rightarrow> 'c vm_storage" where
  "set_code s contract c =
     (if c = [] then s\<lparr>code := bt_remove contract (code s)\<rparr>
      else s\<lparr>code := bt_insert contract c (code s)\<rparr>)"

definition emit_log ::
  "'c vm_storage \<Rightarrow> vm_word \<Rightarrow> vm_word list \<Rightarrow> byte list \<Rightarrow> 'c vm_storage option" where
  \<comment> \<open>\<open>None\<close>: the range of \<open>drain\<close> is out of bounds and the call panics\<close>
  "emit_log s contract ts bytes =
     (let log = \<lparr>log_contract = contract, topics = ts, log_data = bytes\<rparr> in
      if max_logs (vm_config s) \<le> length (logs s)
      then let excess = length (logs s) + 1 - max_logs (vm_config s) in
        if length (logs s) < excess then None
        else Some (s\<lparr>logs := drop excess (logs s) @ [log]\<rparr>)
      else Some (s\<lparr>logs := logs s @ [log]\<rparr>))"

definition vm_balance :: "'c vm_storage \<Rightarrow> vm_word \<Rightarrow> u128" where
  "vm_balance s a = (case bt_get (vm_balances s) a of None \<Rightarrow> 0 | Some b \<Rightarrow> b)"

definition transfer_balance ::
  "'c vm_storage \<Rightarrow> vm_word \<Rightarrow> vm_word \<Rightarrow> u128
    \<Rightarrow> 'c vm_storage \<times> (vm_balance_error, unit) result" where
  "transfer_balance s from to amt =
     (let from_balance = vm_balance s from in
      case checked_sub from_balance amt of
        None \<Rightarrow> (s, Err (VmInsufficientBalance from_balance amt))
      | Some new_from \<Rightarrow>
          (let to_balance = vm_balance s to;
               new_to = (case checked_add 128 to_balance amt of Some v \<Rightarrow> v | None \<Rightarrow> 2 ^ 128 - 1)
           in (s\<lparr>vm_balances := bt_insert to new_to (bt_insert from new_from (vm_balances s))\<rparr>, Ok ())))"

definition create_contract ::
  "'c vm_storage \<Rightarrow> vm_word \<Rightarrow> u128 \<Rightarrow> byte list \<Rightarrow> 'c vm_storage \<times> vm_word" where
  "create_contract s creator v init_code =
     (let (s1, nonce) = inc_nonce s creator;
          addr = take 8 creator @ to_le_bytes 8 nonce @ replicate 16 0;
          s2 = set_code s1 addr init_code
      in (fst (transfer_balance s2 creator addr v), addr))"

definition create2_contract ::
  "'c vm_storage \<Rightarrow> vm_word \<Rightarrow> u128 \<Rightarrow> byte list \<Rightarrow> vm_word \<Rightarrow> 'c vm_storage \<times> vm_word" where
  "create2_contract s creator v init_code salt =
     (let addr = take 8 creator @ take 8 salt @ replicate 16 0;
          s1 = set_code s addr init_code
      in (fst (transfer_balance s1 creator addr v), addr))"

definition delete_contract :: "'c storage_lru \<Rightarrow> 'c vm_storage \<Rightarrow> vm_word \<Rightarrow> 'c vm_storage" where
  "delete_contract L s contract =
     invalidate_cache_contract L
       (s\<lparr>code := bt_remove contract (code s),
          storage := filter (\<lambda>((c, _), _). c \<noteq> contract) (storage s),
          vm_balances := bt_remove contract (vm_balances s),
          vm_nonces := bt_remove contract (vm_nonces s)\<rparr>) contract"

subsection \<open>The cache is transparent\<close>

definition slot :: "'c vm_storage \<Rightarrow> cache_key \<Rightarrow> vm_word" where
  "slot s k = (case bt_get (storage s) k of None \<Rightarrow> zero_word | Some v \<Rightarrow> v)"

definition cache_coherent :: "('c \<Rightarrow> cache_key \<Rightarrow> cache_entry option) \<Rightarrow> 'c vm_storage \<Rightarrow> bool" where
  "cache_coherent view s \<longleftrightarrow>
     (\<forall>c k v e. cache s = Some c \<longrightarrow> view c k = Some (v, e) \<longrightarrow> v = slot s k)"

lemma coherentD:
  "cache_coherent view s \<Longrightarrow> cache s = Some c \<Longrightarrow> view c k = Some (v, e) \<Longrightarrow> v = slot s k"
  unfolding cache_coherent_def by blast

lemma coherentI:
  "cache s = Some c \<Longrightarrow> (\<And>k v e. view c k = Some (v, e) \<Longrightarrow> v = slot s k) \<Longrightarrow> cache_coherent view s"
  unfolding cache_coherent_def by auto

lemma slot_cong [simp]: "slot (s\<lparr>cache := c\<rparr>) k = slot s k"
  by (simp add: slot_def)

lemma storage_delete_get:
  "bt_get (filter (\<lambda>((c, _), _). c \<noteq> contract) m) k = (if fst k = contract then None else bt_get m k)"
  by (cases k, induction m) auto

lemma sstore_storage:
  "storage (sstore L s a key v) =
     (if v = zero_word then bt_remove (a, key) (storage s) else bt_insert (a, key) v (storage s))"
  by (simp add: sstore_def invalidate_cache_key_def Let_def split: option.splits)

lemma sstore_cache: "cache (sstore L s a key v) = map_option (\<lambda>c. lru_pop L c (a, key)) (cache s)"
  by (simp add: sstore_def invalidate_cache_key_def Let_def split: option.splits)

lemma sstore_slot: "slot (sstore L s a key v) k = (if k = (a, key) then v else slot s k)"
  by (simp add: slot_def sstore_storage bt_get_remove bt_get_insert)

lemma delete_slot: "slot (delete_contract L s a) k = (if fst k = a then zero_word else slot s k)"
  by (simp add: delete_contract_def invalidate_cache_contract_def slot_def storage_delete_get
      split: option.splits)

locale storage_cache = lru_cache L view
  for L :: "'c storage_lru" and view :: "'c \<Rightarrow> cache_key \<Rightarrow> cache_entry option"

interpretation sc: storage_cache lru_list_ops lru_list_view
  by unfold_locales

context storage_cache
begin

lemma fill_coherent:
  assumes "cache_coherent view s" "cache s = Some c" "v = slot s k"
  shows "cache_coherent view (s\<lparr>cache := Some (lru_put L c k (v, t))\<rparr>)"
  unfolding cache_coherent_def
proof (intro allI impI)
  fix c' k' v' e'
  assume "cache (s\<lparr>cache := Some (lru_put L c k (v, t))\<rparr>) = Some c'" "view c' k' = Some (v', e')"
  then have v': "view (lru_put L c k (v, t)) k' = Some (v', e')" by simp
  show "v' = slot (s\<lparr>cache := Some (lru_put L c k (v, t))\<rparr>) k'"
  proof (cases "k' = k")
    case True
    then show ?thesis using v' view_put assms(3) by simp
  next
    case False
    then have "view c k' = Some (v', e')" using v' view_put_other [OF False, of c "(v, t)"] by auto
    then show ?thesis using coherentD [OF assms(1,2)] by simp
  qed
qed

lemma coherent_shrink:
  assumes "cache_coherent view s" "cache s = Some c" "\<And>k e. view c' k = Some e \<Longrightarrow> view c k = Some e"
  shows "cache_coherent view (s\<lparr>cache := Some c'\<rparr>)"
  by (rule coherentI [of _ c']) (auto intro: coherentD [OF assms(1,2)] assms(3))

lemma sload_correct:
  assumes coh: "cache_coherent view s"
  shows "snd (sload L now now' s a key) = slot s (a, key)"
    and "cache_coherent view (fst (sload L now now' s a key))"
    and "storage (fst (sload L now now' s a key)) = storage s"
proof -
  let ?k = "(a, key)"
  have "snd (sload L now now' s a key) = slot s ?k \<and> cache_coherent view (fst (sload L now now' s a key))
    \<and> storage (fst (sload L now now' s a key)) = storage s"
  proof (cases "cache s")
    case None
    then show ?thesis using coh by (simp add: sload_def slot_def Let_def)
  next
    case (Some c)
    obtain c1 r where g: "lru_get L c ?k = (c1, r)" by fastforce
    have r: "r = view c ?k" and c1: "view c1 k' = view c k'" for k'
      using get_view [of c ?k] view_get [of c ?k k'] g by simp_all
    have coh1: "cache_coherent view (s\<lparr>cache := Some c1\<rparr>)"
      using coherent_shrink [OF coh Some, of c1] c1 by simp
    show ?thesis
    proof (cases r)
      case None
      then show ?thesis
        using Some g fill_coherent [OF coh1, of c1 _ ?k] by (simp add: sload_def slot_def Let_def)
    next
      case r': (Some ve)
      obtain v e where ve: "ve = (v, e)" by fastforce
      have v: "v = slot s ?k" using coherentD [OF coh Some, of ?k v e] r r' ve by simp
      have coh2: "cache_coherent view (s\<lparr>cache := Some (lru_pop L c1 ?k)\<rparr>)"
        by (rule coherent_shrink [OF coh Some]) (auto simp: view_pop c1 split: if_splits)
      show ?thesis
        using Some g r' ve v coh1 fill_coherent [OF coh2, of "lru_pop L c1 ?k" _ ?k]
        by (simp add: sload_def slot_def Let_def)
    qed
  qed
  then show "snd (sload L now now' s a key) = slot s ?k"
    and "cache_coherent view (fst (sload L now now' s a key))"
    and "storage (fst (sload L now now' s a key)) = storage s" by blast+
qed

lemma sstore_coherent:
  assumes coh: "cache_coherent view s"
  shows "cache_coherent view (sstore L s a key v)"
proof (cases "cache s")
  case None
  then show ?thesis by (simp add: cache_coherent_def sstore_cache)
next
  case (Some c)
  then have "cache (sstore L s a key v) = Some (lru_pop L c (a, key))" by (simp add: sstore_cache)
  then show ?thesis
    by (rule coherentI) (auto simp: sstore_slot view_pop split: if_splits intro: coherentD [OF coh Some])
qed

lemma delete_coherent:
  assumes coh: "cache_coherent view s"
  shows "cache_coherent view (delete_contract L s a)"
proof (cases "cache s")
  case None
  then show ?thesis
    by (simp add: cache_coherent_def delete_contract_def invalidate_cache_contract_def)
next
  case (Some c)
  let ?ks = "filter (\<lambda>k. fst k = a) (lru_keys L c)"
  have "cache (delete_contract L s a) = Some (foldl (lru_pop L) c ?ks)"
    using Some by (simp add: delete_contract_def invalidate_cache_contract_def)
  then show ?thesis
  proof (rule coherentI)
    fix k v e
    assume "view (foldl (lru_pop L) c ?ks) k = Some (v, e)"
    then have "k \<notin> set ?ks" "view c k = Some (v, e)" by (simp_all add: view_pops split: if_splits)
    moreover have "k \<in> set (lru_keys L c)" using keys_view [of c k] calculation(2) by simp
    ultimately show "v = slot (delete_contract L s a) k"
      using coherentD [OF coh Some, of k v e] by (simp add: delete_slot)
  qed
qed

text \<open>After a rollback the cache may still answer with the value that was rolled back.\<close>

lemma cached_read_survives:
  assumes "cache s = Some c" and "0 < storage_cache_ttl_secs (vm_config s)"
  shows "snd (sload L t t (apply_snapshot (fst (sload L t t (sstore L s a key v) a key)) s) a key) = v"
proof -
  let ?c0 = "lru_pop L c (a, key)" and ?ttl = "storage_cache_ttl_secs (vm_config s)"
  obtain c1 where miss: "lru_get L ?c0 (a, key) = (c1, None)"
    using get_view [of ?c0 "(a, key)"] view_pop [of c "(a, key)" "(a, key)"] by (metis prod.collapse)
  obtain c2 where hit: "lru_get L (lru_put L c1 (a, key) (v, t + ?ttl)) (a, key) = (c2, Some (v, t + ?ttl))"
    using get_view [of "lru_put L c1 (a, key) (v, t + ?ttl)" "(a, key)"] view_put by (metis prod.collapse)
  have "vm_config (sstore L s a key v) = vm_config s"
    by (simp add: sstore_def invalidate_cache_key_def Let_def split: option.splits)
  moreover have "(case bt_get (storage (sstore L s a key v)) (a, key) of None \<Rightarrow> zero_word | Some v \<Rightarrow> v) = v"
    using sstore_slot [of L s a key v "(a, key)"] by (simp add: slot_def)
  moreover have "cache (sstore L s a key v) = Some ?c0" using assms(1) by (simp add: sstore_cache)
  ultimately have "cache (fst (sload L t t (sstore L s a key v) a key))
      = Some (lru_put L c1 (a, key) (v, t + ?ttl))"
    using miss by (simp add: sload_def Let_def)
  then have "cache (apply_snapshot (fst (sload L t t (sstore L s a key v) a key)) s)
      = Some (lru_put L c1 (a, key) (v, t + ?ttl))"
    by (simp add: apply_snapshot_def)
  then show ?thesis using hit assms(2) by (simp add: sload_def [of L t t "apply_snapshot _ _"] Let_def)
qed

end

text \<open>
  Histories of slot operations: the results of the loads, on the cached storage and on a plain map
  from slots to words.
\<close>

datatype slot_op =
    Load_Op nat nat vm_word vm_word
  | Store_Op vm_word vm_word vm_word
  | Delete_Op vm_word

fun run_slots :: "'c storage_lru \<Rightarrow> 'c vm_storage \<Rightarrow> slot_op list \<Rightarrow> vm_word list" where
  "run_slots L s [] = []"
| "run_slots L s (Load_Op t t' a k # ops) =
     (let (s1, v) = sload L t t' s a k in v # run_slots L s1 ops)"
| "run_slots L s (Store_Op a k v # ops) = run_slots L (sstore L s a k v) ops"
| "run_slots L s (Delete_Op a # ops) = run_slots L (delete_contract L s a) ops"

fun run_map :: "(cache_key \<Rightarrow> vm_word) \<Rightarrow> slot_op list \<Rightarrow> vm_word list" where
  "run_map m [] = []"
| "run_map m (Load_Op t t' a k # ops) = m (a, k) # run_map m ops"
| "run_map m (Store_Op a k v # ops) = run_map (m((a, k) := v)) ops"
| "run_map m (Delete_Op a # ops) = run_map (\<lambda>k. if fst k = a then zero_word else m k) ops"

context storage_cache
begin

lemma run_slots_eq: "cache_coherent view s \<Longrightarrow> run_slots L s ops = run_map (slot s) ops"
proof (induction ops arbitrary: s)
  case (Cons op ops)
  show ?case
  proof (cases op)
    case (Load_Op t t' a k)
    obtain s1 v where l: "sload L t t' s a k = (s1, v)" by fastforce
    have "v = slot s (a, k)" "cache_coherent view s1" "slot s1 = slot s"
      using sload_correct [OF Cons.prems, of t t' a k] l by (simp_all add: slot_def fun_eq_iff)
    then show ?thesis using Load_Op l Cons.IH [of s1] by simp
  next
    case (Store_Op a k v)
    have "slot (sstore L s a k v) = (slot s)((a, k) := v)" by (auto simp: sstore_slot)
    then show ?thesis using Store_Op Cons.IH [OF sstore_coherent [OF Cons.prems], of a k v] by (simp add: fun_upd_def)
  next
    case (Delete_Op a)
    have "slot (delete_contract L s a) = (\<lambda>k. if fst k = a then zero_word else slot s k)"
      by (auto simp: delete_slot)
    then show ?thesis using Delete_Op Cons.IH [OF delete_coherent [OF Cons.prems], of a] by simp
  qed
qed simp

end

subsection \<open>Balances, logs and contract creation\<close>

definition vm_supply :: "'c vm_storage \<Rightarrow> nat" where
  "vm_supply s = bt_sum (\<lambda>_ b. b) (vm_balances s)"

lemma vm_balance_upsert:
  assumes "bt_wf m"
  shows "bt_sum (\<lambda>_ b. b) (bt_insert a x m) + (case bt_get m a of None \<Rightarrow> 0 | Some b \<Rightarrow> b)
    = bt_sum (\<lambda>_ b. b) m + x"
  using bt.total_upsert [OF assms, of "\<lambda>_ b. b" a x] .

lemma create_contract_addr:
  "snd (create_contract s creator v init) = take 8 creator @ to_le_bytes 8 (get_nonce s creator) @ replicate 16 0"
  by (simp add: create_contract_def inc_nonce_def get_nonce_def Let_def)

lemma create_contract_nonce:
  "get_nonce (fst (create_contract s creator v init)) creator = wrapping_add 64 (get_nonce s creator) 1"
  by (simp add: create_contract_def inc_nonce_def get_nonce_def Let_def transfer_balance_def set_code_def
      bt_get_insert split: option.splits)

text \<open>C6: The read cache is invisible. For every cache that satisfies the laws of an LRU cache, every
  clock and every history of loads, stores and contract deletions, the loads return what they would
  return on a plain map from slots to words, as long as the cache starts out consistent (empty, for
  example).\<close>

theorem storage_cache_transparent:
  assumes "lru_cache L view" and "cache_coherent view s"
  shows "run_slots L s ops = run_map (slot s) ops"
  using storage_cache.run_slots_eq [OF storage_cache.intro [OF assms(1)] assms(2)] .

theorem storage_cache_transparent_witness:
  "run_slots lru_list_ops (vm_with_config lru_list_ops state_config_default)
     [Store_Op [1] [2] [3], Load_Op 0 0 [1] [2], Load_Op 5 5 [1] [2], Delete_Op [1], Load_Op 6 6 [1] [2]]
   = [[3], [3], zero_word]"
proof -
  let ?s = "vm_with_config lru_list_ops state_config_default"
  have "cache_coherent lru_list_view ?s"
    by (auto simp: cache_coherent_def vm_with_config_def lru_list_view_def lru_list_ops_def
        state_config_default_def)
  note storage_cache_transparent [OF lc.lru_cache_axioms this]
  then show ?thesis by (simp del: run_slots.simps)
qed

text \<open>C33: Rolling back to a snapshot does not roll back the cache. Whatever LRU cache is used: take a
  snapshot, store a new value in a slot, read it, and apply the snapshot; the slot has its old value
  again, but the next read within the time to live still returns the value that was rolled back.\<close>

theorem snapshot_leaves_stale_reads:
  assumes "lru_cache L view" and "cache s = Some c" and "0 < storage_cache_ttl_secs (vm_config s)"
    and "v \<noteq> slot s (a, key)"
  shows "\<exists>s'. s' = apply_snapshot (fst (sload L t t (sstore L s a key v) a key)) s \<and>
    slot s' (a, key) = slot s (a, key) \<and> snd (sload L t t s' a key) = v \<and>
    snd (sload L t t s' a key) \<noteq> slot s' (a, key)"
  using storage_cache.cached_read_survives [OF storage_cache.intro [OF assms(1)] assms(2,3), of t a key v] assms(4)
  by (simp add: slot_def apply_snapshot_def)

theorem snapshot_leaves_stale_reads_witness:
  "\<exists>s'. s' = apply_snapshot (fst (sload lru_list_ops 0 0
       (sstore lru_list_ops (vm_with_config lru_list_ops state_config_default) [1] [2] [3]) [1] [2]))
       (vm_with_config lru_list_ops state_config_default) \<and>
     slot s' ([1], [2]) = zero_word \<and> snd (sload lru_list_ops 0 0 s' [1] [2]) = [3]"
proof -
  let ?s = "vm_with_config lru_list_ops state_config_default :: (cache_key, cache_entry) lru_list vm_storage"
  have "\<exists>c. cache ?s = Some c" "slot ?s ([1], [2]) = zero_word" "0 < storage_cache_ttl_secs (vm_config ?s)"
    by (simp_all add: vm_with_config_def state_config_default_def slot_def vm_storage_default_def)
  moreover have "[3] \<noteq> zero_word" by (simp add: zero_word_def Cons_replicate_eq)
  ultimately show ?thesis
    using snapshot_leaves_stale_reads [OF lc.lru_cache_axioms, of ?s _ "[3]" "[1]" "[2]" 0] by auto
qed

text \<open>C30: A transfer between two different accounts is exact and conserves the total: it succeeds exactly
  when the sender has the amount; the sender loses it, the receiver gains it, no other balance
  changes. Otherwise the state is unchanged.\<close>

theorem transfer_conserves:
  assumes "bt_wf (vm_balances s)" and "from \<noteq> to" and "vm_balance s to + amt < 2 ^ 128"
  shows "(if amt \<le> vm_balance s from
      then \<exists>s'. transfer_balance s from to amt = (s', Ok ()) \<and> vm_supply s' = vm_supply s \<and>
        vm_balance s' from = vm_balance s from - amt \<and> vm_balance s' to = vm_balance s to + amt \<and>
        (\<forall>a. a \<noteq> from \<and> a \<noteq> to \<longrightarrow> vm_balance s' a = vm_balance s a)
      else transfer_balance s from to amt = (s, Err (VmInsufficientBalance (vm_balance s from) amt)))"
proof (cases "amt \<le> vm_balance s from")
  case True
  let ?m = "bt_insert from (vm_balance s from - amt) (vm_balances s)"
  have "bt_sum (\<lambda>_ b. b) ?m + amt = vm_supply s"
    using vm_balance_upsert [OF assms(1), of "from" "vm_balance s from - amt"] True
    by (simp add: vm_supply_def vm_balance_def)
  moreover have "bt_sum (\<lambda>_ b. b) (bt_insert to (vm_balance s to + amt) ?m) = bt_sum (\<lambda>_ b. b) ?m + amt"
    using vm_balance_upsert [OF bt.wf_ins [OF assms(1)], of to "vm_balance s to + amt" "from" "vm_balance s from - amt"] assms(2)
    by (simp add: bt_get_insert vm_balance_def)
  ultimately show ?thesis
    using True assms(2,3)
    by (simp add: transfer_balance_def Let_def checked_sub_def checked_add_def vm_supply_def)
      (simp add: vm_balance_def bt_get_insert)
qed (simp add: transfer_balance_def checked_sub_def)

theorem transfer_conserves_witness:
  "\<exists>s'. transfer_balance (vm_storage_default\<lparr>vm_balances := [([1], 10)]\<rparr> :: unit vm_storage) [1] [2] 4
     = (s', Ok ()) \<and> vm_supply s' = 10"
  using transfer_conserves [of "vm_storage_default\<lparr>vm_balances := [([1], 10)]\<rparr>" "[1]" "[2]" 4]
  by (auto simp: vm_balance_def vm_supply_def)

text \<open>C34: A transfer from an account to itself creates money: the balance grows by the transferred
  amount, because the credited balance is computed from the balance before the debit.\<close>

theorem self_transfer_mints:
  assumes "amt \<le> vm_balance s a" and "vm_balance s a + amt < 2 ^ 128"
  shows "\<exists>s'. transfer_balance s a a amt = (s', Ok ()) \<and> vm_balance s' a = vm_balance s a + amt"
  using assms
  by (simp add: transfer_balance_def Let_def checked_sub_def checked_add_def)
    (simp add: vm_balance_def bt_get_insert)

theorem self_transfer_mints_witness:
  "\<exists>s'. transfer_balance (vm_storage_default\<lparr>vm_balances := [([1], 10)]\<rparr> :: unit vm_storage) [1] [1] 10
     = (s', Ok ()) \<and> vm_balance s' [1] = 20"
  using self_transfer_mints [of 10 "vm_storage_default\<lparr>vm_balances := [([1], 10)]\<rparr>" "[1]"]
  by (auto simp: vm_balance_def)

text \<open>The log buffer stays within its configured bound and keeps the most recent entries: with a
  valid configuration an emitted log is always the last one, the buffer never exceeds \<open>max_logs\<close>, and
  what remains of the earlier logs is a suffix of them, of the largest length that fits.\<close>

theorem emit_log_bounded:
  assumes "state_config_validate (vm_config s) = Ok ()"
  shows "\<exists>s' n. emit_log s a ts bytes = Some s' \<and>
    logs s' = drop n (logs s) @ [\<lparr>log_contract = a, topics = ts, log_data = bytes\<rparr>] \<and>
    length (logs s') = min (length (logs s) + 1) (max_logs (vm_config s))"
proof -
  have pos: "0 < max_logs (vm_config s)"
    using assms by (auto simp: state_config_validate_def split: if_splits)
  define n where "n = (if max_logs (vm_config s) \<le> length (logs s)
    then length (logs s) + 1 - max_logs (vm_config s) else 0)"
  have "emit_log s a ts bytes = Some (s\<lparr>logs := drop n (logs s) @
      [\<lparr>log_contract = a, topics = ts, log_data = bytes\<rparr>]\<rparr>)"
    using pos by (auto simp: emit_log_def Let_def n_def)
  moreover have "length (drop n (logs s)) + 1 = min (length (logs s) + 1) (max_logs (vm_config s))"
    using pos by (auto simp: n_def)
  ultimately show ?thesis by (auto intro!: exI [of _ n])
qed

theorem emit_log_bounded_witness:
  "\<exists>s'. emit_log (vm_storage_default\<lparr>vm_config := state_config_default\<lparr>max_logs := 1\<rparr>,
       logs := [\<lparr>log_contract = [], topics = [], log_data = []\<rparr>]\<rparr> :: unit vm_storage) [1] [] [] = Some s' \<and>
     length (logs s') = 1"
  using emit_log_bounded [of "vm_storage_default\<lparr>vm_config := state_config_default\<lparr>max_logs := 1\<rparr>,
       logs := [\<lparr>log_contract = [], topics = [], log_data = []\<rparr>]\<rparr>" "[1]" "[]" "[]"]
  by (auto simp: state_config_validate_def state_config_default_def CURRENT_SCHEMA_VERSION_def)

text \<open>Consecutive contract creations by one account get different addresses until its 64-bit nonce
  wraps around.\<close>

theorem create_contract_fresh:
  assumes "get_nonce s creator + 1 < 2 ^ 64"
    and "create_contract s creator v init = (s1, a1)" and "create_contract s1 creator v' init' = (s2, a2)"
  shows "a1 \<noteq> a2"
proof
  assume "a1 = a2"
  moreover have "a1 = take 8 creator @ to_le_bytes 8 (get_nonce s creator) @ replicate 16 0"
    using create_contract_addr [of s creator v init] assms(2) by simp
  moreover have "a2 = take 8 creator @ to_le_bytes 8 (get_nonce s1 creator) @ replicate 16 0"
    using create_contract_addr [of s1 creator v' init'] assms(3) by simp
  moreover have "get_nonce s1 creator = get_nonce s creator + 1"
    using create_contract_nonce [of s creator v init] assms(1,2) by (simp add: wrapping_add_def)
  ultimately have "to_le_bytes 8 (get_nonce s creator) = to_le_bytes 8 (get_nonce s creator + 1)" by simp
  then show False using to_le_bytes_inj [of "get_nonce s creator" 8 "get_nonce s creator + 1"] assms(1) by simp
qed

theorem create_contract_fresh_witness:
  "\<exists>s1 a1 s2 a2. create_contract (vm_storage_default :: unit vm_storage) zero_word 0 [] = (s1, a1) \<and>
     create_contract s1 zero_word 0 [] = (s2, a2) \<and> a1 \<noteq> a2"
proof -
  obtain s1 a1 s2 a2 where "create_contract (vm_storage_default :: unit vm_storage) zero_word 0 [] = (s1, a1)"
    "create_contract s1 zero_word 0 [] = (s2, a2)" by (metis prod.collapse)
  then show ?thesis
    using create_contract_fresh [of vm_storage_default zero_word 0 "[]" s1 a1 0 "[]" s2 a2]
    by (auto simp: get_nonce_def vm_storage_default_def)
qed

end
