(* ===== verification/Gas_Meter.thy ===== *)
theory Gas_Meter
  imports Iona_Prelude
begin

text \<open>
  Gas accounting, \<open>src/vm/gas.rs\<close>: the configuration, the meter with its charges, refunds, memory
  costs, forks and snapshots. The metrics handle does not influence the accounting and is left out,
  as are the \<open>f64\<close> helpers \<open>fraction_used\<close> and \<open>charge_scaled\<close>.
\<close>

subsection \<open>Configuration and errors\<close>

definition MEMORY_WORD_GAS :: u64 where "MEMORY_WORD_GAS = 3"
definition MINIMUM_GAS :: u64 where "MINIMUM_GAS = 21000"
definition MAX_BLOCK_GAS :: u64 where "MAX_BLOCK_GAS = 30000000"
definition MAX_REFUND_QUOTIENT :: u64 where "MAX_REFUND_QUOTIENT = 2"
definition DEFAULT_MEMORY_COST_DENOM :: u64 where "DEFAULT_MEMORY_COST_DENOM = 512"

lemmas gas_constants = MEMORY_WORD_GAS_def MINIMUM_GAS_def MAX_BLOCK_GAS_def MAX_REFUND_QUOTIENT_def
  DEFAULT_MEMORY_COST_DENOM_def

datatype gas_error =
    OutOfGas u64 u64
  | RefundCapped u64 u64 u64
  | GasLimitTooHigh u64 u64
  | GasLimitTooLow u64 u64
  | Gas_Overflow
  | RefundAlreadyApplied
  | ChargeAfterRefund
  | Gas_Config string
  | SnapshotMismatch u64 u64

record gas_config =
  max_gas_per_tx :: u64
  max_gas_per_block :: u64
  min_gas_per_tx :: u64
  refund_quotient :: u64
  memory_word_gas :: u64
  memory_quadratic_denom :: u64

definition gas_config_default :: gas_config where
  "gas_config_default =
     \<lparr>max_gas_per_tx = MAX_BLOCK_GAS, max_gas_per_block = MAX_BLOCK_GAS, min_gas_per_tx = MINIMUM_GAS,
      refund_quotient = MAX_REFUND_QUOTIENT, memory_word_gas = MEMORY_WORD_GAS,
      memory_quadratic_denom = DEFAULT_MEMORY_COST_DENOM\<rparr>"

definition gas_config_validate :: "gas_config \<Rightarrow> (gas_error, unit) result" where
  "gas_config_validate c =
     (if max_gas_per_tx c = 0 then Err (Gas_Config ''max_gas_per_tx must be > 0'')
      else if max_gas_per_block c = 0 then Err (Gas_Config ''max_gas_per_block must be > 0'')
      else if min_gas_per_tx c = 0 then Err (Gas_Config ''min_gas_per_tx must be > 0'')
      else if refund_quotient c = 0 then Err (Gas_Config ''refund_quotient must be > 0'')
      else if memory_word_gas c = 0 then Err (Gas_Config ''memory_word_gas must be > 0'')
      else if memory_quadratic_denom c = 0
      then Err (Gas_Config ''memory_quadratic_denom must be > 0'')
      else if max_gas_per_tx c < min_gas_per_tx c
      then Err (Gas_Config ''min_gas_per_tx must be <= max_gas_per_tx'')
      else if max_gas_per_block c < max_gas_per_tx c
      then Err (Gas_Config ''max_gas_per_tx must be <= max_gas_per_block'')
      else Ok ())"

subsection \<open>Meter\<close>

record gas_meter =
  limit :: u64
  used :: u64
  refund :: u64
  max_refund_cache :: u64
  refund_applied :: bool
  gas_conf :: gas_config

definition gas_with_config :: "u64 \<Rightarrow> gas_config \<Rightarrow> gas_meter" where
  "gas_with_config lim c =
     \<lparr>limit = max (min lim (max_gas_per_tx c)) 1, used = 0, refund = 0, max_refund_cache = 0,
      refund_applied = False, gas_conf = c\<rparr>"

definition new_with_validation :: "u64 \<Rightarrow> gas_config \<Rightarrow> (gas_error, gas_meter) result" where
  "new_with_validation lim c =
     (if lim < min_gas_per_tx c then Err (GasLimitTooLow lim (min_gas_per_tx c))
      else if max_gas_per_block c < lim then Err (GasLimitTooHigh lim (max_gas_per_block c))
      else Ok (gas_with_config lim c))"

definition remaining :: "gas_meter \<Rightarrow> u64" where
  "remaining m = saturating_sub (limit m) (used m)"

definition net_used :: "gas_meter \<Rightarrow> u64" where
  "net_used m = saturating_sub (used m) (refund m)"

definition refresh_refund_cache :: "gas_meter \<Rightarrow> gas_meter" where
  "refresh_refund_cache m = m\<lparr>max_refund_cache := used m div refund_quotient (gas_conf m)\<rparr>"

definition charge :: "gas_meter \<Rightarrow> u64 \<Rightarrow> gas_meter \<times> (gas_error, unit) result" where
  "charge m amt =
     (if refund_applied m then (m, Err ChargeAfterRefund)
      else if amt = 0 then (m, Ok ())
      else case checked_add 64 (used m) amt of
          None \<Rightarrow> (m, Err Gas_Overflow)
        | Some new_used \<Rightarrow>
            (if limit m < new_used
             then let m' = refresh_refund_cache (m\<lparr>used := limit m\<rparr>)
               in (m', Err (OutOfGas amt (saturating_sub (limit m') (used m'))))
             else (refresh_refund_cache (m\<lparr>used := new_used\<rparr>), Ok ())))"

definition can_charge :: "gas_meter \<Rightarrow> u64 \<Rightarrow> bool" where
  "can_charge m amt = (\<not> refund_applied m \<and> saturating_add 64 (used m) amt \<le> limit m)"

definition charge_if :: "gas_meter \<Rightarrow> bool \<Rightarrow> u64 \<Rightarrow> gas_meter \<times> (gas_error, u64) result" where
  "charge_if m condition amt =
     (if condition
      then case charge m amt of
          (m', Ok _) \<Rightarrow> (m', Ok amt)
        | (m', Err e) \<Rightarrow> (m', Err e)
        | (m', Panic) \<Rightarrow> (m', Panic)
      else (m, Ok 0))"

definition add_refund :: "gas_meter \<Rightarrow> u64 \<Rightarrow> gas_meter \<times> (gas_error, unit) result" where
  "add_refund m amt =
     (if refund_applied m then (m, Err RefundAlreadyApplied)
      else if amt = 0 then (m, Ok ())
      else case checked_add 64 (refund m) amt of
          None \<Rightarrow> (m, Err Gas_Overflow)
        | Some requested \<Rightarrow>
            (let cap = max_refund_cache m in
             if cap < requested then (m\<lparr>refund := cap\<rparr>, Ok ()) else (m\<lparr>refund := requested\<rparr>, Ok ())))"

definition apply_refund :: "gas_meter \<Rightarrow> gas_meter \<times> u64" where
  "apply_refund m =
     (if refund_applied m then (m, used m)
      else let effective = min (refund m) (used m);
               m' = refresh_refund_cache
                 (m\<lparr>used := saturating_sub (used m) effective, refund := 0, refund_applied := True\<rparr>)
        in (m', used m'))"

definition bytes_to_words :: "usize \<Rightarrow> usize option" where
  \<comment> \<open>\<open>None\<close>: the addition overflows and the call panics\<close>
  "bytes_to_words n = map_option (\<lambda>x. x div 32) (checked_add 64 n 31)"

definition memory_cost_words_with_config :: "usize \<Rightarrow> gas_config \<Rightarrow> u64" where
  "memory_cost_words_with_config w c =
     saturating_add 64 (saturating_mul 64 w (memory_word_gas c))
       (saturating_mul 64 w w div memory_quadratic_denom c)"

definition charge_memory_expansion ::
  "gas_meter \<Rightarrow> usize \<Rightarrow> usize \<Rightarrow> gas_meter \<times> (gas_error, u64) result" where
  "charge_memory_expansion m current_words new_words =
     (if new_words \<le> current_words then (m, Ok 0)
      else case checked_sub (memory_cost_words_with_config new_words (gas_conf m))
               (memory_cost_words_with_config current_words (gas_conf m)) of
          None \<Rightarrow> (m, Err Gas_Overflow)
        | Some additional \<Rightarrow>
            (if 0 < additional
             then case charge m additional of
                 (m', Ok _) \<Rightarrow> (m', Ok additional)
               | (m', Err e) \<Rightarrow> (m', Err e)
               | (m', Panic) \<Rightarrow> (m', Panic)
             else (m, Ok additional)))"

definition charge_memory_expansion_bytes ::
  "gas_meter \<Rightarrow> usize \<Rightarrow> usize \<Rightarrow> gas_meter \<times> (gas_error, u64) result" where
  "charge_memory_expansion_bytes m current_bytes new_bytes =
     (case (bytes_to_words current_bytes, bytes_to_words new_bytes) of
        (Some c, Some n) \<Rightarrow> charge_memory_expansion m c n
      | _ \<Rightarrow> (m, Panic))"

definition charge_memory_copy :: "gas_meter \<Rightarrow> usize \<Rightarrow> gas_meter \<times> (gas_error, unit) result" where
  "charge_memory_copy m n =
     (case bytes_to_words n of
        None \<Rightarrow> (m, Panic)
      | Some w \<Rightarrow> charge m (saturating_mul 64 w (memory_word_gas (gas_conf m))))"

definition gas_fork :: "gas_meter \<Rightarrow> u64 \<Rightarrow> gas_meter" where
  "gas_fork m new_limit =
     refresh_refund_cache
       \<lparr>limit = max (min new_limit (max_gas_per_tx (gas_conf m))) 1, used = used m, refund = refund m,
        max_refund_cache = 0, refund_applied = False, gas_conf = gas_conf m\<rparr>"

definition gas_restore :: "gas_meter \<Rightarrow> gas_meter \<Rightarrow> gas_meter \<times> (gas_error, unit) result" where
  "gas_restore m snap =
     (if limit snap \<noteq> limit m then (m, Err (SnapshotMismatch (limit m) (limit snap)))
      else (refresh_refund_cache (snap\<lparr>gas_conf := gas_conf m\<rparr>), Ok ()))"

definition gas_reset :: "gas_meter \<Rightarrow> gas_meter" where
  "gas_reset m = m\<lparr>used := 0, refund := 0, max_refund_cache := 0, refund_applied := False\<rparr>"

subsection \<open>Invariant\<close>

definition meter_ok :: "gas_meter \<Rightarrow> bool" where
  "meter_ok m \<longleftrightarrow>
     0 < refund_quotient (gas_conf m) \<and> limit m < 2 ^ 64 - 1 \<and> used m \<le> limit m \<and>
     max_refund_cache m = used m div refund_quotient (gas_conf m) \<and>
     (\<not> refund_applied m \<longrightarrow> refund m \<le> max_refund_cache m)"

datatype gas_op =
    Charge_Op u64
  | Refund_Op u64
  | Expand_Op usize usize

fun gas_step :: "gas_meter \<Rightarrow> gas_op \<Rightarrow> gas_meter" where
  "gas_step m (Charge_Op n) = fst (charge m n)"
| "gas_step m (Refund_Op n) = fst (add_refund m n)"
| "gas_step m (Expand_Op c n) = fst (charge_memory_expansion m c n)"

definition gas_run :: "gas_meter \<Rightarrow> gas_op list \<Rightarrow> gas_meter" where
  "gas_run m ops = foldl gas_step m ops"

lemma refresh_fields [simp]:
  "limit (refresh_refund_cache m) = limit m" "used (refresh_refund_cache m) = used m"
  "refund (refresh_refund_cache m) = refund m"
  "refund_applied (refresh_refund_cache m) = refund_applied m"
  "gas_conf (refresh_refund_cache m) = gas_conf m"
  "max_refund_cache (refresh_refund_cache m) = used m div refund_quotient (gas_conf m)"
  by (simp_all add: refresh_refund_cache_def)

lemma meter_ok_with_config:
  "gas_config_validate c = Ok () \<Longrightarrow> max_gas_per_tx c < 2 ^ 64 - 1 \<Longrightarrow> meter_ok (gas_with_config lim c)"
  by (auto simp: gas_config_validate_def meter_ok_def gas_with_config_def split: if_splits)

text \<open>A charge in a well-formed meter, by cases.\<close>

lemma charge_cases:
  assumes "meter_ok m" "\<not> refund_applied m"
  shows "charge m n =
    (if n = 0 then (m, Ok ())
     else if 2 ^ 64 \<le> used m + n then (m, Err Gas_Overflow)
     else if limit m < used m + n
     then (refresh_refund_cache (m\<lparr>used := limit m\<rparr>), Err (OutOfGas n 0))
     else (refresh_refund_cache (m\<lparr>used := used m + n\<rparr>), Ok ()))"
  using assms by (auto simp: charge_def checked_add_def Let_def saturating_sub_def)

lemma charge_keeps:
  assumes ok: "meter_ok m" and na: "\<not> refund_applied m"
  shows "meter_ok (fst (charge m n)) \<and> \<not> refund_applied (fst (charge m n)) \<and>
    used m \<le> used (fst (charge m n)) \<and> limit (fst (charge m n)) = limit m \<and>
    gas_conf (fst (charge m n)) = gas_conf m"
  using ok na div_le_mono [of "used m" "used m + n" "refund_quotient (gas_conf m)"]
    div_le_mono [of "used m" "limit m" "refund_quotient (gas_conf m)"]
  unfolding charge_cases [OF ok na] by (auto simp: meter_ok_def)

lemma add_refund_keeps:
  assumes "meter_ok m" "\<not> refund_applied m"
  shows "meter_ok (fst (add_refund m n)) \<and> \<not> refund_applied (fst (add_refund m n)) \<and>
    used (fst (add_refund m n)) = used m \<and> limit (fst (add_refund m n)) = limit m \<and>
    gas_conf (fst (add_refund m n)) = gas_conf m \<and> refund m \<le> refund (fst (add_refund m n))"
  using assms by (auto simp: add_refund_def checked_add_def Let_def meter_ok_def)

lemma memory_cost_mono:
  assumes "a \<le> b"
  shows "memory_cost_words_with_config a c \<le> memory_cost_words_with_config b c"
proof -
  have "saturating_mul 64 a (memory_word_gas c) \<le> saturating_mul 64 b (memory_word_gas c)"
    "saturating_mul 64 a a \<le> saturating_mul 64 b b"
    unfolding saturating_mul_def by (intro min.mono mult_le_mono assms order_refl)+
  then show ?thesis
    unfolding memory_cost_words_with_config_def saturating_add_def
    by (intro min.mono add_mono div_le_mono order_refl)
qed

lemma expansion_eq:
  "charge_memory_expansion m a b =
     (let d = memory_cost_words_with_config b (gas_conf m) - memory_cost_words_with_config a (gas_conf m)
      in if b \<le> a \<or> d = 0 then (m, Ok 0)
         else case charge m d of (m', Ok _) \<Rightarrow> (m', Ok d) | (m', Err e) \<Rightarrow> (m', Err e) | (m', Panic) \<Rightarrow> (m', Panic))"
  using memory_cost_mono [of a b "gas_conf m"]
  by (auto simp: charge_memory_expansion_def checked_sub_def Let_def)

lemma expansion_keeps:
  assumes ok: "meter_ok m" and na: "\<not> refund_applied m"
  shows "meter_ok (fst (charge_memory_expansion m a b)) \<and>
    \<not> refund_applied (fst (charge_memory_expansion m a b)) \<and>
    used m \<le> used (fst (charge_memory_expansion m a b)) \<and>
    limit (fst (charge_memory_expansion m a b)) = limit m \<and>
    gas_conf (fst (charge_memory_expansion m a b)) = gas_conf m"
proof -
  let ?d = "memory_cost_words_with_config b (gas_conf m) - memory_cost_words_with_config a (gas_conf m)"
  have "fst (charge_memory_expansion m a b) = m \<or> fst (charge_memory_expansion m a b) = fst (charge m ?d)"
    by (auto simp: expansion_eq Let_def split: prod.splits result.splits)
  then show ?thesis using charge_keeps [OF ok na, of ?d] ok na by auto
qed

lemma gas_step_keeps:
  assumes "meter_ok m" "\<not> refund_applied m"
  shows "meter_ok (gas_step m op) \<and> \<not> refund_applied (gas_step m op) \<and> used m \<le> used (gas_step m op) \<and>
    limit (gas_step m op) = limit m \<and> gas_conf (gas_step m op) = gas_conf m"
proof (cases op)
  case (Charge_Op n)
  then show ?thesis using charge_keeps [OF assms, of n] by simp
next
  case (Refund_Op n)
  then show ?thesis using add_refund_keeps [OF assms, of n] by simp
next
  case (Expand_Op a b)
  then show ?thesis using expansion_keeps [OF assms, of a b] by simp
qed

text \<open>C18: Gas accounting is sound. Whatever charges, refunds and memory expansions run on a meter whose
  refund has not been applied, the gas used never decreases and never exceeds the limit; the pending
  refund stays within \<open>used / refund_quotient\<close>; and applying it at the end leaves at least
  \<open>used - used / refund_quotient\<close> to pay, once: a second application changes nothing.\<close>

theorem gas_run_sound:
  assumes "meter_ok m" and "\<not> refund_applied m"
  shows "used m \<le> used (gas_run m ops) \<and> used (gas_run m ops) \<le> limit m \<and>
    refund (gas_run m ops) \<le> used (gas_run m ops) div refund_quotient (gas_conf m) \<and>
    (\<exists>m'. apply_refund (gas_run m ops) = (m', used (gas_run m ops) - refund (gas_run m ops)) \<and>
      used (gas_run m ops) - used (gas_run m ops) div refund_quotient (gas_conf m) \<le> used m' \<and>
      apply_refund m' = (m', used m'))"
proof -
  have keep: "meter_ok (foldl gas_step m ops) \<and> \<not> refund_applied (foldl gas_step m ops) \<and>
      used m \<le> used (foldl gas_step m ops) \<and> limit (foldl gas_step m ops) = limit m \<and>
      gas_conf (foldl gas_step m ops) = gas_conf m"
    using assms
  proof (induction ops arbitrary: m)
    case (Cons op ops)
    note K = gas_step_keeps [OF Cons.prems, of op]
    show ?case using Cons.IH [of "gas_step m op"] K by auto
  qed simp
  define r where "r = gas_run m ops"
  have r: "meter_ok r" "\<not> refund_applied r" "used m \<le> used r" "limit r = limit m" "gas_conf r = gas_conf m"
    using keep by (simp_all add: r_def gas_run_def)
  have le: "refund r \<le> used r div refund_quotient (gas_conf m)" "used r \<le> limit m"
    using r by (simp_all add: meter_ok_def)
  then have "refund r \<le> used r" by (meson div_le_dividend le_trans)
  then show ?thesis
    using r le unfolding r_def [symmetric]
    by (auto simp: apply_refund_def Let_def saturating_sub_def min_absorb1)
qed

theorem gas_run_sound_witness:
  "used (gas_run (gas_with_config 100000 gas_config_default) [Charge_Op 50000, Refund_Op 40000, Expand_Op 0 10])
     \<le> 100000"
proof -
  have "meter_ok (gas_with_config 100000 gas_config_default)"
    by (rule meter_ok_with_config) (simp_all add: gas_config_validate_def gas_config_default_def gas_constants)
  from gas_run_sound [OF this, of "[Charge_Op 50000, Refund_Op 40000, Expand_Op 0 10]"] show ?thesis
    by (simp add: gas_with_config_def gas_config_default_def gas_constants)
qed

text \<open>\<open>can_charge\<close> predicts \<open>charge\<close>: on a well-formed meter a charge succeeds exactly when
  \<open>can_charge\<close> says so, and then exactly the amount is added; a charge that does not fit and does not
  overflow 64 bits consumes all remaining gas.\<close>

theorem charge_iff_can_charge:
  assumes "meter_ok m"
  shows "((\<exists>m'. charge m n = (m', Ok ())) \<longleftrightarrow> can_charge m n) \<and>
    used (fst (charge m n)) =
      (if can_charge m n then used m + n
       else if refund_applied m \<or> 2 ^ 64 \<le> used m + n then used m else limit m)"
  using assms
  by (auto simp: charge_def can_charge_def meter_ok_def checked_add_def saturating_add_def
      saturating_sub_def Let_def split: if_splits)

theorem charge_iff_can_charge_witness:
  "used (fst (charge (gas_with_config 100 gas_config_default) 70)) = 70 \<and>
   used (fst (charge (gas_with_config 100 gas_config_default) 170)) = 100"
proof -
  have ok: "meter_ok (gas_with_config 100 gas_config_default)"
    by (rule meter_ok_with_config) (simp_all add: gas_config_validate_def gas_config_default_def gas_constants)
  show ?thesis
    using charge_iff_can_charge [OF ok, of 70] charge_iff_can_charge [OF ok, of 170]
    by (simp add: can_charge_def gas_with_config_def gas_config_default_def gas_constants saturating_add_def)
qed

text \<open>Memory expansion is priced path-independently: growing from \<open>a\<close> to \<open>b\<close> words and on to \<open>c\<close>
  costs the same gas as growing from \<open>a\<close> to \<open>c\<close> at once, when the meter can pay for it.\<close>

theorem memory_expansion_additive:
  assumes "meter_ok m" and "\<not> refund_applied m" and "a \<le> b" and "b \<le> c"
    and "used m + (memory_cost_words_with_config c (gas_conf m)
      - memory_cost_words_with_config a (gas_conf m)) \<le> limit m"
  shows "used (fst (charge_memory_expansion (fst (charge_memory_expansion m a b)) b c))
    = used (fst (charge_memory_expansion m a c))"
proof -
  let ?f = "\<lambda>x. memory_cost_words_with_config x (gas_conf m)"
  have mono: "?f a \<le> ?f b" "?f b \<le> ?f c" using memory_cost_mono assms(3,4) by blast+
  have step: "used (fst (charge_memory_expansion m' x y)) = used m' + (?f y - ?f x)"
    if "meter_ok m'" "\<not> refund_applied m'" "gas_conf m' = gas_conf m" "limit m' = limit m"
      "x \<le> y" "used m' + (?f y - ?f x) \<le> limit m" for m' x y
  proof -
    have "used m' + (?f y - ?f x) < 2 ^ 64" using that assms(1) by (simp add: meter_ok_def)
    then show ?thesis
      using that charge_cases [OF that(1,2), of "?f y - ?f x"]
      by (cases "x = y") (auto simp: expansion_eq Let_def)
  qed
  have 1: "used (fst (charge_memory_expansion m a b)) = used m + (?f b - ?f a)"
    using step [of m a b] assms mono by simp
  note K = expansion_keeps [OF assms(1,2), of a b]
  have "used (fst (charge_memory_expansion (fst (charge_memory_expansion m a b)) b c))
      = used m + (?f b - ?f a) + (?f c - ?f b)"
    using step [of "fst (charge_memory_expansion m a b)" b c] K 1 assms(4,5) mono by simp
  also have "\<dots> = used m + (?f c - ?f a)" using mono by simp
  also have "\<dots> = used (fst (charge_memory_expansion m a c))"
    using step [of m a c] assms by simp
  finally show ?thesis .
qed

theorem memory_expansion_additive_witness:
  "used (fst (charge_memory_expansion (fst (charge_memory_expansion (gas_with_config 100000 gas_config_default) 0 5)) 5 40))
   = used (fst (charge_memory_expansion (gas_with_config 100000 gas_config_default) 0 40))"
proof -
  have ok: "meter_ok (gas_with_config 100000 gas_config_default)"
    by (rule meter_ok_with_config) (simp_all add: gas_config_validate_def gas_config_default_def gas_constants)
  show ?thesis
    using memory_expansion_additive [OF ok, of 0 5 40]
    by (simp add: gas_with_config_def gas_config_default_def gas_constants
        memory_cost_words_with_config_def saturating_defs)
qed

text \<open>A forked meter can lose gas already spent. A fork keeps the parent's \<open>used\<close> but takes the
  smaller limit of the sub-call; if the parent had used more than that limit, the first charge in the
  fork that does not overflow runs out of gas and lowers \<open>used\<close> to the fork's limit.\<close>

theorem fork_charge_lowers_used:
  assumes "0 < n" and "used m + n < 2 ^ 64" and "new_limit < used m" and "0 < new_limit"
    and "new_limit \<le> max_gas_per_tx (gas_conf m)"
  shows "\<exists>m'. charge (gas_fork m new_limit) n = (m', Err (OutOfGas n 0)) \<and>
    used m' = new_limit \<and> used m' < used (gas_fork m new_limit)"
  using assms
  by (simp add: charge_def gas_fork_def checked_add_def Let_def saturating_sub_def)

theorem fork_charge_lowers_used_witness:
  "\<exists>m'. charge (gas_fork ((gas_with_config 100000 gas_config_default)\<lparr>used := 60000\<rparr>) 30000) 1
     = (m', Err (OutOfGas 1 0)) \<and> used m' = 30000"
  using fork_charge_lowers_used [of 1 "(gas_with_config 100000 gas_config_default)\<lparr>used := 60000\<rparr>" 30000]
  by (auto simp: gas_with_config_def gas_config_default_def gas_constants)

end
