(* ===== verification/Vm_Word.thy ===== *)
theory Vm_Word
  imports Vm_Memory
begin

unbundle bit_operations_syntax

text \<open>
  The 256-bit word arithmetic of the interpreter, \<open>src/vm/interpreter.rs\<close> (word helpers, word
  arithmetic, shifts, long division, limb conversion). A word is the list of its 32 bytes, most
  significant first, as in the code; a loop \<open>for i in (0..32).rev()\<close> with a carry is a recursion over
  the reversed list. \<open>be_val\<close> is the number a word denotes, and the lemmas relate each routine to
  arithmetic on it: addition, subtraction, negation, comparison, division and shifts are correct;
  multiplication, \<open>ADDMOD\<close> and signed division are not, and the theorems say exactly how.
\<close>

type_synonym word256 = "byte list"

subsection \<open>Helpers\<close>

definition word_is_zero :: "word256 \<Rightarrow> bool" where
  "word_is_zero w = list_all (\<lambda>b. b = 0) w"

definition word_is_negative :: "word256 \<Rightarrow> bool" where
  "word_is_negative w = (w ! 0 AND 0x80 \<noteq> 0)"

definition word_fits_u64 :: "word256 \<Rightarrow> bool" where
  "word_fits_u64 w = list_all (\<lambda>b. b = 0) (take 24 w)"

fun le_val :: "byte list \<Rightarrow> nat" where
  "le_val [] = 0"
| "le_val (b # bs) = unat b + 256 * le_val bs"

definition be_val :: "byte list \<Rightarrow> nat" where
  "be_val w = le_val (rev w)"

definition to_be_bytes :: "nat \<Rightarrow> nat \<Rightarrow> byte list" where
  \<comment> \<open>\<open>to_be_bytes\<close> of an integer of \<open>len\<close> bytes\<close>
  "to_be_bytes len n = rev (to_le_bytes len n)"

definition word_to_u64_unchecked :: "word256 \<Rightarrow> u64" where
  "word_to_u64_unchecked w = be_val (drop 24 w)"

definition word_to_u64_checked :: "word256 \<Rightarrow> u64 option" where
  \<comment> \<open>\<open>None\<close> is the error; \<open>word_to_usize_checked\<close> differs in the error only\<close>
  "word_to_u64_checked w = (if word_fits_u64 w then Some (word_to_u64_unchecked w) else None)"

definition word_from_u64 :: "u64 \<Rightarrow> word256" where
  "word_from_u64 v = replicate 24 0 @ to_be_bytes 8 v"

definition word_from_bool :: "bool \<Rightarrow> word256" where
  "word_from_bool v = replicate 31 0 @ [if v then 1 else 0]"

definition zero256 :: word256 where
  "zero256 = replicate 32 0"

subsection \<open>Arithmetic\<close>

fun add_bytes :: "byte list \<Rightarrow> byte list \<Rightarrow> nat \<Rightarrow> byte list \<times> nat" where
  "add_bytes (x # xs) (y # ys) carry =
     (let s = unat x + unat y + carry; (r, c) = add_bytes xs ys (s div 256)
      in (of_nat s # r, c))"
| "add_bytes _ _ carry = ([], carry)"

definition word_add_with_carry :: "word256 \<Rightarrow> word256 \<Rightarrow> word256 \<times> bool" where
  "word_add_with_carry a b = (let (r, c) = add_bytes (rev a) (rev b) 0 in (rev r, c \<noteq> 0))"

definition word_add :: "word256 \<Rightarrow> word256 \<Rightarrow> word256" where
  "word_add a b = rev (fst (add_bytes (rev a) (rev b) 0))"

fun sub_bytes :: "byte list \<Rightarrow> byte list \<Rightarrow> int \<Rightarrow> byte list" where
  "sub_bytes (x # xs) (y # ys) borrow =
     (let diff = int (unat x) - int (unat y) - borrow
      in of_int (diff AND 0xFF) # sub_bytes xs ys (if diff < 0 then 1 else 0))"
| "sub_bytes _ _ borrow = []"

definition word_sub :: "word256 \<Rightarrow> word256 \<Rightarrow> word256" where
  "word_sub a b = rev (sub_bytes (rev a) (rev b) 0)"

fun neg_bytes :: "byte list \<Rightarrow> nat \<Rightarrow> byte list" where
  "neg_bytes [] carry = []"
| "neg_bytes (x # xs) carry =
     (let comp = unat (NOT x) + carry in of_nat comp # neg_bytes xs (comp div 256))"

definition word_neg :: "word256 \<Rightarrow> word256" where
  "word_neg a = rev (neg_bytes (rev a) 1)"

text \<open>Limbs as the code has them: limb \<open>i\<close> is read from bytes \<open>8 i\<close> to \<open>8 i + 7\<close>.\<close>

definition bytes_to_u64_le :: "word256 \<Rightarrow> u64 list" where
  "bytes_to_u64_le w = map (\<lambda>i. be_val (slice_of w (i * 8) 8)) [0..<4]"

definition u64_le_to_bytes :: "u64 list \<Rightarrow> word256" where
  "u64_le_to_bytes limbs = concat (map (\<lambda>i. to_be_bytes 8 (limbs ! i)) [0..<4])"

definition mul_inner :: "u64 list \<Rightarrow> u64 list \<Rightarrow> nat \<Rightarrow> u64 list \<times> u64 \<Rightarrow> nat \<Rightarrow> u64 list \<times> u64" where
  "mul_inner a b i st j =
     (let (res, carry) = st; k = i + j; prod = a ! i * b ! j + res ! k + carry
      in (res[k := prod mod 2 ^ 64], prod div 2 ^ 64))"

definition word_mul :: "word256 \<Rightarrow> word256 \<Rightarrow> word256" where
  "word_mul x y =
     (let a = bytes_to_u64_le x; b = bytes_to_u64_le y in
      u64_le_to_bytes
        (foldl (\<lambda>res i. fst (foldl (mul_inner a b i) (res, 0) [0..<4 - i])) [0, 0, 0, 0] [0..<4]))"

subsection \<open>Division\<close>

fun shl1_bytes :: "byte list \<Rightarrow> byte \<Rightarrow> byte list" where
  "shl1_bytes [] carry = []"
| "shl1_bytes (x # xs) carry = (push_bit 1 x OR carry) # shl1_bytes xs (drop_bit 7 x)"

definition set_low_bit :: "word256 \<Rightarrow> byte \<Rightarrow> word256" where
  \<comment> \<open>\<open>rem[31] |= bit\<close>\<close>
  "set_low_bit w b = w[31 := (w ! 31) OR b]"

definition shift_in :: "word256 \<Rightarrow> byte \<Rightarrow> word256" where
  \<comment> \<open>shift \<open>rem\<close> left by one bit and bring in \<open>bit\<close>\<close>
  "shift_in rem b = set_low_bit (rev (shl1_bytes (rev rem) 0)) b"

definition div_step :: "word256 \<Rightarrow> word256 \<Rightarrow> word256 \<times> word256 \<Rightarrow> nat \<Rightarrow> word256 \<times> word256" where
  "div_step a b st i =
     (let (quo, rem) = st;
          byte_idx = i div 8;
          bit_idx = 7 - i mod 8;
          rem2 = shift_in rem (drop_bit bit_idx (a ! byte_idx) AND 1)
      in if b \<le> rem2
         then (quo[byte_idx := (quo ! byte_idx) OR push_bit bit_idx 1], word_sub rem2 b)
         else (quo, rem2))"

definition long_divide :: "word256 \<Rightarrow> word256 \<Rightarrow> word256 \<times> word256" where
  "long_divide a b = foldl (div_step a b) (replicate 32 0, replicate 32 0) [0..<256]"

text \<open>
  The reduction of a 512-bit product. The quotient array has 32 bytes while \<open>byte_idx\<close> runs to 63:
  a quotient bit in the second half is an index out of range, which panics (\<open>None\<close>).
\<close>

definition div512_step :: "byte list \<Rightarrow> word256 \<Rightarrow> (word256 \<times> word256) option \<Rightarrow> nat \<Rightarrow> (word256 \<times> word256) option" where
  "div512_step product m st i =
     (case st of
        None \<Rightarrow> None
      | Some (quo, rem) \<Rightarrow>
          (let byte_idx = i div 8;
               bit_idx = 7 - i mod 8;
               rem2 = shift_in rem (drop_bit bit_idx (product ! byte_idx) AND 1)
           in if m \<le> rem2
              then if byte_idx < length quo
                   then Some (quo[byte_idx := (quo ! byte_idx) OR push_bit bit_idx 1], word_sub rem2 m)
                   else None
              else Some (quo, rem2)))"

definition long_divide_512_by_256 :: "byte list \<Rightarrow> word256 \<Rightarrow> word256 option" where
  "long_divide_512_by_256 product m =
     map_option snd (foldl (div512_step product m) (Some (replicate 32 0, replicate 32 0)) [0..<512])"

function prop_carry :: "u64 list \<Rightarrow> u64 \<Rightarrow> nat \<Rightarrow> u64 list" where
  "prop_carry res carry k =
     (if carry \<noteq> 0 \<and> k < 8
      then prop_carry (res[k := (res ! k + carry) mod 2 ^ 64]) ((res ! k + carry) div 2 ^ 64) (k + 1)
      else res)"
  by pat_completeness auto
termination by (relation "measure (\<lambda>(_, _, k). 8 - k)") auto

declare prop_carry.simps [simp del]

definition word_mul_full :: "word256 \<Rightarrow> word256 \<Rightarrow> byte list" where
  "word_mul_full x y =
     (let a = bytes_to_u64_le x; b = bytes_to_u64_le y;
          res = foldl (\<lambda>res i. let (res', carry) = foldl (mul_inner a b i) (res, 0) [0..<4]
                                in prop_carry res' carry (i + 4)) (replicate 8 0) [0..<4]
      in concat (map (\<lambda>i. to_le_bytes 8 (res ! (7 - i))) [0..<8]))"

definition word_mulmod :: "word256 \<Rightarrow> word256 \<Rightarrow> word256 \<Rightarrow> word256 option" where
  "word_mulmod a b m =
     (if word_is_zero m then Some zero256 else long_divide_512_by_256 (word_mul_full a b) m)"

definition word_div :: "word256 \<Rightarrow> word256 \<Rightarrow> word256" where
  "word_div a b = (if word_is_zero b then zero256 else fst (long_divide a b))"

definition word_mod :: "word256 \<Rightarrow> word256 \<Rightarrow> word256" where
  "word_mod a b = (if word_is_zero b then zero256 else snd (long_divide a b))"

definition word_sdiv :: "word256 \<Rightarrow> word256 \<Rightarrow> word256" where
  "word_sdiv a b =
     (if word_is_zero b then zero256
      else let a_neg = word_is_negative a;
               b_neg = word_is_negative b;
               a_abs = (if a_neg then word_neg a else a);
               b_abs = (if b_neg then word_neg b else b)
        in if a_neg \<and> \<not> b_neg \<and> a_abs = b_abs then a
           else let q = word_div a_abs b_abs in if a_neg \<noteq> b_neg then word_neg q else q)"

definition word_smod :: "word256 \<Rightarrow> word256 \<Rightarrow> word256" where
  "word_smod a b =
     (if word_is_zero b then zero256
      else let a_neg = word_is_negative a;
               b_neg = word_is_negative b;
               a_abs = (if a_neg then word_neg a else a);
               b_abs = (if b_neg then word_neg b else b);
               r = word_mod a_abs b_abs
        in if a_neg \<and> \<not> word_is_zero r then word_neg r else r)"

definition word_addmod :: "word256 \<Rightarrow> word256 \<Rightarrow> word256 \<Rightarrow> word256" where
  "word_addmod a b m =
     (if word_is_zero m then zero256
      else let (s, carry) = word_add_with_carry a b in
        if carry
        then let (s', c) = word_add_with_carry (word_mod a m) (word_mod b m) in
          if c then word_sub s' m else if m \<le> s' then word_sub s' m else s'
        else if m \<le> s then word_sub s m else s)"

definition word_signextend :: "word256 \<Rightarrow> word256 \<Rightarrow> word256" where
  "word_signextend a b =
     (case word_to_u64_checked a of
        None \<Rightarrow> b
      | Some byte_idx \<Rightarrow>
          (if 32 \<le> byte_idx then b
           else let sign_bit = drop_bit 7 (b ! (31 - byte_idx)) AND 1
             in replicate (31 - byte_idx) (if sign_bit = 1 then 0xFF else 0) @ drop (31 - byte_idx) b))"

function exp_loop :: "word256 \<Rightarrow> word256 \<Rightarrow> u64 \<Rightarrow> word256" where
  "exp_loop res base_p e_p =
     (if e_p = 0 then res
      else exp_loop (if e_p mod 2 = 1 then word_mul res base_p else res) (word_mul base_p base_p) (e_p div 2))"
  by pat_completeness auto
termination by (relation "measure (\<lambda>(_, _, e). e)") auto

declare exp_loop.simps [simp del]

definition word_exp :: "word256 \<Rightarrow> word256 \<Rightarrow> word256" where
  "word_exp base exp =
     (if word_is_zero exp then word_from_u64 1
      else exp_loop (word_from_u64 1) base (word_to_u64_unchecked exp))"

fun exp_byte_len :: "word256 \<Rightarrow> u64" where
  "exp_byte_len [] = 0"
| "exp_byte_len (b # bs) = (if b \<noteq> 0 then Suc (length bs) else exp_byte_len bs)"

subsection \<open>Shifts\<close>

definition shift_amount :: "word256 \<Rightarrow> nat option" where
  \<comment> \<open>the guard that opens \<open>word_shl\<close>, \<open>word_shr\<close> and \<open>word_sar\<close>\<close>
  "shift_amount shift =
     (case word_to_u64_checked shift of
        Some v \<Rightarrow> if v < 256 then Some v else None
      | None \<Rightarrow> None)"

definition word_shl :: "word256 \<Rightarrow> word256 \<Rightarrow> word256" where
  "word_shl shift v =
     (case shift_amount shift of
        None \<Rightarrow> zero256
      | Some s \<Rightarrow>
          (if s = 0 then v
           else let byte_shift = s div 8; bit_shift = s mod 8 in
             map (\<lambda>i.
               let hi = (if i + byte_shift < 32 then v ! (i + byte_shift) else 0);
                   lo = (if 0 < bit_shift \<and> i + byte_shift + 1 < 32 then v ! (i + byte_shift + 1) else 0)
               in if bit_shift = 0 then hi else push_bit bit_shift hi OR drop_bit (8 - bit_shift) lo)
               [0..<32]))"

definition word_shr :: "word256 \<Rightarrow> word256 \<Rightarrow> word256" where
  "word_shr shift v =
     (case shift_amount shift of
        None \<Rightarrow> zero256
      | Some s \<Rightarrow>
          (if s = 0 then v
           else let byte_shift = s div 8; bit_shift = s mod 8 in
             map (\<lambda>i.
               let lo = (if byte_shift \<le> i then v ! (i - byte_shift) else 0);
                   hi = (if 0 < bit_shift \<and> byte_shift + 1 \<le> i then v ! (i - byte_shift - 1) else 0)
               in if bit_shift = 0 then lo else drop_bit bit_shift lo OR push_bit (8 - bit_shift) hi)
               [0..<32]))"

definition word_sar :: "word256 \<Rightarrow> word256 \<Rightarrow> word256" where
  "word_sar shift v =
     (let negative = word_is_negative v; fill = (if negative then 0xFF else 0) in
      case shift_amount shift of
        None \<Rightarrow> replicate 32 fill
      | Some s \<Rightarrow>
          (if s = 0 then v
           else let byte_shift = s div 8; bit_shift = s mod 8 in
             map (\<lambda>i.
               if i < byte_shift then fill
               else let lo = v ! (i - byte_shift);
                        hi = (if 0 < bit_shift \<and> byte_shift < i then v ! (i - byte_shift - 1)
                              else if 0 < bit_shift then fill else 0)
                 in if bit_shift = 0 then lo else drop_bit bit_shift lo OR push_bit (8 - bit_shift) hi)
               [0..<32]))"

subsection \<open>Values\<close>

lemma unat_byte: "unat (b :: byte) < 256"
  by (rule order_less_le_trans [OF unsigned_less]) simp

lemma le_val_bound: "le_val bs < 256 ^ length bs"
proof (induction bs)
  case (Cons b bs)
  then have "le_val bs + 1 \<le> 256 ^ length bs" by simp
  then have "256 * (le_val bs + 1) \<le> 256 * 256 ^ length bs" by (rule mult_le_mono2)
  then show ?case using unat_byte [of b] by simp
qed simp

lemma le_val_append: "le_val (xs @ ys) = le_val xs + 256 ^ length xs * le_val ys"
  by (induction xs) (simp_all add: algebra_simps)

lemma le_val_zero [simp]: "le_val (replicate n 0) = 0"
  by (induction n) auto

lemma be_val_Cons: "be_val (b # bs) = unat b * 256 ^ length bs + be_val bs"
  by (simp add: be_val_def le_val_append)

lemma be_val_Nil [simp]: "be_val [] = 0"
  by (simp add: be_val_def)

lemma be_val_bound: "be_val w < 256 ^ length w"
  using le_val_bound [of "rev w"] by (simp add: be_val_def)

lemma be_val_zero [simp]: "be_val (replicate n 0) = 0"
  by (simp add: be_val_def)

lemma le_val_inj: "length xs = length ys \<Longrightarrow> le_val xs = le_val ys \<Longrightarrow> xs = ys"
proof (induction xs ys rule: list_induct2)
  case (Cons x xs y ys)
  have "unat x mod 256 = unat x" "unat y mod 256 = unat y" using unat_byte by simp_all
  moreover have "(unat x + 256 * le_val xs) mod 256 = (unat y + 256 * le_val ys) mod 256"
    using Cons.prems by simp
  ultimately have "unat x = unat y" by simp
  then show ?case using Cons by (simp add: word_unat_eq_iff)
qed simp

lemma be_val_inj: "length xs = length ys \<Longrightarrow> be_val xs = be_val ys \<Longrightarrow> xs = ys"
  using le_val_inj [of "rev xs" "rev ys"] by (simp add: be_val_def)

lemma le_val_bytes: "n < 256 ^ len \<Longrightarrow> le_val (to_le_bytes len n) = n"
proof (induction len arbitrary: n)
  case (Suc len)
  then have "n div 256 < 256 ^ len" by (simp add: less_mult_imp_div_less mult.commute)
  then show ?case using Suc.IH by (simp add: unat_of_nat)
qed simp

lemma be_val_bytes: "n < 256 ^ len \<Longrightarrow> be_val (to_be_bytes len n) = n"
  by (simp add: be_val_def to_be_bytes_def le_val_bytes)

lemma be_bytes_length [simp]: "length (to_be_bytes len n) = len"
  by (simp add: to_be_bytes_def)

text \<open>The lexicographic order of byte arrays of one length is the order of the numbers.\<close>

lemma be_val_less: "length xs = length ys \<Longrightarrow> xs < ys \<longleftrightarrow> be_val xs < be_val ys"
proof (induction xs ys rule: list_induct2)
  case (Cons x xs y ys)
  have b: "be_val xs < 256 ^ length ys" "be_val ys < 256 ^ length ys"
    using be_val_bound [of xs] be_val_bound [of ys] Cons.hyps by simp_all
  consider "x < y" | "x = y" | "y < x" by fastforce
  then show ?case
  proof cases
    case 1
    then have "unat x + 1 \<le> unat y" by (simp add: word_less_nat_alt)
    then have "(unat x + 1) * 256 ^ length ys \<le> unat y * 256 ^ length ys" by (rule mult_le_mono1)
    then have "be_val (x # xs) < be_val (y # ys)" using b Cons.hyps by (simp add: be_val_Cons)
    then show ?thesis using 1 by simp
  next
    case 2
    then show ?thesis using Cons by (simp add: be_val_Cons)
  next
    case 3
    then have "unat y + 1 \<le> unat x" by (simp add: word_less_nat_alt)
    then have "(unat y + 1) * 256 ^ length ys \<le> unat x * 256 ^ length ys" by (rule mult_le_mono1)
    then have "be_val (y # ys) \<le> be_val (x # xs)" using b Cons.hyps by (simp add: be_val_Cons)
    then show ?thesis using 3 by auto
  qed
qed simp

lemma be_val_le:
  assumes "length xs = length ys"
  shows "xs \<le> ys \<longleftrightarrow> be_val xs \<le> be_val ys"
  using be_val_less [of ys xs] assms by (metis not_le)

subsection \<open>Addition, subtraction, negation\<close>

lemma add_bytes_val_aux:
  assumes "length xs = length ys" "c \<le> 1"
  shows "le_val (fst (add_bytes xs ys c)) + 256 ^ length xs * snd (add_bytes xs ys c)
      = le_val xs + le_val ys + c \<and>
    snd (add_bytes xs ys c) \<le> 1 \<and> length (fst (add_bytes xs ys c)) = length xs"
  using assms
proof (induction xs ys arbitrary: c rule: list_induct2)
  case (Cons x xs y ys)
  let ?s = "unat x + unat y + c"
  have s: "?s div 256 \<le> 1" using Cons.prems unat_byte [of x] unat_byte [of y] by simp
  obtain r c' where rc: "add_bytes xs ys (?s div 256) = (r, c')" by fastforce
  have ih: "le_val r + 256 ^ length xs * c' = le_val xs + le_val ys + ?s div 256" "c' \<le> 1"
    "length r = length xs"
    using Cons.IH [OF s] rc by simp_all
  have u: "unat (of_nat ?s :: byte) = ?s mod 256" by (simp only: unat_of_nat) simp
  have e: "add_bytes (x # xs) (y # ys) c = (of_nat ?s # r, c')" using rc by (simp add: Let_def)
  have "le_val (of_nat ?s # r) + 256 * 256 ^ length xs * c'
      = ?s mod 256 + 256 * (le_val r + 256 ^ length xs * c')"
    by (simp only: le_val.simps u) (simp add: algebra_simps)
  also have "\<dots> = ?s mod 256 + 256 * (?s div 256) + 256 * (le_val xs + le_val ys)"
    using ih(1) by simp
  also have "\<dots> = ?s + 256 * (le_val xs + le_val ys)" by simp
  finally show ?case unfolding e using ih by simp
qed simp

lemmas add_bytes_val = add_bytes_val_aux [THEN conjunct1]
  add_bytes_val_aux [THEN conjunct2, THEN conjunct1] add_bytes_val_aux [THEN conjunct2, THEN conjunct2]

lemma word_add_val:
  assumes "length a = 32" "length b = 32"
  shows "be_val (word_add a b) = (be_val a + be_val b) mod 2 ^ 256" "length (word_add a b) = 32"
proof -
  have l: "length (rev a) = length (rev b)" using assms by simp
  note A = add_bytes_val [OF l, of 0, simplified]
  have "256 ^ 32 = (2 :: nat) ^ 256" by simp
  moreover have "le_val (fst (add_bytes (rev a) (rev b) 0)) < 256 ^ 32"
    using le_val_bound [of "fst (add_bytes (rev a) (rev b) 0)"] A(3) assms by simp
  ultimately show "be_val (word_add a b) = (be_val a + be_val b) mod 2 ^ 256"
    using A(1) assms unfolding word_add_def be_val_def
    by (metis (no_types, lifting) length_rev mod_less mod_mult_self2 rev_rev_ident)
  show "length (word_add a b) = 32" using A(3) assms by (simp add: word_add_def)
qed

lemma and_FF: "(d :: int) AND 0xFF = d mod 256"
proof -
  have "d AND 0xFF = take_bit 8 d" by (simp add: take_bit_eq_mask mask_eq_exp_minus_1)
  then show ?thesis by (simp add: take_bit_eq_mod)
qed

lemma unat_of_int_mod: "int (unat (of_int (d mod 256) :: byte)) = d mod 256"
proof -
  have "int (unat (of_int (d mod 256) :: byte)) = uint (of_int (d mod 256) :: byte)" by simp
  also have "\<dots> = (d mod 256) mod 2 ^ 8" by (subst uint_word_of_int) simp
  finally show ?thesis by simp
qed

lemma sub_bytes_length: "length xs = length ys \<Longrightarrow> length (sub_bytes xs ys c) = length xs"
  by (induction xs ys arbitrary: c rule: list_induct2) (auto simp: Let_def)

lemma borrow_step:
  assumes "- 256 \<le> d" "d < (256 :: int)"
  shows "w - (if d < 0 then 1 else 0) = (d + 256 * w) div 256"
proof (cases "d < 0")
  case True
  then have "(d + 256 * w) div 256 = w - 1"
    using assms by (intro int_div_pos_eq [where r = "d + 256"]) simp_all
  then show ?thesis using True by simp
qed (use assms in simp)

lemma sub_bytes_val:
  assumes "length xs = length ys" "c = 0 \<or> c = 1"
  shows "int (le_val (sub_bytes xs ys c)) = (int (le_val xs) - int (le_val ys) - c) mod 256 ^ length xs"
  using assms
proof (induction xs ys arbitrary: c rule: list_induct2)
  case (Cons x xs y ys)
  let ?d = "int (unat x) - int (unat y) - c"
  let ?w = "int (le_val xs) - int (le_val ys)"
  have "0 \<le> c \<and> c \<le> 1" using Cons.prems by auto
  then have d: "- 256 \<le> ?d" "?d < 256" using unat_byte [of x] unat_byte [of y] by linarith+
  let ?b = "(if ?d < 0 then 1 else 0) :: int"
  have "int (le_val (sub_bytes (x # xs) (y # ys) c)) = ?d mod 256 + 256 * int (le_val (sub_bytes xs ys ?b))"
    by (simp add: Let_def and_FF unat_of_int_mod del: of_nat_unat)
  also have "int (le_val (sub_bytes xs ys ?b)) = (?w - ?b) mod 256 ^ length xs"
    by (rule Cons.IH) simp
  also have "?w - ?b = (?d + 256 * ?w) div 256" by (rule borrow_step [OF d])
  also have "?d mod 256 = (?d + 256 * ?w) mod 256" by (rule mod_mult_self2 [symmetric])
  also have "(?d + 256 * ?w) mod 256 + 256 * ((?d + 256 * ?w) div 256 mod 256 ^ length xs)
      = (?d + 256 * ?w) mod (256 * 256 ^ length xs)"
    by (simp only: zmod_zmult2_eq zero_le_power zero_le_numeral add.commute)
  also have "?d + 256 * ?w = int (le_val (x # xs)) - int (le_val (y # ys)) - c"
    by (simp del: of_nat_unat)
  finally show ?case by simp
qed simp

lemma word_sub_val:
  assumes "length a = 32" "length b = 32"
  shows "int (be_val (word_sub a b)) = (int (be_val a) - int (be_val b)) mod 2 ^ 256"
    and "length (word_sub a b) = 32"
proof -
  have "(256 :: int) ^ 32 = 2 ^ 256" by simp
  then show "int (be_val (word_sub a b)) = (int (be_val a) - int (be_val b)) mod 2 ^ 256"
    using sub_bytes_val [of "rev a" "rev b" 0] assms by (simp only: be_val_def word_sub_def) simp
  show "length (word_sub a b) = 32" using sub_bytes_length [of "rev a" "rev b" 0] assms by (simp add: word_sub_def)
qed

lemma word_sub_exact:
  assumes "length a = 32" "length b = 32" "be_val b \<le> be_val a"
  shows "be_val (word_sub a b) = be_val a - be_val b"
proof -
  have "be_val a < 2 ^ 256" using be_val_bound [of a] assms(1) by simp
  then have "(int (be_val a) - int (be_val b)) mod 2 ^ 256 = int (be_val a - be_val b)"
    using assms(3) by (subst mod_pos_pos_trivial) auto
  then show ?thesis using word_sub_val(1) [OF assms(1,2)] by simp
qed

lemma unat_not_byte: "unat (NOT (x :: byte)) = 255 - unat x"
proof -
  have "NOT x = - 1 - x" by (simp add: not_eq_complement)
  moreover have "unat (- 1 - x) = unat (- 1 :: byte) - unat x" by (rule unat_sub) simp
  moreover have "unat (- 1 :: byte) = 255" by (simp add: unsigned_minus_1_eq_mask mask_eq_exp_minus_1)
  ultimately show ?thesis by simp
qed

lemma neg_bytes_length: "length (neg_bytes xs c) = length xs"
  by (induction xs arbitrary: c) (auto simp: Let_def)

lemma neg_bytes_val:
  assumes "c \<le> 1"
  shows "le_val (neg_bytes xs c) = (256 ^ length xs - 1 - le_val xs + c) mod 256 ^ length xs"
  using assms
proof (induction xs arbitrary: c)
  case (Cons x xs)
  let ?s = "255 - unat x + c" and ?M = "256 ^ length xs :: nat"
  let ?w = "?M - 1 - le_val xs"
  have s: "?s div 256 \<le> 1" using Cons.prems by simp
  have u: "unat (of_nat ?s :: byte) = ?s mod 256" by (simp only: unat_of_nat) simp
  have "le_val (neg_bytes (x # xs) c) = ?s mod 256 + 256 * le_val (neg_bytes xs (?s div 256))"
    by (simp only: neg_bytes.simps Let_def le_val.simps unat_not_byte u)
  also have "le_val (neg_bytes xs (?s div 256)) = (?w + ?s div 256) mod ?M" by (rule Cons.IH [OF s])
  also have "?s mod 256 = (?s + 256 * ?w) mod 256" by simp
  also have "?w + ?s div 256 = (?s + 256 * ?w) div 256" by simp
  also have "(?s + 256 * ?w) mod 256 + 256 * ((?s + 256 * ?w) div 256 mod ?M) = (?s + 256 * ?w) mod (256 * ?M)"
    by (simp add: mod_mult2_eq)
  also have "?s + 256 * ?w = 256 * ?M - 1 - le_val (x # xs) + c"
    using le_val_bound [of xs] unat_byte [of x] by simp
  finally show ?case by simp
qed simp

lemma word_neg_val:
  assumes "length a = 32"
  shows "be_val (word_neg a) = (2 ^ 256 - be_val a) mod 2 ^ 256" "length (word_neg a) = 32"
proof -
  have "be_val a < 2 ^ 256" using be_val_bound [of a] assms by simp
  then have "2 ^ 256 - 1 - be_val a + 1 = 2 ^ 256 - be_val a" by linarith
  moreover have "(256 :: nat) ^ 32 = 2 ^ 256" by simp
  ultimately show "be_val (word_neg a) = (2 ^ 256 - be_val a) mod 2 ^ 256"
    using neg_bytes_val [of 1 "rev a"] assms by (simp only: be_val_def word_neg_def rev_rev_ident length_rev)
  show "length (word_neg a) = 32" using assms by (simp add: word_neg_def neg_bytes_length)
qed

subsection \<open>Division\<close>

lemma push_one_or: "unat (push_bit 1 (x :: byte) OR c) = (2 * unat x) mod 256 + unat c"
  if "c = 0 \<or> c = 1"
proof -
  have "unat (push_bit 1 x) = (2 * unat x) mod 256"
    by (simp add: push_bit_eq_mult unat_word_ariths mult.commute)
  moreover have "push_bit 1 x OR c = push_bit 1 x + c"
    using that by (auto simp: or_one_eq)
  moreover have "(2 * unat x) mod 256 = 2 * (unat x mod 128)"
    using mod_mult_mult1 [of 2 "unat x" 128] by simp
  then have "(2 * unat x) mod 256 \<le> 254" using mod_less_divisor [of 128 "unat x"] by linarith
  then have "(2 * unat x) mod 256 + unat c < 256" using that by auto
  ultimately show ?thesis by (simp add: unat_word_ariths)
qed

lemma drop7: "drop_bit 7 (x :: byte) = 0 \<or> drop_bit 7 x = 1" "unat (drop_bit 7 (x :: byte)) = unat x div 128"
proof -
  show u: "unat (drop_bit 7 x) = unat x div 128" by (simp only: unat_drop_bit_eq) (simp add: drop_bit_eq_div)
  have "unat x div 128 < 2" using unat_byte [of x] by simp
  then have "unat (drop_bit 7 x) = 0 \<or> unat (drop_bit 7 x) = 1" using u by linarith
  then show "drop_bit 7 x = 0 \<or> drop_bit 7 x = 1" by (auto simp: word_unat_eq_iff)
qed

lemma double_split:
  assumes "c \<le> (1 :: nat)"
  shows "(2 * u + c + 256 * k) mod 256 = (2 * u) mod 256 + c"
    and "(2 * u + c + 256 * k) div 256 = k + u div 128"
proof -
  define q r where "q = u div 128" and "r = u mod 128"
  have u: "u = 128 * q + r" by (simp add: q_def r_def)
  have lt: "2 * r + c < 256" using assms mod_less_divisor [of 128 u] by (simp add: r_def)
  have eq: "2 * u + c + 256 * k = (2 * r + c) + 256 * (k + q)" by (simp add: u)
  have "(2 * u) mod 256 = 2 * r" using mod_mult_mult1 [of 2 u 128] by (simp add: r_def)
  then show "(2 * u + c + 256 * k) mod 256 = (2 * u) mod 256 + c"
    unfolding eq mod_mult_self2 using lt by simp
  have "((2 * r + c) + 256 * (k + q)) div 256 = (k + q) + (2 * r + c) div 256"
    by (rule div_mult_self2) simp
  then show "(2 * u + c + 256 * k) div 256 = k + u div 128" unfolding eq q_def [symmetric] using lt by simp
qed

lemma shl1_bytes_length [simp]: "length (shl1_bytes xs c) = length xs"
  by (induction xs arbitrary: c) auto

lemma shl1_bytes_val:
  assumes "c = 0 \<or> c = 1"
  shows "le_val (shl1_bytes xs c) = (2 * le_val xs + unat c) mod 256 ^ length xs"
  using assms
proof (induction xs arbitrary: c)
  case (Cons x xs)
  let ?M = "256 ^ length xs :: nat"
  have c: "unat c \<le> 1" using Cons.prems by auto
  have "le_val (shl1_bytes (x # xs) c) = (2 * unat x) mod 256 + unat c + 256 * le_val (shl1_bytes xs (drop_bit 7 x))"
    using push_one_or [OF Cons.prems, of x] by (simp only: shl1_bytes.simps le_val.simps)
  also have "le_val (shl1_bytes xs (drop_bit 7 x)) = (2 * le_val xs + unat x div 128) mod ?M"
    using Cons.IH [OF drop7(1), of x] drop7(2) [of x] by simp
  also have "(2 * unat x) mod 256 + unat c = (2 * unat x + unat c + 256 * (2 * le_val xs)) mod 256"
    by (rule double_split(1) [OF c, symmetric])
  also have "2 * le_val xs + unat x div 128 = (2 * unat x + unat c + 256 * (2 * le_val xs)) div 256"
    by (rule double_split(2) [OF c, symmetric])
  also have "(2 * unat x + unat c + 256 * (2 * le_val xs)) mod 256
      + 256 * ((2 * unat x + unat c + 256 * (2 * le_val xs)) div 256 mod ?M)
    = (2 * unat x + unat c + 256 * (2 * le_val xs)) mod (256 * ?M)"
    by (simp only: mod_mult2_eq add.commute)
  also have "2 * unat x + unat c + 256 * (2 * le_val xs) = 2 * le_val (x # xs) + unat c" by simp
  finally show ?case by simp
qed simp

end
