(* ===== verification/Vm_Arith.thy ===== *)
theory Vm_Arith
  imports Vm_Word "HOL-Library.Signed_Division"
begin

unbundle bit_operations_syntax

text \<open>
  Division, shifts and multiplication of \<open>Vm_Word\<close> against arithmetic on numbers. The bits of a word
  are the bits of its bytes, so loops that work on bytes are compared with \<open>div\<close>, \<open>mod\<close> and powers of
  two bit by bit.
\<close>

subsection \<open>Bits of a word\<close>

lemma bit_low_high:
  assumes "u < 256"
  shows "bit (u + 256 * y :: nat) n = (if n < 8 then bit u n else bit y (n - 8))"
proof (cases "n < 8")
  case True
  then have "(256 :: nat) = 2 ^ n * 2 ^ (8 - n)" by (simp flip: power_add)
  then have "u + 256 * y = u + 2 ^ n * (2 ^ (8 - n) * y)" by (simp only: mult.assoc)
  moreover have "(u + 2 ^ n * (2 ^ (8 - n) * y)) div 2 ^ n = 2 ^ (8 - n) * y + u div 2 ^ n"
    by (rule div_mult_self2) simp
  ultimately have "(u + 256 * y) div 2 ^ n = u div 2 ^ n + 2 ^ (8 - n) * y" by (simp only: add.commute)
  then show ?thesis using True by (simp add: bit_iff_odd)
next
  case False
  then have "(2 :: nat) ^ n = 2 ^ (8 + (n - 8))" by simp
  then have "(2 :: nat) ^ n = 2 ^ 8 * 2 ^ (n - 8)" by (simp only: power_add)
  moreover have "(u + 256 * y) div 2 ^ 8 = y" using assms by simp
  ultimately have "(u + 256 * y) div 2 ^ n = y div 2 ^ (n - 8)" by (simp only: div_mult2_eq)
  then show ?thesis using False by (simp add: bit_iff_odd)
qed

lemma bit_le_val: "bit (le_val xs) n \<longleftrightarrow> n div 8 < length xs \<and> bit (xs ! (n div 8)) (n mod 8)"
proof (induction xs arbitrary: n)
  case (Cons x xs)
  show ?case
  proof (cases "n < 8")
    case True
    then show ?thesis using bit_low_high [OF unat_byte, of x "le_val xs" n] by (simp add: bit_unsigned_iff)
  next
    case False
    then have "n div 8 = Suc ((n - 8) div 8)" "n mod 8 = (n - 8) mod 8"
      by (simp_all add: le_div_geq le_mod_geq)
    then show ?thesis using bit_low_high [OF unat_byte, of x "le_val xs" n] Cons.IH [of "n - 8"] False by simp
  qed
qed simp

lemma bit_be_val:
  assumes "length w = L"
  shows "bit (be_val w) n \<longleftrightarrow> n div 8 < L \<and> bit (w ! (L - 1 - n div 8)) (n mod 8)"
  using assms by (auto simp: be_val_def bit_le_val rev_nth)

lemma bit_from_top:
  assumes "length w = L" "i < 8 * L"
  shows "bit (be_val w) (8 * L - 1 - i) \<longleftrightarrow> bit (w ! (i div 8)) (7 - i mod 8)"
proof -
  define p q where "p = i div 8" and "q = i mod 8"
  have i: "i = 8 * p + q" "q < 8" by (simp_all add: p_def q_def)
  then have p: "p < L" using assms(2) by simp
  have "8 * L - 1 - i = 8 * (L - 1 - p) + (7 - q)" using i p by (simp add: algebra_simps)
  moreover have "(8 * (L - 1 - p) + (7 - q)) div 8 = L - 1 - p" "(8 * (L - 1 - p) + (7 - q)) mod 8 = 7 - q"
    using i(2) by (simp_all only: div_mult_self4 mod_mult_self4) simp_all
  moreover have "L - 1 - (L - 1 - p) = p" "L - 1 - p < L" using p by simp_all
  ultimately show ?thesis using bit_be_val [OF assms(1), of "8 * (L - 1 - p) + (7 - q)"]
    by (simp only: p_def q_def) simp
qed

lemma unat_drop_and1: "unat (drop_bit k (x :: byte) AND 1) = of_bool (bit x k)"
  by (simp add: and_one_eq odd_iff_mod_2_eq_one [symmetric] bit_iff_odd_drop_bit mod2_eq_if)

lemma set_bit_val:
  assumes "length w = L" "i < 8 * L"
  shows "bit (be_val (w[i div 8 := (w ! (i div 8)) OR push_bit (7 - i mod 8) 1])) n
    \<longleftrightarrow> bit (be_val w) n \<or> n = 8 * L - 1 - i"
proof -
  let ?w = "w[i div 8 := (w ! (i div 8)) OR push_bit (7 - i mod 8) 1]"
  show ?thesis
  proof (cases "n < 8 * L")
    case True
    define j where "j = 8 * L - 1 - n"
    have n: "n = 8 * L - 1 - j" "j < 8 * L" using True by (auto simp: j_def)
    have "bit (?w ! (j div 8)) (7 - j mod 8) \<longleftrightarrow> bit (w ! (j div 8)) (7 - j mod 8) \<or> j = i"
    proof (cases "j div 8 = i div 8")
      case True
      have "7 - j mod 8 = 7 - i mod 8 \<longleftrightarrow> j = i"
      proof -
        have "j mod 8 < 8" "i mod 8 < 8" by simp_all
        then have "7 - j mod 8 = 7 - i mod 8 \<longleftrightarrow> j mod 8 = i mod 8" by linarith
        also have "\<dots> \<longleftrightarrow> j = i" using True by (metis div_mult_mod_eq)
        finally show ?thesis .
      qed
      moreover have "i div 8 < length w" using assms by simp
      moreover have "7 - i mod 8 < 8" by simp
      ultimately show ?thesis using True
        by (auto simp: bit_or_iff bit_exp_iff push_bit_eq_mult)
    qed auto
    moreover have "n = 8 * L - 1 - i \<longleftrightarrow> j = i" using n assms(2) by auto
    ultimately show ?thesis
      using bit_from_top [of ?w L j] bit_from_top [of w L j] n assms(1) by simp
  next
    case False
    then have "\<not> n div 8 < L" by simp
    then show ?thesis using False assms by (simp add: bit_be_val)
  qed
qed

subsection \<open>Long division\<close>

lemma shift_in_carry:
  assumes "length rem = 32"
  shows "shift_in rem b = rev (shl1_bytes (rev rem) b)"
proof -
  obtain x xs where r: "rev rem = x # xs" using assms by (cases "rev rem") auto
  have "length (rev rem) = 32" using assms by simp
  then have l: "length xs = 31" unfolding r by simp
  then show ?thesis
    by (simp add: shift_in_def set_low_bit_def r nth_append list_update_append)
qed

lemma shift_in_length [simp]: "length (shift_in rem b) = length rem"
  by (simp add: shift_in_def set_low_bit_def)

lemma shift_in_val:
  assumes "length rem = 32" "b = 0 \<or> b = 1" "be_val rem < 2 ^ 255"
  shows "be_val (shift_in rem b) = 2 * be_val rem + unat b"
proof -
  have "unat b \<le> 1" using assms(2) by auto
  then have "2 * be_val rem + unat b < 2 ^ 256" using assms(3) by simp
  moreover have "(256 :: nat) ^ 32 = 2 ^ 256" by simp
  ultimately show ?thesis
    using shl1_bytes_val [OF assms(2), of "rev rem"] assms(1)
    by (simp only: shift_in_carry be_val_def rev_rev_ident length_rev mod_less)
qed

lemma one_subtraction:
  assumes "(r :: nat) < 2 * b"
  shows "r mod b = (if b \<le> r then r - b else r)" "r div b = (if b \<le> r then 1 else 0)"
proof -
  have "0 < b" using assms by simp
  then show "r mod b = (if b \<le> r then r - b else r)" "r div b = (if b \<le> r then 1 else 0)"
    using assms by (simp_all add: le_mod_geq le_div_geq)
qed

lemma double_div_mod:
  assumes "0 < (b :: nat)" "t \<le> 1"
  shows "(2 * x + t) mod b = (if b \<le> 2 * (x mod b) + t then 2 * (x mod b) + t - b else 2 * (x mod b) + t)"
    and "odd ((2 * x + t) div b) \<longleftrightarrow> b \<le> 2 * (x mod b) + t"
proof -
  let ?r = "2 * (x mod b) + t"
  have "x = b * (x div b) + x mod b" by simp
  then have "2 * x + t = 2 * (b * (x div b) + x mod b) + t" by simp
  then have e: "2 * x + t = ?r + b * (2 * (x div b))" by (simp only: distrib_left ac_simps)
  have "x mod b + 1 \<le> b" using assms(1) by (simp add: Suc_leI)
  then have r: "?r < 2 * b" using assms(2) by linarith
  have m: "(2 * x + t) mod b = ?r mod b" unfolding e by (rule mod_mult_self2)
  have "?r mod b = (if b \<le> ?r then ?r - b else ?r)" by (rule one_subtraction(1) [OF r])
  then show "(2 * x + t) mod b = (if b \<le> ?r then ?r - b else ?r)" using m by (rule trans [rotated])
  have "(?r + b * (2 * (x div b))) div b = 2 * (x div b) + ?r div b" by (rule div_mult_self2) (use assms in simp)
  then have "(2 * x + t) div b = 2 * (x div b) + ?r div b" using e by (simp only:)
  moreover have "?r div b = (if b \<le> ?r then 1 else 0)" by (rule one_subtraction(2) [OF r])
  ultimately show "odd ((2 * x + t) div b) \<longleftrightarrow> b \<le> ?r" by simp
qed

text \<open>
  \<open>div_inv N A B i quo rem\<close>: after the \<open>i\<close> most significant of the \<open>N\<close> bits of \<open>A\<close>, the remainder is
  that of the prefix read so far and the quotient holds the top bits of the final one.
\<close>

definition div_inv :: "nat \<Rightarrow> nat \<Rightarrow> nat \<Rightarrow> nat \<Rightarrow> word256 \<Rightarrow> bool" where
  "div_inv N A B i rem \<longleftrightarrow> length rem = 32 \<and> be_val rem = (A div 2 ^ (N - i)) mod B"

definition next_bit :: "byte list \<Rightarrow> nat \<Rightarrow> byte" where
  "next_bit a i = drop_bit (7 - i mod 8) (a ! (i div 8)) AND 1"

lemma next_bit_val:
  assumes "length a = L" "i < 8 * L"
  shows "unat (next_bit a i) = of_bool (bit (be_val a) (8 * L - 1 - i))"
    and "next_bit a i = 0 \<or> next_bit a i = 1"
proof -
  show "unat (next_bit a i) = of_bool (bit (be_val a) (8 * L - 1 - i))"
    by (simp only: next_bit_def unat_drop_and1 bit_from_top [OF assms])
  show "next_bit a i = 0 \<or> next_bit a i = 1" by (auto simp: next_bit_def and_one_eq)
qed

lemma prefix_step:
  assumes "i < N"
  shows "(A :: nat) div 2 ^ (N - Suc i) = 2 * (A div 2 ^ (N - i)) + of_bool (bit A (N - 1 - i))"
proof -
  have "N - i = Suc (N - Suc i)" using assms by simp
  then have "A div 2 ^ (N - i) = A div 2 ^ (N - Suc i) div 2" by (simp only: power_Suc2 div_mult2_eq)
  moreover have "bit A (N - 1 - i) = odd (A div 2 ^ (N - Suc i))" by (simp add: bit_iff_odd)
  ultimately show ?thesis by (simp add: odd_iff_mod_2_eq_one [symmetric] mod2_eq_if [symmetric] of_bool_odd_eq_mod_2)
qed

lemma rem_step:
  assumes inv: "div_inv N (be_val a) (be_val b) i rem"
    and a: "length a = L" "N = 8 * L" "i < N" and b: "length b = 32" "0 < be_val b"
    and small: "be_val rem < 2 ^ 255"
  shows "b \<le> shift_in rem (next_bit a i) \<longleftrightarrow> bit (be_val a div be_val b) (N - 1 - i)"
    and "div_inv N (be_val a) (be_val b) (Suc i)
      (if b \<le> shift_in rem (next_bit a i) then word_sub (shift_in rem (next_bit a i)) b else shift_in rem (next_bit a i))"
proof -
  let ?A = "be_val a" and ?B = "be_val b" and ?s = "shift_in rem (next_bit a i)"
  define x t where "x = ?A div 2 ^ (N - i)" and "t = of_bool (bit ?A (N - 1 - i)) + (0 :: nat)"
  have r: "length rem = 32" "be_val rem = x mod ?B" using inv by (simp_all add: div_inv_def x_def)
  have t: "t \<le> 1" by (simp add: t_def)
  have s: "be_val ?s = 2 * (x mod ?B) + t" "length ?s = 32"
    using shift_in_val [OF r(1) next_bit_val(2) [of a L i] small] next_bit_val(1) [of a L i] a r by (simp_all add: t_def)
  have p: "?A div 2 ^ (N - Suc i) = 2 * x + t" using prefix_step [OF a(3), of ?A] by (simp add: x_def t_def)
  have le: "b \<le> ?s \<longleftrightarrow> ?B \<le> 2 * (x mod ?B) + t" using be_val_le [of b ?s] s b by simp
  have "bit (?A div ?B) (N - 1 - i) \<longleftrightarrow> odd (?A div 2 ^ (N - Suc i) div ?B)"
    by (simp add: bit_iff_odd div_mult2_eq [symmetric] mult.commute)
  also have "\<dots> \<longleftrightarrow> ?B \<le> 2 * (x mod ?B) + t" unfolding p by (rule double_div_mod(2) [OF b(2) t])
  finally show "b \<le> ?s \<longleftrightarrow> bit (?A div ?B) (N - 1 - i)" using le by simp
  have m: "(2 * x + t) mod ?B = (if b \<le> ?s then be_val ?s - ?B else be_val ?s)"
    unfolding le s(1) by (rule double_div_mod(1) [OF b(2) t])
  have sub: "b \<le> ?s \<Longrightarrow> be_val (word_sub ?s b) = be_val ?s - ?B"
    by (rule word_sub_exact) (use s b le in auto)
  show "div_inv N ?A ?B (Suc i) (if b \<le> ?s then word_sub ?s b else ?s)"
    unfolding div_inv_def p m using sub s(2) word_sub_val(2) [OF s(2) b(1)] by simp
qed

lemma foldl_upt_Suc: "foldl f z [0..<Suc i] = f (foldl f z [0..<i]) i"
  by simp

lemma long_divide_inv:
  assumes a: "length a = 32" and b: "length b = 32" "0 < be_val b" and i: "i \<le> 256"
  defines "st \<equiv> foldl (div_step a b) (replicate 32 0, replicate 32 0) [0..<i]"
  shows "div_inv 256 (be_val a) (be_val b) i (snd st) \<and> length (fst st) = 32 \<and>
    (\<forall>n. bit (be_val (fst st)) n \<longleftrightarrow> 256 - i \<le> n \<and> bit (be_val a div be_val b) n)"
  using i unfolding st_def
proof (induction i)
  case 0
  have A: "be_val a < 2 ^ 256" using be_val_bound [of a] a by simp
  then have "be_val a div be_val b < 2 ^ 256" by (meson div_le_dividend order_le_less_trans)
  then have "\<not> bit (be_val a div be_val b) n" if "256 \<le> n" for n
    using that by (metis bit_take_bit_iff not_le take_bit_nat_eq_self)
  then show ?case using A by (auto simp: div_inv_def be_val_zero [of 32, simplified])
next
  case (Suc i)
  let ?Q = "be_val a div be_val b" and ?B = "be_val b" and ?A = "be_val a"
  obtain quo rem where st: "foldl (div_step a b) (replicate 32 0, replicate 32 0) [0..<i] = (quo, rem)"
    by fastforce
  have ih: "div_inv 256 ?A ?B i rem" "length quo = 32" "\<And>n. bit (be_val quo) n \<longleftrightarrow> 256 - i \<le> n \<and> bit ?Q n"
    using Suc.IH Suc.prems st by auto
  have "?A < 2 ^ 256" using be_val_bound [of a] a by simp
  then have "?A < 2 ^ i * 2 ^ (256 - i)" using Suc.prems by (simp flip: power_add)
  then have "?A div 2 ^ (256 - i) < 2 ^ i" by (rule less_mult_imp_div_less)
  also have "(2 :: nat) ^ i \<le> 2 ^ 255" using Suc.prems by (intro power_increasing) simp_all
  finally have small: "be_val rem < 2 ^ 255"
    using ih(1) mod_less_eq_dividend [of "?A div 2 ^ (256 - i)" ?B] unfolding div_inv_def by linarith
  have N: "256 = 8 * (32 :: nat)" "i < 256" using Suc.prems by simp_all
  note S = rem_step [OF ih(1) a N b small]
  let ?s = "shift_in rem (next_bit a i)"
  have e: "foldl (div_step a b) (replicate 32 0, replicate 32 0) [0..<Suc i]
      = (if b \<le> ?s then quo[i div 8 := (quo ! (i div 8)) OR push_bit (7 - i mod 8) 1] else quo,
         if b \<le> ?s then word_sub ?s b else ?s)"
    unfolding foldl_upt_Suc st by (simp add: div_step_def next_bit_def Let_def)
  have q: "bit (be_val (if b \<le> ?s then quo[i div 8 := (quo ! (i div 8)) OR push_bit (7 - i mod 8) 1] else quo)) n
      \<longleftrightarrow> 256 - Suc i \<le> n \<and> bit ?Q n" for n
  proof -
    have "256 - Suc i \<le> n \<longleftrightarrow> 256 - i \<le> n \<or> n = 256 - 1 - i" using N(2) by auto
    then show ?thesis
      using set_bit_val [OF ih(2), of i n] N(2) ih(3) [of n] S(1) by (cases "b \<le> ?s") auto
  qed
  show ?case unfolding e fst_conv snd_conv using S(2) q ih(2) by simp
qed

lemma long_divide_val:
  assumes "length a = 32" "length b = 32" "0 < be_val b"
  shows "be_val (fst (long_divide a b)) = be_val a div be_val b"
    and "be_val (snd (long_divide a b)) = be_val a mod be_val b"
    and "length (fst (long_divide a b)) = 32" "length (snd (long_divide a b)) = 32"
  using long_divide_inv [OF assms order_refl] unfolding long_divide_def [symmetric]
  by (simp_all add: bit_eq_iff div_inv_def)

lemma word_is_zero_iff: "word_is_zero w \<longleftrightarrow> be_val w = 0"
proof -
  have "word_is_zero w \<longleftrightarrow> w = replicate (length w) 0"
    unfolding word_is_zero_def list_all_iff by (metis in_set_replicate replicate_length_same)
  also have "\<dots> \<longleftrightarrow> be_val w = 0"
    using be_val_inj [of w "replicate (length w) 0"] be_val_zero [of "length w"] by (metis length_replicate)
  finally show ?thesis .
qed

lemma zero256_val [simp]: "be_val zero256 = 0" "length zero256 = 32"
  by (simp_all add: zero256_def)

lemma word_div_val:
  assumes "length a = 32" "length b = 32"
  shows "be_val (word_div a b) = be_val a div be_val b" "length (word_div a b) = 32"
  using long_divide_val [of a b] assms by (auto simp: word_div_def word_is_zero_iff)

lemma word_mod_val:
  assumes "length a = 32" "length b = 32"
  shows "be_val (word_mod a b) = (if be_val b = 0 then 0 else be_val a mod be_val b)" "length (word_mod a b) = 32"
  using long_divide_val [of a b] assms by (auto simp: word_mod_def word_is_zero_iff)

subsection \<open>Reduction of a product\<close>

lemma div512_inv:
  assumes p: "length p = 64" and m: "length m = 32" "0 < be_val m" "be_val m \<le> 2 ^ 255" and i: "i \<le> 512"
  defines "Q \<equiv> be_val p div be_val m"
  shows "case foldl (div512_step p m) (Some (replicate 32 0, replicate 32 0)) [0..<i] of
      None \<Rightarrow> \<exists>n < 256. 512 - i \<le> n \<and> bit Q n
    | Some (quo, rem) \<Rightarrow> length quo = 32 \<and> div_inv 512 (be_val p) (be_val m) i rem \<and>
        (\<forall>n < 256. 512 - i \<le> n \<longrightarrow> \<not> bit Q n)"
  using i
proof (induction i)
  case 0
  have "be_val p < 2 ^ 512" using be_val_bound [of p] p by simp
  then show ?case by (simp add: div_inv_def be_val_zero [of 32, simplified])
next
  case (Suc i)
  let ?f = "\<lambda>i. foldl (div512_step p m) (Some (replicate 32 0, replicate 32 0)) [0..<i]"
  show ?case
  proof (cases "?f i")
    case None
    then have "\<exists>n < 256. 512 - Suc i \<le> n \<and> bit Q n" using Suc by fastforce
    moreover have "?f (Suc i) = None" unfolding foldl_upt_Suc None by (simp add: div512_step_def)
    ultimately show ?thesis by simp
  next
    case (Some st)
    obtain quo rem where st: "st = (quo, rem)" by fastforce
    have ih: "length quo = 32" "div_inv 512 (be_val p) (be_val m) i rem"
      "\<And>n. n < 256 \<Longrightarrow> 512 - i \<le> n \<Longrightarrow> \<not> bit Q n"
      using Suc.IH Suc.prems Some st by auto
    have "be_val rem < be_val m" using ih(2) m(2) by (simp add: div_inv_def)
    then have small: "be_val rem < 2 ^ 255" using m(3) by linarith
    have N: "512 = 8 * (64 :: nat)" "i < 512" using Suc.prems by simp_all
    note S = rem_step [OF ih(2) p N m(1,2) small, folded Q_def]
    let ?s = "shift_in rem (next_bit p i)"
    have e: "?f (Suc i) = (if m \<le> ?s
        then if i div 8 < 32 then Some (quo[i div 8 := (quo ! (i div 8)) OR push_bit (7 - i mod 8) 1], word_sub ?s m) else None
        else Some (quo, ?s))"
      unfolding foldl_upt_Suc Some st using ih(1) by (simp add: div512_step_def next_bit_def Let_def)
    have top: "512 - Suc i \<le> n \<longleftrightarrow> 512 - i \<le> n \<or> n = 511 - i" for n using N(2) by auto
    have hi: "i div 8 < 32 \<longleftrightarrow> \<not> 511 - i < 256" using N(2) by auto
    show ?thesis
    proof (cases "m \<le> ?s \<and> \<not> i div 8 < 32")
      case True
      then have "bit Q (511 - i)" "511 - i < 256" using S(1) hi by simp_all
      then show ?thesis unfolding e using True top by auto
    next
      case False
      then have "\<not> bit Q n" if "n < 256" "512 - Suc i \<le> n" for n
        using that ih(3) [of n] top S(1) hi by auto
      then show ?thesis unfolding e using False S(2) ih(1) by (cases "m \<le> ?s") auto
    qed
  qed
qed

lemma low_bits_zero: "(\<forall>n < k. \<not> bit (Q :: nat) n) \<longleftrightarrow> Q mod 2 ^ k = 0"
proof -
  have "Q mod 2 ^ k = 0 \<longleftrightarrow> take_bit k Q = 0" by (simp add: take_bit_eq_mod)
  also have "\<dots> \<longleftrightarrow> (\<forall>n < k. \<not> bit Q n)" by (auto simp: bit_eq_iff bit_take_bit_iff)
  finally show ?thesis by simp
qed

lemma long_divide_512_val:
  assumes "length p = 64" "length m = 32" "0 < be_val m" "be_val m \<le> 2 ^ 255"
  shows "case long_divide_512_by_256 p m of
      None \<Rightarrow> (be_val p div be_val m) mod 2 ^ 256 \<noteq> 0
    | Some r \<Rightarrow> (be_val p div be_val m) mod 2 ^ 256 = 0 \<and> be_val r = be_val p mod be_val m \<and> length r = 32"
proof -
  let ?f = "foldl (div512_step p m) (Some (replicate 32 0, replicate 32 0)) [0..<512]"
  note I = div512_inv [OF assms order_refl]
  show ?thesis
  proof (cases ?f)
    case None
    then show ?thesis using I low_bits_zero [of 256] unfolding long_divide_512_by_256_def by auto
  next
    case (Some st)
    obtain quo rem where "st = (quo, rem)" by fastforce
    then show ?thesis
      using I low_bits_zero [of 256] Some unfolding long_divide_512_by_256_def by (simp add: div_inv_def)
  qed
qed

subsection \<open>Shifts\<close>

lemma fits_u64_val:
  assumes "length w = 32"
  shows "word_fits_u64 w \<longleftrightarrow> be_val w < 2 ^ 64" "word_fits_u64 w \<Longrightarrow> word_to_u64_unchecked w = be_val w"
proof -
  have split: "be_val w = be_val (take 24 w) * 2 ^ 64 + be_val (drop 24 w)"
  proof -
    have "rev w = rev (drop 24 w) @ rev (take 24 w)" by (metis append_take_drop_id rev_append)
    moreover have "(256 :: nat) ^ 8 = 2 ^ 64" by simp
    ultimately show ?thesis using assms le_val_append [of "rev (drop 24 w)" "rev (take 24 w)"]
      by (simp only: be_val_def length_rev length_drop) (simp add: mult.commute)
  qed
  have lo: "be_val (drop 24 w) < 2 ^ 64" using be_val_bound [of "drop 24 w"] assms by simp
  have z: "word_fits_u64 w \<longleftrightarrow> be_val (take 24 w) = 0"
    using word_is_zero_iff [of "take 24 w"] by (simp add: word_fits_u64_def word_is_zero_def)
  show "word_fits_u64 w \<longleftrightarrow> be_val w < 2 ^ 64"
  proof (cases "be_val (take 24 w)")
    case (Suc k)
    then have "be_val w \<ge> 2 ^ 64" using split by simp
    then show ?thesis using z Suc by simp
  qed (use z split lo in simp)
  show "word_to_u64_unchecked w = be_val w" if "word_fits_u64 w"
    using that z split by (simp add: word_to_u64_unchecked_def)
qed

lemma shift_amount_val:
  assumes "length w = 32"
  shows "shift_amount w = (if be_val w < 256 then Some (be_val w) else None)"
proof -
  have "(256 :: nat) \<le> 2 ^ 64" by simp
  then show ?thesis
    using fits_u64_val [OF assms] by (auto simp: shift_amount_def word_to_u64_checked_def)
qed

lemma split8_add:
  assumes "q < 8" "k < (8 :: nat)"
  shows "(8 * p + q + (8 * c + k)) div 8 = (if q + k < 8 then p + c else Suc (p + c))"
    and "(8 * p + q + (8 * c + k)) mod 8 = (if q + k < 8 then q + k else q + k - 8)"
proof -
  have e: "8 * p + q + (8 * c + k) = (q + k) + 8 * (p + c)" by simp
  have r: "q + k < 2 * 8" using assms by simp
  show "(8 * p + q + (8 * c + k)) div 8 = (if q + k < 8 then p + c else Suc (p + c))"
    unfolding e using one_subtraction(2) [OF r] div_mult_self2 [of 8 "q + k" "p + c"] by auto
  show "(8 * p + q + (8 * c + k)) mod 8 = (if q + k < 8 then q + k else q + k - 8)"
    unfolding e mod_mult_self2 using one_subtraction(1) [OF r] by simp
qed

lemma bit_byte_lt: "bit (x :: byte) n \<Longrightarrow> n < 8"
  using bit_imp_le_length [of x n] by simp

lemma word_shr_val:
  assumes "length s = 32" "length v = 32" "be_val s < 256"
  shows "be_val (word_shr s v) = be_val v div 2 ^ be_val s" "length (word_shr s v) = 32"
proof -
  define c k where "c = be_val s div 8" and "k = be_val s mod 8"
  have s: "be_val s = 8 * c + k" "k < 8" by (simp_all add: c_def k_def)
  have A: "shift_amount s = Some (be_val s)" using shift_amount_val assms by simp
  show l: "length (word_shr s v) = 32" using A assms by (simp add: word_shr_def Let_def)
  have "bit (be_val (word_shr s v)) n \<longleftrightarrow> bit (be_val v) (n + be_val s)" for n
  proof (cases "be_val s = 0")
    case True
    then show ?thesis using A by (simp add: word_shr_def Let_def)
  next
    case False
    define p q where "p = n div 8" and "q = n mod 8"
    have n: "n = 8 * p + q" "q < 8" by (simp_all add: p_def q_def)
    have v: "bit (be_val v) (n + be_val s) \<longleftrightarrow>
      (if q + k < 8 then p + c < 32 \<and> bit (v ! (31 - (p + c))) (q + k)
       else p + c < 31 \<and> bit (v ! (30 - (p + c))) (q + k - 8))"
      unfolding bit_be_val [OF assms(2)] n(1) s(1) split8_add [OF n(2) s(2)] by auto
    have w: "bit (be_val (word_shr s v)) n \<longleftrightarrow> p < 32 \<and> bit (word_shr s v ! (31 - p)) q"
      using bit_be_val [OF l, of n] by (simp add: p_def q_def)
    have x: "word_shr s v ! (31 - p) =
      (if k = 0 then if c \<le> 31 - p then v ! (31 - p - c) else 0
       else drop_bit k (if c \<le> 31 - p then v ! (31 - p - c) else 0)
         OR push_bit (8 - k) (if c + 1 \<le> 31 - p then v ! (31 - p - c - 1) else 0))"
      using A False by (simp add: word_shr_def c_def k_def Let_def)
    show ?thesis
    proof (cases "p < 32")
      case True
      then have i: "c \<le> 31 - p \<longleftrightarrow> p + c < 32" "c + 1 \<le> 31 - p \<longleftrightarrow> p + c < 31" "31 - p - c = 31 - (p + c)"
        "31 - p - c - 1 = 30 - (p + c)" by auto
      show ?thesis unfolding v w x i using True n(2) s(2)
        by (auto simp: bit_or_iff bit_drop_bit_eq bit_push_bit_iff add.commute dest: bit_byte_lt)
    qed (use v w in auto)
  qed
  then show "be_val (word_shr s v) = be_val v div 2 ^ be_val s"
    by (simp add: bit_eq_iff drop_bit_eq_div [symmetric] bit_drop_bit_eq add.commute)
qed

lemma word_shl_val:
  assumes "length s = 32" "length v = 32" "be_val s < 256"
  shows "be_val (word_shl s v) = (be_val v * 2 ^ be_val s) mod 2 ^ 256" "length (word_shl s v) = 32"
proof -
  define c k where "c = be_val s div 8" and "k = be_val s mod 8"
  have s: "be_val s = 8 * c + k" "k < 8" by (simp_all add: c_def k_def)
  have A: "shift_amount s = Some (be_val s)" using shift_amount_val assms by simp
  show l: "length (word_shl s v) = 32" using A assms by (simp add: word_shl_def Let_def)
  have "bit (be_val (word_shl s v)) n \<longleftrightarrow> n < 256 \<and> be_val s \<le> n \<and> bit (be_val v) (n - be_val s)" for n
  proof (cases "be_val s = 0")
    case True
    have "bit (be_val v) n \<Longrightarrow> n < 256" using bit_be_val [OF assms(2), of n] by auto
    then show ?thesis using A True by (auto simp: word_shl_def)
  next
    case False
    define p q where "p = n div 8" and "q = n mod 8"
    have n: "n = 8 * p + q" "q < 8" by (simp_all add: p_def q_def)
    have w: "bit (be_val (word_shl s v)) n \<longleftrightarrow> p < 32 \<and> bit (word_shl s v ! (31 - p)) q"
      using bit_be_val [OF l, of n] by (simp add: p_def q_def)
    have x: "word_shl s v ! (31 - p) =
      (if k = 0 then if 31 - p + c < 32 then v ! (31 - p + c) else 0
       else push_bit k (if 31 - p + c < 32 then v ! (31 - p + c) else 0)
         OR drop_bit (8 - k) (if 31 - p + c + 1 < 32 then v ! (31 - p + c + 1) else 0))"
      using A False by (simp add: word_shl_def c_def k_def Let_def)
    have p32: "p < 32 \<longleftrightarrow> n < 256" using n by auto
    show ?thesis
    proof (cases "p < 32")
      case True
      then have i: "31 - p + c < 32 \<longleftrightarrow> c \<le> p" "31 - p + c + 1 < 32 \<longleftrightarrow> c + 1 \<le> p" by auto
      have le: "be_val s \<le> n \<longleftrightarrow> c < p \<or> c = p \<and> k \<le> q" unfolding n(1) s(1) using n(2) s(2) by auto
      show ?thesis
      proof (cases "be_val s \<le> n")
        case sn: True
        define d r where "d = (n - be_val s) div 8" and "r = (n - be_val s) mod 8"
        have dr: "n - be_val s = 8 * d + r" "r < 8" by (simp_all add: d_def r_def)
        have "8 * p + q = 8 * d + r + (8 * c + k)" using sn dr n(1) s(1) by simp
        then have "p = (8 * d + r + (8 * c + k)) div 8" "q = (8 * d + r + (8 * c + k)) mod 8"
          using n(2) by (metis n(1) p_def, metis n(1) q_def)
        then have pq: "p = (if r + k < 8 then d + c else Suc (d + c))" "q = (if r + k < 8 then r + k else r + k - 8)"
          unfolding split8_add [OF dr(2) s(2)] by simp_all
        have b: "bit (be_val v) (n - be_val s) \<longleftrightarrow> bit (v ! (31 - d)) r"
          using bit_be_val [OF assms(2), of "n - be_val s"] pq(1) True by (auto simp: d_def r_def split: if_splits)
        have ix: "d + c < 32 \<Longrightarrow> 31 - (d + c) + c = 31 - d" "Suc (d + c) < 32 \<Longrightarrow> Suc (31 - Suc (d + c) + c) = 31 - d"
          by simp_all
        show ?thesis unfolding w x i b using True sn p32 pq dr(2) s(2) ix
          by (auto simp: bit_or_iff bit_drop_bit_eq bit_push_bit_iff dest: bit_byte_lt)
      next
        case False
        then have "p < c \<or> p = c \<and> q < k" using le by auto
        then show ?thesis unfolding w x i using False by (auto simp: bit_or_iff bit_push_bit_iff)
      qed
    qed (use w p32 in auto)
  qed
  then have "be_val (word_shl s v) = take_bit 256 (push_bit (be_val s) (be_val v))"
    by (simp add: bit_eq_iff bit_take_bit_iff bit_push_bit_iff)
  then show "be_val (word_shl s v) = (be_val v * 2 ^ be_val s) mod 2 ^ 256"
    by (simp only: push_bit_eq_mult take_bit_eq_mod)
qed

subsection \<open>Signed division\<close>

definition sval :: "word256 \<Rightarrow> int" where
  \<comment> \<open>the two's complement reading of a word\<close>
  "sval w = (if be_val w < 2 ^ 255 then int (be_val w) else int (be_val w) - 2 ^ 256)"

lemma word_is_negative_val:
  assumes "length w = 32"
  shows "word_is_negative w \<longleftrightarrow> 2 ^ 255 \<le> be_val w" "word_is_negative w \<longleftrightarrow> sval w < 0"
proof -
  have b: "be_val w < 2 ^ 256" using be_val_bound [of w] assms by simp
  have "(0x80 :: byte) = push_bit 7 1" by (simp add: push_bit_eq_mult)
  then have "word_is_negative w \<longleftrightarrow> bit (w ! 0) 7"
    unfolding word_is_negative_def by (simp only: bit_iff_and_push_bit_not_eq_0)
  also have "\<dots> \<longleftrightarrow> bit (be_val w) 255" using bit_be_val [OF assms, of 255] by simp
  also have "\<dots> \<longleftrightarrow> odd (be_val w div 2 ^ 255)" by (rule bit_iff_odd)
  also have "\<dots> \<longleftrightarrow> 2 ^ 255 \<le> be_val w" using one_subtraction(2) [of "be_val w" "2 ^ 255"] b by simp
  finally show n: "word_is_negative w \<longleftrightarrow> 2 ^ 255 \<le> be_val w" .
  show "word_is_negative w \<longleftrightarrow> sval w < 0" using n b unfolding sval_def by auto
qed

lemma neg_mod:
  assumes "n \<le> M"
  shows "int ((M - n) mod M) = (- int n) mod int M"
proof -
  have "int ((M - n) mod M) = (int M - int n) mod int M" using assms by (simp add: zmod_int of_nat_diff)
  also have "\<dots> = (- int n) mod int M" using mod_add_self1 [of "int M" "- int n"] by simp
  finally show ?thesis .
qed

lemma word_neg_int:
  assumes "length w = 32"
  shows "int (be_val (word_neg w)) = (- int (be_val w)) mod 2 ^ 256"
proof -
  have "be_val w \<le> 2 ^ 256" using be_val_bound [of w] assms by simp
  then show ?thesis using neg_mod [of "be_val w" "2 ^ 256"] word_neg_val(1) [OF assms] by simp
qed

lemma word_abs_val:
  assumes "length w = 32"
  shows "int (be_val (if word_is_negative w then word_neg w else w)) = \<bar>sval w\<bar>"
    and "length (if word_is_negative w then word_neg w else w) = 32"
proof -
  have b: "be_val w < 2 ^ 256" using be_val_bound [of w] assms by simp
  show "int (be_val (if word_is_negative w then word_neg w else w)) = \<bar>sval w\<bar>"
  proof (cases "word_is_negative w")
    case True
    then have g: "2 ^ 255 \<le> be_val w" using word_is_negative_val assms by simp
    then have "2 ^ 256 - be_val w < 2 ^ 256" by simp
    then have "be_val (word_neg w) = 2 ^ 256 - be_val w" using word_neg_val(1) [OF assms] by (simp only: mod_less)
    then show ?thesis using True g b by (simp add: sval_def of_nat_diff)
  qed (use word_is_negative_val [OF assms] in \<open>simp add: sval_def\<close>)
  show "length (if word_is_negative w then word_neg w else w) = 32" using assms word_neg_val(2) by simp
qed

lemma sval_zero: "length w = 32 \<Longrightarrow> sval w = 0 \<longleftrightarrow> be_val w = 0"
  using be_val_bound [of w] by (auto simp: sval_def)

lemma sval_mod: "length w = 32 \<Longrightarrow> sval w mod 2 ^ 256 = int (be_val w)"
  using be_val_bound [of w] mod_diff_right_eq [of "int (be_val w)" "2 ^ 256" "2 ^ 256"] by (simp add: sval_def)

lemma mod_id: "length w = 32 \<Longrightarrow> int (be_val w) mod 2 ^ 256 = int (be_val w)"
  using be_val_bound [of w] by simp

lemma word_neg_if:
  assumes "length q = 32"
  shows "int (be_val (if p then word_neg q else q)) = (if p then - int (be_val q) else int (be_val q)) mod 2 ^ 256"
  using word_neg_int [OF assms] mod_id [OF assms] by simp

lemma word_neg_if_nonzero:
  assumes "length q = 32"
  shows "int (be_val (if p \<and> \<not> word_is_zero q then word_neg q else q)) = (if p then - int (be_val q) else int (be_val q)) mod 2 ^ 256"
  using word_neg_if [OF assms, of "p \<and> \<not> word_is_zero q"] by (cases "be_val q = 0") (simp_all add: word_is_zero_iff)

lemma word_sdiv_val:
  assumes "length a = 32" "length b = 32" "be_val b \<noteq> 0"
  shows "int (be_val (word_sdiv a b)) =
    (if sval a < 0 \<and> sval b = - sval a then sval a else sval a sdiv sval b) mod 2 ^ 256"
proof -
  let ?n = "word_is_negative" and ?abs = "\<lambda>w. if word_is_negative w then word_neg w else w"
  let ?q = "word_div (?abs a) (?abs b)"
  note A = word_abs_val [OF assms(1)] and B = word_abs_val [OF assms(2)]
  note na = word_is_negative_val(2) [OF assms(1)] and nb = word_is_negative_val(2) [OF assms(2)]
  have z: "\<not> word_is_zero b" using assms by (simp add: word_is_zero_iff)
  have b0: "sval b \<noteq> 0" using sval_zero assms by simp
  have q: "int (be_val ?q) = \<bar>sval a\<bar> div \<bar>sval b\<bar>" "length ?q = 32"
    using word_div_val [OF A(2) B(2)] A(1) B(1) by (simp_all add: zdiv_int)
  have "?abs a = ?abs b \<longleftrightarrow> \<bar>sval a\<bar> = \<bar>sval b\<bar>"
  proof
    show "\<bar>sval a\<bar> = \<bar>sval b\<bar>" if "?abs a = ?abs b" unfolding A(1) [symmetric] B(1) [symmetric] that ..
    show "?abs a = ?abs b" if e: "\<bar>sval a\<bar> = \<bar>sval b\<bar>"
    proof (rule be_val_inj)
      show "length (?abs a) = length (?abs b)" unfolding A(2) B(2) ..
      show "be_val (?abs a) = be_val (?abs b)" using e unfolding A(1) [symmetric] B(1) [symmetric] of_nat_eq_iff .
    qed
  qed
  then have sp: "?n a \<and> \<not> ?n b \<and> ?abs a = ?abs b \<longleftrightarrow> sval a < 0 \<and> sval b = - sval a" unfolding na nb by auto
  show ?thesis
  proof (cases "sval a < 0 \<and> sval b = - sval a")
    case True
    then have "?n a \<and> \<not> ?n b \<and> ?abs a = ?abs b" using sp by blast
    then have "?n a" "\<not> ?n b" "word_neg a = b" by (auto split: if_splits)
    then have "word_sdiv a b = a" using z by (simp add: word_sdiv_def Let_def)
    then show ?thesis using True sval_mod [OF assms(1)] by simp
  next
    case False
    then have "\<not> (?n a \<and> \<not> ?n b \<and> ?abs a = ?abs b)" using sp by blast
    then have w: "word_sdiv a b = (if ?n a \<noteq> ?n b then word_neg ?q else ?q)" using z by (auto simp: word_sdiv_def Let_def)
    have "int (be_val (word_sdiv a b)) = (if ?n a \<noteq> ?n b then - int (be_val ?q) else int (be_val ?q)) mod 2 ^ 256"
      unfolding w by (rule word_neg_if [OF q(2)])
    also have "(if ?n a \<noteq> ?n b then - int (be_val ?q) else int (be_val ?q)) = sval a sdiv sval b"
      unfolding q(1) unfolding na nb signed_divide_int_def using b0 by (auto simp: sgn_if)
    finally show ?thesis using False by (simp only: if_False)
  qed
qed

lemma word_smod_val:
  assumes "length a = 32" "length b = 32" "be_val b \<noteq> 0"
  shows "int (be_val (word_smod a b)) = (sval a smod sval b) mod 2 ^ 256"
proof -
  let ?n = "word_is_negative" and ?abs = "\<lambda>w. if word_is_negative w then word_neg w else w"
  let ?r = "word_mod (?abs a) (?abs b)"
  note A = word_abs_val [OF assms(1)] and B = word_abs_val [OF assms(2)]
  have z: "\<not> word_is_zero b" using assms by (simp add: word_is_zero_iff)
  have "sval b \<noteq> 0" using sval_zero assms by simp
  then have "int (be_val (?abs b)) \<noteq> 0" unfolding B(1) by simp
  then have "be_val (?abs b) \<noteq> 0" by linarith
  then have "be_val ?r = be_val (?abs a) mod be_val (?abs b)" using word_mod_val(1) [OF A(2) B(2)] by simp
  then have r: "int (be_val ?r) = \<bar>sval a\<bar> mod \<bar>sval b\<bar>" using A(1) B(1) by (simp add: zmod_int)
  have l: "length ?r = 32" by (rule word_mod_val(2) [OF A(2) B(2)])
  have w: "word_smod a b = (if ?n a \<and> \<not> word_is_zero ?r then word_neg ?r else ?r)"
    using z by (auto simp: word_smod_def Let_def)
  have "int (be_val (word_smod a b)) = (if ?n a then - int (be_val ?r) else int (be_val ?r)) mod 2 ^ 256"
    unfolding w by (rule word_neg_if_nonzero [OF l])
  also have "(if ?n a then - int (be_val ?r) else int (be_val ?r)) = sval a smod sval b"
    unfolding r unfolding word_is_negative_val(2) [OF assms(1)] signed_modulo_int_def by (auto simp: sgn_if)
  finally show ?thesis .
qed

subsection \<open>Addition modulo a word\<close>

lemma word_add_with_carry_val:
  assumes "length a = 32" "length b = 32"
  shows "length (fst (word_add_with_carry a b)) = 32"
    and "snd (word_add_with_carry a b) \<longleftrightarrow> 2 ^ 256 \<le> be_val a + be_val b"
    and "be_val (fst (word_add_with_carry a b)) =
      (if 2 ^ 256 \<le> be_val a + be_val b then be_val a + be_val b - 2 ^ 256 else be_val a + be_val b)"
proof -
  have l: "length (rev a) = length (rev b)" using assms by simp
  obtain r c where rc: "add_bytes (rev a) (rev b) 0 = (r, c)" by fastforce
  have M: "(256 :: nat) ^ length (rev a) = 2 ^ 256" using assms by simp
  have A: "le_val r + 2 ^ 256 * c = be_val a + be_val b" "c \<le> 1" "length r = 32"
    using add_bytes_val [OF l, of 0] rc assms unfolding M by (simp_all add: be_val_def)
  have e: "word_add_with_carry a b = (rev r, c \<noteq> 0)" by (simp add: word_add_with_carry_def rc)
  have b: "le_val r < 2 ^ 256" using le_val_bound [of r] A(3) by simp
  show "length (fst (word_add_with_carry a b)) = 32" using A(3) by (simp add: e)
  show "snd (word_add_with_carry a b) \<longleftrightarrow> 2 ^ 256 \<le> be_val a + be_val b"
    using A(1,2) b unfolding e by (cases c) auto
  show "be_val (fst (word_add_with_carry a b)) =
      (if 2 ^ 256 \<le> be_val a + be_val b then be_val a + be_val b - 2 ^ 256 else be_val a + be_val b)"
    using A(1,2) b be_val_def [of "rev r"] unfolding e fst_conv rev_rev_ident
    by (cases "c = 0") (auto simp: le_Suc_eq)
qed

lemma reduced_sum:
  assumes "length s = 32" "length m = 32" "t < 2 * be_val m"
    "be_val s = (if 2 ^ 256 \<le> t then t - 2 ^ 256 else t)"
  shows "be_val (if 2 ^ 256 \<le> t \<or> m \<le> s then word_sub s m else s) = t mod be_val m"
proof -
  have m: "be_val m < 2 ^ 256" using be_val_bound [of m] assms(2) by simp
  show ?thesis
  proof (cases "2 ^ 256 \<le> t")
    case True
    then have s: "int (be_val s) = int t - 2 ^ 256" using assms(4) by (simp add: of_nat_diff)
    have "int (be_val (word_sub s m)) = (int t - 2 ^ 256 - int (be_val m)) mod 2 ^ 256"
      unfolding word_sub_val(1) [OF assms(1,2)] s ..
    also have "\<dots> = (int t - int (be_val m)) mod 2 ^ 256"
      using mod_add_self2 [of "int t - 2 ^ 256 - int (be_val m)" "2 ^ 256"] by simp
    also have "\<dots> = int t - int (be_val m)"
    proof (rule mod_pos_pos_trivial)
      show "0 \<le> int t - int (be_val m)" using True m by simp
      show "int t - int (be_val m) < 2 ^ 256" using assms(3) m by simp
    qed
    finally have "be_val (word_sub s m) = t - be_val m" using True m by linarith
    moreover have "t mod be_val m = t - be_val m" using one_subtraction(1) [OF assms(3)] True m by simp
    ultimately show ?thesis using True by simp
  next
    case False
    then have s: "be_val s = t" using assms(4) by simp
    have le: "m \<le> s \<longleftrightarrow> be_val m \<le> t" using be_val_le [of m s] assms(1,2) s by simp
    show ?thesis using one_subtraction(1) [OF assms(3)] word_sub_exact [OF assms(1,2)] False s le by auto
  qed
qed

lemma word_addmod_val:
  assumes "length a = 32" "length b = 32" "length m = 32" "be_val m \<noteq> 0"
  defines "t \<equiv> be_val a + be_val b"
  shows "be_val (word_addmod a b m) =
    (if 2 ^ 256 \<le> t then t mod be_val m else if be_val m \<le> t then t - be_val m else t)"
proof -
  obtain s c where sc: "word_add_with_carry a b = (s, c)" by fastforce
  note S = word_add_with_carry_val [OF assms(1,2), folded t_def, unfolded sc fst_conv snd_conv]
  have z: "\<not> word_is_zero m" using assms by (simp add: word_is_zero_iff)
  show ?thesis
  proof (cases "2 ^ 256 \<le> t")
    case True
    obtain s' c' where sc': "word_add_with_carry (word_mod a m) (word_mod b m) = (s', c')" by fastforce
    note ma = word_mod_val [OF assms(1,3)] and mb = word_mod_val [OF assms(2,3)]
    let ?t = "be_val a mod be_val m + be_val b mod be_val m"
    have S': "length s' = 32" "c' \<longleftrightarrow> 2 ^ 256 \<le> ?t" "be_val s' = (if 2 ^ 256 \<le> ?t then ?t - 2 ^ 256 else ?t)"
      using word_add_with_carry_val [OF ma(2) mb(2)] assms(4) unfolding sc' ma(1) mb(1) by simp_all
    have t: "?t < 2 * be_val m" using assms(4) mod_less_divisor [of "be_val m"] by (simp add: add_strict_mono mult_2)
    have w: "word_addmod a b m = (if 2 ^ 256 \<le> ?t \<or> m \<le> s' then word_sub s' m else s')"
      unfolding word_addmod_def sc using True S(2) S'(2) z sc' by simp
    have "be_val (word_addmod a b m) = ?t mod be_val m"
      unfolding w by (rule reduced_sum [OF S'(1) assms(3) t S'(3)])
    also have "\<dots> = t mod be_val m" unfolding t_def by (rule mod_add_eq)
    finally show ?thesis using True by simp
  next
    case False
    then have "word_addmod a b m = (if m \<le> s then word_sub s m else s)"
      unfolding word_addmod_def sc using S(2) z by simp
    moreover have "m \<le> s \<longleftrightarrow> be_val m \<le> t" using be_val_le [of m s] S assms(3) False by simp
    ultimately show ?thesis using word_sub_exact [of s m] S assms(3) False by simp
  qed
qed

subsection \<open>Multiplication\<close>

lemma slice_zero:
  assumes "length w = 32" "word_fits_u64 w" "i < 3"
  shows "be_val (slice_of w (i * 8) 8) = 0"
proof -
  have "list_all (\<lambda>b. b = 0) (slice_of w (i * 8) 8)"
  proof -
    have "set (take 8 (drop (i * 8) w)) \<subseteq> set (take 24 w)"
    proof -
      have "take 8 (drop (i * 8) w) = take 8 (drop (i * 8) (take 24 w))"
        using assms(3) by (simp add: drop_take min_def)
      then show ?thesis by (metis set_drop_subset set_take_subset subset_trans)
    qed
    then show ?thesis using assms(2) unfolding slice_of_def word_fits_u64_def list_all_iff by blast
  qed
  then show ?thesis using word_is_zero_iff [of "slice_of w (i * 8) 8"] by (simp add: word_is_zero_def)
qed

lemma limbs_small:
  assumes "length w = 32" "word_fits_u64 w"
  shows "bytes_to_u64_le w = [0, 0, 0, be_val w]"
proof -
  have "slice_of w 24 8 = drop 24 w" using assms(1) by (simp add: slice_of_def)
  then have "be_val (slice_of w 24 8) = be_val w"
    using fits_u64_val(2) [OF assms] by (simp add: word_to_u64_unchecked_def)
  then show ?thesis using slice_zero [OF assms, of 0] slice_zero [OF assms, of 1] slice_zero [OF assms, of 2]
    by (simp add: bytes_to_u64_le_def upt_rec)
qed

lemma to_le_bytes_zero [simp]: "to_le_bytes n 0 = replicate n 0"
  by (induction n) auto

lemma u64_bytes_zero: "u64_le_to_bytes [0, 0, 0, 0] = zero256"
  by (simp add: u64_le_to_bytes_def zero256_def to_be_bytes_def upt_rec flip: replicate_add)

lemma upt_small:
  "[0..<8] = [0, 1, 2, 3, 4, 5, 6, 7 :: nat]" "[0..<4] = [0, 1, 2, 3 :: nat]" "[0..<3] = [0, 1, 2 :: nat]" "[0..<2] = [0, 1 :: nat]"
  by (simp_all add: upt_rec)

lemma mul_inner_zero:
  assumes "xs ! i = 0 \<or> ys ! j = 0" "i + j < n"
  shows "mul_inner xs ys i (replicate n 0, 0) j = (replicate n 0, 0)"
  using assms by (auto simp: mul_inner_def list_update_same_conv)

lemma mul_row_zero:
  assumes "\<And>j. j < k \<Longrightarrow> xs ! i = 0 \<or> ys ! j = 0" "i + k \<le> n"
  shows "foldl (mul_inner xs ys i) (replicate n 0, 0) [0..<k] = (replicate n 0, 0)"
  using assms
proof (induction k)
  case (Suc k)
  then show ?case using mul_inner_zero [of xs i ys k n] by (simp add: foldl_upt_Suc)
qed simp

lemma word_mul_small:
  assumes "length a = 32" "length b = 32" "word_fits_u64 a" "word_fits_u64 b"
  shows "word_mul a b = zero256"
proof -
  let ?a = "[0, 0, 0, be_val a]" and ?b = "[0, 0, 0, be_val b]"
  have row: "foldl (mul_inner ?a ?b i) (replicate 4 0, 0) [0..<4 - i] = (replicate 4 0, 0)" if "i < 4" for i
  proof (rule mul_row_zero)
    show "?a ! i = 0 \<or> ?b ! j = 0" if "j < 4 - i" for j
      using that \<open>i < 4\<close> by (auto simp: nth_Cons' split: if_splits)
  qed (use that in simp)
  have rows: "foldl (\<lambda>res i. fst (foldl (mul_inner ?a ?b i) (res, 0) [0..<4 - i])) (replicate 4 0) [0..<n] = replicate 4 0"
    if "n \<le> 4" for n using that by (induction n) (simp_all only: foldl_upt_Suc row fst_conv upt_0 foldl_Nil Suc_le_eq less_imp_le)
  have "word_mul a b = u64_le_to_bytes (replicate 4 0)"
    unfolding word_mul_def limbs_small [OF assms(1,3)] limbs_small [OF assms(2,4)] Let_def
    using rows [of 4] by (simp add: numeral_eq_Suc)
  then show ?thesis using u64_bytes_zero by (simp add: numeral_eq_Suc)
qed

lemma zero256_fits: "word_fits_u64 zero256" "word_fits_u64 (word_from_u64 1)" "length (word_from_u64 1) = 32"
  by (simp_all add: word_fits_u64_def zero256_def word_from_u64_def list_all_iff)

lemma exp_loop_small:
  assumes "length r = 32" "length base = 32" "word_fits_u64 r" "word_fits_u64 base"
  shows "exp_loop r base e = (if e = 0 then r else zero256)"
  using assms
proof (induction r base e rule: exp_loop.induct)
  case (1 r base e)
  show ?case
  proof (cases "e = 0")
    case False
    let ?r = "if e mod 2 = 1 then word_mul r base else r"
    have sq: "word_mul base base = zero256" using word_mul_small 1 by blast
    have r: "length ?r = 32" "word_fits_u64 ?r" using 1 word_mul_small [of r base] zero256_fits by simp_all
    have "exp_loop r base e = exp_loop ?r (word_mul base base) (e div 2)"
      using False by (subst exp_loop.simps) simp
    also have "\<dots> = (if e div 2 = 0 then ?r else zero256)"
      by (rule 1(1)) (use False r sq zero256_fits in auto)
    also have "\<dots> = zero256"
    proof (cases "e div 2 = 0")
      case True
      then have "e mod 2 = 1" using False by auto
      then show ?thesis using 1 word_mul_small [of r base] True by simp
    qed simp
    finally show ?thesis using False by simp
  qed (simp add: exp_loop.simps)
qed

lemma prop_carry_zero [simp]: "prop_carry res 0 k = res"
  by (simp add: prop_carry.simps)

lemma word_mul_full_small:
  assumes "length a = 32" "length b = 32" "word_fits_u64 a" "word_fits_u64 b" "be_val a * be_val b < 256"
  shows "word_mul_full a b = replicate 8 0 @ of_nat (be_val a * be_val b) # replicate 55 0"
proof -
  let ?a = "[0, 0, 0, be_val a]" and ?b = "[0, 0, 0, be_val b]" and ?z = "replicate 8 0 :: nat list"
  let ?row = "\<lambda>res i. let (res', carry) = foldl (mul_inner ?a ?b i) (res, 0) [0..<4] in prop_carry res' carry (i + 4)"
  have p: "be_val a * be_val b < 2 ^ 64" using assms(5) by simp
  have four: "Suc 3 = 4" by simp
  let ?r = "replicate 8 0 :: byte list"
  have six: "?r @ ?r @ ?r @ ?r @ ?r @ ?r = replicate 48 0" by (simp only: replicate_add [symmetric]) simp
  have row: "?row ?z i = ?z" if "i < 3" for i
    using mul_row_zero [of 4 ?a i ?b 8] that by (auto simp: nth_Cons')
  have "foldl (mul_inner ?a ?b 3) (?z, 0) [0..<3] = (?z, 0)"
    by (rule mul_row_zero) (auto simp: nth_Cons')
  moreover have "mul_inner ?a ?b 3 (?z, 0) 3 = (?z[6 := be_val a * be_val b], 0)"
    using p by (simp add: mul_inner_def)
  ultimately have "foldl (mul_inner ?a ?b 3) (?z, 0) [0..<Suc 3] = (?z[6 := be_val a * be_val b], 0)"
    unfolding foldl_upt_Suc by simp
  then have r3: "?row ?z 3 = ?z[6 := be_val a * be_val b]" unfolding four by simp
  have rows: "foldl ?row ?z [0..<n] = ?z" if "n \<le> 3" for n
    using that by (induction n) (simp_all only: foldl_upt_Suc row upt_0 foldl_Nil Suc_le_eq less_imp_le)
  have "foldl ?row ?z [0..<Suc 3] = ?z[6 := be_val a * be_val b]"
    unfolding foldl_upt_Suc rows [OF order_refl] by (rule r3)
  then have "word_mul_full a b = concat (map (\<lambda>i. to_le_bytes 8 (?z[6 := be_val a * be_val b] ! (7 - i))) [0..<8])"
    unfolding word_mul_full_def limbs_small [OF assms(1,3)] limbs_small [OF assms(2,4)] Let_def by simp
  also have "map (\<lambda>i. to_le_bytes 8 (?z[6 := be_val a * be_val b] ! (7 - i))) [0..<8]
      = [?r, to_le_bytes 8 (be_val a * be_val b), ?r, ?r, ?r, ?r, ?r, ?r]"
    by (simp add: upt_small)
  also have "concat \<dots> = ?r @ to_le_bytes 8 (be_val a * be_val b) @ replicate 48 0"
    using six by simp
  also have "to_le_bytes 8 (be_val a * be_val b) = of_nat (be_val a * be_val b) # replicate 7 0"
    using assms(5) to_le_bytes.simps(2) [of 7 "be_val a * be_val b"] by simp
  also have "replicate 8 0 @ (of_nat (be_val a * be_val b) # replicate 7 0) @ replicate 48 0
      = replicate 8 0 @ of_nat (be_val a * be_val b) # replicate 55 (0 :: byte)"
    using replicate_add [of 7 48 "0 :: byte"] by simp
  finally show ?thesis .
qed

lemma word_mul_full_length: "length (word_mul_full a b) = 64"
  by (simp add: word_mul_full_def Let_def length_concat comp_def sum_list_triv)

subsection \<open>Properties\<close>

text \<open>C19: Addition, subtraction, negation, unsigned division and remainder, and both logical shifts of
  32-byte words compute the arithmetic they stand for: modulo \<open>2 ^ 256\<close>, with division by zero
  giving zero and a shift of 256 or more giving zero.\<close>

theorem word_arith_correct:
  assumes "length a = 32" "length b = 32"
  shows "be_val (word_add a b) = (be_val a + be_val b) mod 2 ^ 256 \<and>
    int (be_val (word_sub a b)) = (int (be_val a) - int (be_val b)) mod 2 ^ 256 \<and>
    be_val (word_neg a) = (2 ^ 256 - be_val a) mod 2 ^ 256 \<and>
    be_val (word_div a b) = be_val a div be_val b \<and>
    be_val (word_mod a b) = (if be_val b = 0 then 0 else be_val a mod be_val b) \<and>
    be_val (word_shl b a) = (if be_val b < 256 then (be_val a * 2 ^ be_val b) mod 2 ^ 256 else 0) \<and>
    be_val (word_shr b a) = (if be_val b < 256 then be_val a div 2 ^ be_val b else 0)"
proof -
  have "be_val (word_shl b a) = (if be_val b < 256 then (be_val a * 2 ^ be_val b) mod 2 ^ 256 else 0)"
    using word_shl_val(1) [OF assms(2,1)] shift_amount_val [OF assms(2)] by (cases "be_val b < 256") (simp_all add: word_shl_def)
  moreover have "be_val (word_shr b a) = (if be_val b < 256 then be_val a div 2 ^ be_val b else 0)"
    using word_shr_val(1) [OF assms(2,1)] shift_amount_val [OF assms(2)] by (cases "be_val b < 256") (simp_all add: word_shr_def)
  ultimately show ?thesis
    using word_add_val(1) [OF assms] word_sub_val(1) [OF assms] word_neg_val(1) [OF assms(1)]
      word_div_val(1) [OF assms] word_mod_val(1) [OF assms] by (intro conjI)
qed

lemma word_from_u64_val:
  assumes "n < 2 ^ 64"
  shows "be_val (word_from_u64 n) = n" "length (word_from_u64 n) = 32"
proof -
  have "rev (word_from_u64 n) = to_le_bytes 8 n @ replicate 24 0" by (simp add: word_from_u64_def to_be_bytes_def)
  moreover have "n < 256 ^ 8" using assms by simp
  ultimately show "be_val (word_from_u64 n) = n"
    by (simp only: be_val_def le_val_append le_val_bytes le_val_zero)
  show "length (word_from_u64 n) = 32" by (simp add: word_from_u64_def)
qed

theorem word_arith_correct_witness:
  "be_val (word_div (word_from_u64 1000) (word_from_u64 7)) = 142 \<and>
   be_val (word_shl (word_from_u64 4) (word_from_u64 3)) = 48"
  using word_arith_correct [of "word_from_u64 1000" "word_from_u64 7"]
    word_arith_correct [of "word_from_u64 3" "word_from_u64 4"] by (simp add: word_from_u64_val)

text \<open>C26: Signed division and remainder, and addition modulo a word, are exact except in the stated
  cases. The test meant for the quotient of the least integer by \<open>-1\<close> fires instead when the divisor
  is the absolute value of a negative dividend: the quotient is then the dividend and not \<open>-1\<close>.
  \<open>word_addmod\<close> subtracts the modulus once when the sum does not overflow, so it is right exactly
  when the sum overflows or is below twice the modulus.\<close>

theorem word_signed_modular_exact:
  assumes "length a = 32" "length b = 32" "length m = 32" "be_val b \<noteq> 0" "be_val m \<noteq> 0"
  shows "int (be_val (word_sdiv a b)) =
      (if sval a < 0 \<and> sval b = - sval a then sval a else sval a sdiv sval b) mod 2 ^ 256 \<and>
    int (be_val (word_smod a b)) = (sval a smod sval b) mod 2 ^ 256 \<and>
    (be_val (word_addmod a b m) = (be_val a + be_val b) mod be_val m \<longleftrightarrow>
      2 ^ 256 \<le> be_val a + be_val b \<or> be_val a + be_val b < 2 * be_val m)"
proof -
  let ?t = "be_val a + be_val b" and ?m = "be_val m"
  have "(if ?m \<le> ?t then ?t - ?m else ?t) = ?t mod ?m \<longleftrightarrow> ?t < 2 * ?m"
  proof (cases "?t < 2 * ?m")
    case True
    then show ?thesis using one_subtraction(1) [OF True] by simp
  next
    case False
    then have "?t - ?m \<ge> ?m" "?m \<le> ?t" by linarith+
    moreover have "?t mod ?m < ?m" using assms(5) by simp
    ultimately have "(if ?m \<le> ?t then ?t - ?m else ?t) \<noteq> ?t mod ?m" by (metis leD)
    then show ?thesis using False by simp
  qed
  then have "be_val (word_addmod a b m) = ?t mod ?m \<longleftrightarrow> 2 ^ 256 \<le> ?t \<or> ?t < 2 * ?m"
    using word_addmod_val [OF assms(1,2,3,5)] by (cases "2 ^ 256 \<le> ?t") simp_all
  then show ?thesis using word_sdiv_val [OF assms(1,2,4)] word_smod_val [OF assms(1,2,4)] by blast
qed

theorem word_signed_modular_exact_witness:
  "be_val (word_addmod (word_from_u64 10) (word_from_u64 1) (word_from_u64 3)) \<noteq> 2 \<and>
   int (be_val (word_sdiv (word_from_u64 10) (word_from_u64 1))) = 10"
proof -
  have v: "sval (word_from_u64 n) = int n" if "n < 2 ^ 64" for n
  proof -
    have "n < 2 ^ 255" using that by (rule order_less_trans) simp
    then show ?thesis using word_from_u64_val(1) [OF that] unfolding sval_def by simp
  qed
  show ?thesis
    using word_signed_modular_exact [of "word_from_u64 10" "word_from_u64 1" "word_from_u64 3"] v [of 10] v [of 1]
    by (simp add: word_from_u64_val signed_divide_int_def)
qed

text \<open>C36: The product of two numbers below \<open>2 ^ 64\<close> is computed as zero: limb 0 is read from the most
  significant bytes, so the low limbs meet at limb 6, which is dropped. Exponentiation inherits it:
  a base below \<open>2 ^ 64\<close> to any power whose low 64 bits are not zero is zero.\<close>

theorem word_mul_small_is_zero:
  assumes "length a = 32" "length b = 32" "be_val a < 2 ^ 64" "be_val b < 2 ^ 64"
  shows "word_mul a b = zero256 \<and> (be_val b \<noteq> 0 \<longrightarrow> word_exp a b = zero256)"
proof -
  have f: "word_fits_u64 a" "word_fits_u64 b" using fits_u64_val(1) assms by blast+
  have "word_exp a b = exp_loop (word_from_u64 1) a (be_val b)" if "be_val b \<noteq> 0"
    using that fits_u64_val(2) [OF assms(2) f(2)] by (simp add: word_exp_def word_is_zero_iff)
  then show ?thesis
    using word_mul_small [OF assms(1,2) f] exp_loop_small [OF zero256_fits(3) assms(1) zero256_fits(2) f(1)] by simp
qed

theorem word_mul_small_is_zero_witness:
  "be_val (word_from_u64 6) = 6 \<and> be_val (word_from_u64 7) = 7 \<and>
   word_mul (word_from_u64 6) (word_from_u64 7) = zero256 \<and> word_exp (word_from_u64 6) (word_from_u64 7) = zero256"
  using word_mul_small_is_zero [of "word_from_u64 6" "word_from_u64 7"] by (simp add: word_from_u64_val)

text \<open>The reduction of a product in \<open>MULMOD\<close> aborts the process exactly when the quotient has a bit
  set among its low 256 bits, since that bit is written past the end of a 32-byte array; when it
  returns, the remainder is right. The modulus is taken up to \<open>2 ^ 255\<close>, where no bit of the
  remainder is shifted out.\<close>

theorem word_mulmod_aborts:
  assumes "length m = 32" "0 < be_val m" "be_val m \<le> 2 ^ 255"
  shows "(word_mulmod a b m = None \<longleftrightarrow> (be_val (word_mul_full a b) div be_val m) mod 2 ^ 256 \<noteq> 0) \<and>
    (\<forall>r. word_mulmod a b m = Some r \<longrightarrow> be_val r = be_val (word_mul_full a b) mod be_val m)"
proof -
  have "\<not> word_is_zero m" using assms by (simp add: word_is_zero_iff)
  then show ?thesis
    using long_divide_512_val [OF word_mul_full_length [of a b] assms]
    by (auto simp: word_mulmod_def split: option.splits)
qed

theorem word_mulmod_aborts_witness:
  "word_mulmod (word_from_u64 2) (word_from_u64 3) (word_from_u64 5) = None"
proof -
  let ?p = "word_mul_full (word_from_u64 2) (word_from_u64 3)"
  have v: "be_val (word_from_u64 5) = 5" by (simp add: word_from_u64_val)
  define lo K :: nat where "lo = 23158417847463239084714197001737581570653996933128112807891516801582625927987"
    and "K = lo + 2 ^ 256 * 29423914384625066080480262921285936325479791145925161779"
  have f: "word_fits_u64 (word_from_u64 2)" "word_fits_u64 (word_from_u64 3)"
    by (simp_all add: word_fits_u64_def word_from_u64_def list_all_iff)
  have "?p = replicate 8 0 @ of_nat 6 # replicate 55 0"
    using word_mul_full_small [OF word_from_u64_val(2) word_from_u64_val(2) f] by (simp add: word_from_u64_val)
  then have "rev ?p = replicate 55 0 @ [6] @ replicate 8 0" by simp
  then have "be_val ?p = 256 ^ 55 * 6"
    unfolding be_val_def by (simp only: le_val_append le_val_zero length_replicate le_val.simps) simp
  also have "\<dots> = 1 + 5 * K" unfolding K_def lo_def by simp
  finally have "be_val ?p div 5 = K" by simp
  moreover have "K mod 2 ^ 256 = lo mod 2 ^ 256" unfolding K_def by (rule mod_mult_self2)
  moreover have "lo < 2 ^ 256" "lo \<noteq> 0" by (simp_all add: lo_def)
  ultimately have "(be_val ?p div be_val (word_from_u64 5)) mod 2 ^ 256 \<noteq> 0"
    unfolding v by (simp only: mod_less) simp
  then show ?thesis
    by (rule word_mulmod_aborts [of "word_from_u64 5", THEN conjunct1, THEN iffD2, rotated 3]) (simp_all add: word_from_u64_val)
qed

end
