(* ===== verification/Validator_Set.thy ===== *)
theory Validator_Set
  imports Bytes Rust_Str Lru_Cache "HOL-Library.Multiset"
begin

text \<open>
  The validator set of the consensus layer, \<open>src/consensus/validator_set.rs\<close>: construction and
  validation, voting power, round-robin proposer selection, quorum threshold, difference and merge,
  the canonical hash input, and the manager with its proposer cache; the free function
  \<open>quorum_threshold\<close> of \<open>src/consensus/quorum.rs\<close>; and the quorum calculator of
  \<open>src/consensus/quorum_diag.rs\<close>. A public key is a byte list. The manager's methods are split at the
  points where they release a lock, so that interleavings of two threads are sequences of the parts.
\<close>

type_synonym pk = "byte list"

record cvalidator =
  v_pk :: pk
  v_power :: u64

record validator_set =
  vals :: "cvalidator list"

datatype validator_set_error =
    EmptySet
  | DuplicatePublicKey string
  | ZeroPower
  | TooLarge usize usize
  | VsConfig string
  | ValidationFailed string

subsection \<open>Construction\<close>

fun check_vals :: "(byte list \<Rightarrow> string) \<Rightarrow> string list \<Rightarrow> cvalidator list \<Rightarrow> (validator_set_error, unit) result" where
  "check_vals hex seen [] = Ok ()"
| "check_vals hex seen (v # vs) =
     (if v_power v = 0 then Err ZeroPower
      else let key = hex (v_pk v) in
        if key \<in> set seen then Err (DuplicatePublicKey key) else check_vals hex (key # seen) vs)"

definition validate_validator_set :: "(byte list \<Rightarrow> string) \<Rightarrow> cvalidator list \<Rightarrow> (validator_set_error, unit) result" where
  "validate_validator_set hex vs = (if vs = [] then Err EmptySet else check_vals hex [] vs)"

definition validator_set_new :: "(byte list \<Rightarrow> string) \<Rightarrow> cvalidator list \<Rightarrow> usize \<Rightarrow> (validator_set_error, validator_set) result" where
  "validator_set_new hex vs max_size =
     (if vs = [] then Err EmptySet
      else if max_size < length vs then Err (TooLarge (length vs) max_size)
      else case check_vals hex [] vs of Ok _ \<Rightarrow> Ok \<lparr>vals = vs\<rparr> | Err e \<Rightarrow> Err e | Panic \<Rightarrow> Panic)"

subsection \<open>Power and quorum\<close>

definition total_power :: "validator_set \<Rightarrow> u64" where
  "total_power s = foldl (\<lambda>acc v. saturating_add 64 acc (v_power v)) 0 (vals s)"

definition power_of :: "validator_set \<Rightarrow> pk \<Rightarrow> u64" where
  "power_of s k = (case find (\<lambda>v. v_pk v = k) (vals s) of Some v \<Rightarrow> v_power v | None \<Rightarrow> 0)"

definition vs_contains :: "validator_set \<Rightarrow> pk \<Rightarrow> bool" where
  "vs_contains s k = (0 < power_of s k)"

definition QUORUM_NUMERATOR :: u64 where "QUORUM_NUMERATOR = 2"

definition QUORUM_DENOMINATOR :: u64 where "QUORUM_DENOMINATOR = 3"

definition set_quorum_threshold :: "validator_set \<Rightarrow> u64" where
  "set_quorum_threshold s =
     saturating_add 64 (saturating_mul 64 (total_power s) QUORUM_NUMERATOR div QUORUM_DENOMINATOR) 1"

definition quorum_threshold :: "u64 \<Rightarrow> u64 option" where
  \<comment> \<open>the free function of \<open>quorum.rs\<close>; \<open>None\<close> is the overflow panic of the plain product\<close>
  "quorum_threshold tp =
     (if tp = 0 then Some 1
      else case checked_mul 64 tp QUORUM_NUMERATOR of
        None \<Rightarrow> None
      | Some x \<Rightarrow> checked_add 64 (x div QUORUM_DENOMINATOR) 1)"

definition has_quorum :: "u64 \<Rightarrow> u64 \<Rightarrow> bool option" where
  "has_quorum voting_power tp = map_option (\<lambda>t. t \<le> voting_power) (quorum_threshold tp)"

subsection \<open>Proposer\<close>

definition try_proposer_for :: "validator_set \<Rightarrow> u64 \<Rightarrow> u32 \<Rightarrow> cvalidator option" where
  "try_proposer_for s height round =
     (let n = length (vals s) in
      if n = 0 then None else Some (vals s ! (wrapping_add 64 height round mod n)))"

definition proposer_for :: "validator_set \<Rightarrow> u64 \<Rightarrow> u32 \<Rightarrow> (unit, cvalidator) result" where
  "proposer_for s height round = (case try_proposer_for s height round of Some v \<Rightarrow> Ok v | None \<Rightarrow> Panic)"

subsection \<open>Difference and merge\<close>

definition vs_diff :: "validator_set \<Rightarrow> validator_set \<Rightarrow> cvalidator list \<times> cvalidator list \<times> cvalidator list" where
  "vs_diff s t =
     (let self_map = map_of (rev (map (\<lambda>v. (v_pk v, v)) (vals s))) in
      (filter (\<lambda>v. self_map (v_pk v) = None) (vals t),
       filter (\<lambda>v. v_pk v \<notin> v_pk ` set (vals t)) (vals s),
       filter (\<lambda>v. case self_map (v_pk v) of None \<Rightarrow> False | Some e \<Rightarrow> v_power e \<noteq> v_power v) (vals t)))"

fun merge_loop :: "(pk \<times> nat) list \<Rightarrow> cvalidator list \<Rightarrow> cvalidator list \<Rightarrow> cvalidator list" where
  "merge_loop index vs [] = vs"
| "merge_loop index vs (v # others) =
     (case map_of index (v_pk v) of
        Some i \<Rightarrow> merge_loop index (vs[i := (vs ! i)\<lparr>v_power := v_power v\<rparr>]) others
      | None \<Rightarrow> merge_loop ((v_pk v, length vs) # index) (vs @ [v]) others)"

definition vs_merge :: "validator_set \<Rightarrow> validator_set \<Rightarrow> validator_set" where
  "vs_merge s t =
     \<lparr>vals = merge_loop (rev (map (\<lambda>(i, v). (v_pk v, i)) (enumerate 0 (vals s)))) (vals s) (vals t)\<rparr>"

subsection \<open>Canonical hash\<close>

definition hash_input :: "validator_set \<Rightarrow> byte list" where
  \<comment> \<open>the bytes fed to blake3\<close>
  "hash_input s =
     (let sorted_vals = sort_key v_pk (vals s) in
      str_bytes ''iona/vset/v1:'' @ to_le_bytes 8 (length sorted_vals) @
      concat (map (\<lambda>v. v_pk v @ to_le_bytes 8 (v_power v)) sorted_vals))"

definition hash_hex :: "(byte list \<Rightarrow> string) \<Rightarrow> validator_set \<Rightarrow> string" where
  \<comment> \<open>\<open>blake3_hex\<close> is the third-party hash, printed in hexadecimal\<close>
  "hash_hex blake3_hex s = blake3_hex (hash_input s)"

subsection \<open>Manager\<close>

record validator_set_config =
  vs_enable_cache :: bool
  vs_cache_size :: usize
  vs_cache_ttl_secs :: u64
  vs_validate_on_create :: bool

definition validator_set_config_default :: validator_set_config where
  "validator_set_config_default =
     \<lparr>vs_enable_cache = True, vs_cache_size = 128, vs_cache_ttl_secs = 60, vs_validate_on_create = True\<rparr>"

definition vs_config_validate :: "validator_set_config \<Rightarrow> (string, unit) result" where
  "vs_config_validate c =
     (if vs_cache_size c = 0 then Err ''cache_size must be > 0''
      else if vs_cache_ttl_secs c = 0 then Err ''cache_ttl_secs must be > 0''
      else Ok ())"

type_synonym proposer_key = "u64 \<times> u32"
type_synonym proposer_entry = "cvalidator \<times> nat"
type_synonym 'c proposer_lru = "('c, proposer_key, proposer_entry) lru_ops"

record 'c vset_manager =
  m_config :: validator_set_config
  m_vset :: validator_set
  m_cache :: "'c option"

definition manager_new :: "'c proposer_lru \<Rightarrow> validator_set_config \<Rightarrow> validator_set \<Rightarrow> (validator_set_error, 'c vset_manager) result" where
  "manager_new L c s =
     (case vs_config_validate c of
        Err e \<Rightarrow> Err (VsConfig e)
      | Panic \<Rightarrow> Panic
      | Ok _ \<Rightarrow> Ok \<lparr>m_config = c, m_vset = s,
          m_cache = (if vs_enable_cache c then Some (lru_new L (vs_cache_size c)) else None)\<rparr>)"

text \<open>
  \<open>update\<close> installs the set under one lock and clears the cache under another; \<open>proposer_for\<close> looks the
  key up, computes and stores under three locks.
\<close>

definition update_check :: "(byte list \<Rightarrow> string) \<Rightarrow> 'c vset_manager \<Rightarrow> validator_set \<Rightarrow> (validator_set_error, unit) result" where
  "update_check hex m new_vset =
     (if vs_validate_on_create (m_config m)
      then case validator_set_new hex (vals new_vset) (2 ^ 64 - 1) of Ok _ \<Rightarrow> Ok () | Err e \<Rightarrow> Err e | Panic \<Rightarrow> Panic
      else Ok ())"

definition update_install :: "'c vset_manager \<Rightarrow> validator_set \<Rightarrow> 'c vset_manager" where
  "update_install m new_vset = m\<lparr>m_vset := new_vset\<rparr>"

definition clear_cache :: "'c proposer_lru \<Rightarrow> 'c vset_manager \<Rightarrow> 'c vset_manager" where
  "clear_cache L m = m\<lparr>m_cache := map_option (lru_clear L) (m_cache m)\<rparr>"

definition manager_update ::
  "'c proposer_lru \<Rightarrow> (byte list \<Rightarrow> string) \<Rightarrow> 'c vset_manager \<Rightarrow> validator_set \<Rightarrow> 'c vset_manager \<times> (validator_set_error, unit) result" where
  "manager_update L hex m new_vset =
     (case update_check hex m new_vset of
        Ok _ \<Rightarrow> (clear_cache L (update_install m new_vset), Ok ())
      | r \<Rightarrow> (m, r))"

definition pf_lookup :: "'c proposer_lru \<Rightarrow> nat \<Rightarrow> 'c vset_manager \<Rightarrow> proposer_key \<Rightarrow> 'c vset_manager \<times> cvalidator option" where
  "pf_lookup L now m key =
     (if vs_enable_cache (m_config m) then
        case m_cache m of
          None \<Rightarrow> (m, None)
        | Some c \<Rightarrow>
            (case lru_get L c key of
               (c1, Some (v, expires)) \<Rightarrow>
                 (if now < expires then (m\<lparr>m_cache := Some c1\<rparr>, Some v)
                  else (m\<lparr>m_cache := Some (lru_pop L c1 key)\<rparr>, None))
             | (c1, None) \<Rightarrow> (m\<lparr>m_cache := Some c1\<rparr>, None))
      else (m, None))"

definition pf_store :: "'c proposer_lru \<Rightarrow> nat \<Rightarrow> 'c vset_manager \<Rightarrow> proposer_key \<Rightarrow> cvalidator \<Rightarrow> 'c vset_manager" where
  "pf_store L now m key v =
     (if vs_enable_cache (m_config m)
      then m\<lparr>m_cache := map_option (\<lambda>c. lru_put L c key (v, now + vs_cache_ttl_secs (m_config m))) (m_cache m)\<rparr>
      else m)"

definition manager_proposer_for ::
  "'c proposer_lru \<Rightarrow> nat \<Rightarrow> 'c vset_manager \<Rightarrow> u64 \<Rightarrow> u32 \<Rightarrow> 'c vset_manager \<times> (validator_set_error, cvalidator) result" where
  "manager_proposer_for L now m height round =
     (case pf_lookup L now m (height, round) of
        (m1, Some v) \<Rightarrow> (m1, Ok v)
      | (m1, None) \<Rightarrow>
          (case try_proposer_for (m_vset m1) height round of
             None \<Rightarrow> (m1, Err EmptySet)
           | Some v \<Rightarrow> (pf_store L now m1 (height, round) v, Ok v)))"

subsection \<open>Quorum calculator\<close>

record quorum_calculator =
  qc_vset :: validator_set
  qc_total_power :: u64
  qc_threshold :: u64

record quorum_diagnostic =
  total_validators :: usize
  qd_total_power :: u64
  qd_threshold :: u64
  current_power :: u64
  qd_has_quorum :: bool
  voted :: "string list"
  missing :: "string list"
  reason :: "string option"

definition quorum_calculator_new :: "validator_set \<Rightarrow> quorum_calculator option" where
  "quorum_calculator_new s =
     (let tp = total_power s in
      case checked_mul 64 tp 2 of
        None \<Rightarrow> None
      | Some x \<Rightarrow> map_option (\<lambda>t. \<lparr>qc_vset = s, qc_total_power = tp, qc_threshold = t\<rparr>) (checked_add 64 (x div 3) 1))"

fun count_loop ::
  "(byte list \<Rightarrow> string) \<Rightarrow> pk set \<Rightarrow> u64 \<Rightarrow> string list \<Rightarrow> string list \<Rightarrow> cvalidator list \<Rightarrow> (u64 \<times> string list \<times> string list) option" where
  "count_loop hex voters cur yes no [] = Some (cur, yes, no)"
| "count_loop hex voters cur yes no (v # vs) =
     (if length (v_pk v) < 8 then None
      else let key = hex (take 8 (v_pk v)) in
        if v_pk v \<in> voters
        then case checked_add 64 cur (v_power v) of
               None \<Rightarrow> None
             | Some cur' \<Rightarrow> count_loop hex voters cur' (yes @ [key]) no vs
        else count_loop hex voters cur yes (no @ [key]) vs)"

definition qc_check :: "(byte list \<Rightarrow> string) \<Rightarrow> quorum_calculator \<Rightarrow> pk list \<Rightarrow> quorum_diagnostic option" where
  "qc_check hex q voters =
     (case count_loop hex (set voters) 0 [] [] (vals (qc_vset q)) of
        None \<Rightarrow> None
      | Some (cur, yes, no) \<Rightarrow>
          (let ok = qc_threshold q \<le> cur; n = length (vals (qc_vset q)) in
           Some \<lparr>total_validators = n, qd_total_power = qc_total_power q,
             qd_threshold = qc_threshold q, current_power = cur, qd_has_quorum = ok, voted = yes, missing = no,
             reason = (if ok then None
               else Some (''missing_quorum: have='' @ decimal cur @ '' need='' @ decimal (qc_threshold q) @
                          '' (voted='' @ decimal (length yes) @ ''/'' @ decimal n @ '' validators)''))\<rparr>))"

fun greedy :: "u64 \<Rightarrow> usize \<Rightarrow> u64 \<Rightarrow> u64 list \<Rightarrow> usize" where
  "greedy deficit i acc [] = 2 ^ 64 - 1"
| "greedy deficit i acc (p # ps) =
     (let acc' = saturating_add 64 acc p in if deficit \<le> acc' then i + 1 else greedy deficit (i + 1) acc' ps)"

definition missing_powers :: "quorum_calculator \<Rightarrow> pk list \<Rightarrow> u64 list" where
  "missing_powers q voters = map v_power (filter (\<lambda>v. v_pk v \<notin> set voters) (vals (qc_vset q)))"

definition validators_needed :: "(byte list \<Rightarrow> string) \<Rightarrow> quorum_calculator \<Rightarrow> pk list \<Rightarrow> usize option" where
  "validators_needed hex q voters =
     map_option (\<lambda>diag. if qd_has_quorum diag then 0
        else greedy (saturating_sub (qc_threshold q) (current_power diag)) 0 0 (rev (sort (missing_powers q voters))))
       (qc_check hex q voters)"

definition can_reach_quorum :: "quorum_calculator \<Rightarrow> bool" where
  "can_reach_quorum q = (qc_threshold q \<le> qc_total_power q)"

subsection \<open>Well-formed sets\<close>

definition vs_wf :: "validator_set \<Rightarrow> bool" where
  \<comment> \<open>what \<open>ValidatorSet::new\<close> accepts\<close>
  "vs_wf s \<longleftrightarrow> vals s \<noteq> [] \<and> distinct (map v_pk (vals s)) \<and> (\<forall>v \<in> set (vals s). v_power v \<noteq> 0)"

definition power_sum :: "validator_set \<Rightarrow> nat" where
  "power_sum s = sum_list (map v_power (vals s))"

definition power_in :: "validator_set \<Rightarrow> pk set \<Rightarrow> nat" where
  \<comment> \<open>the power of the validators whose key is in a set\<close>
  "power_in s K = sum_list (map v_power (filter (\<lambda>v. v_pk v \<in> K) (vals s)))"

lemma check_vals_ok:
  assumes "inj hex"
  shows "check_vals hex seen vs = Ok () \<longleftrightarrow>
    distinct (map v_pk vs) \<and> (\<forall>v \<in> set vs. v_power v \<noteq> 0 \<and> hex (v_pk v) \<notin> set seen)"
proof (induction vs arbitrary: seen)
  case (Cons v vs)
  have "v_pk v \<notin> v_pk ` set vs \<longleftrightarrow> (\<forall>w \<in> set vs. hex (v_pk w) \<noteq> hex (v_pk v))"
    using inj_eq [OF assms] by (auto simp: image_iff)
  then show ?case using Cons.IH [of "hex (v_pk v) # seen"] by (auto simp: Let_def)
qed simp

lemma validator_set_new_iff:
  assumes "inj hex"
  shows "validator_set_new hex vs n = Ok s \<longleftrightarrow> s = \<lparr>vals = vs\<rparr> \<and> vs_wf s \<and> length vs \<le> n"
proof -
  have "check_vals hex [] vs \<noteq> Panic" for vs
  proof -
    have "check_vals hex seen vs \<noteq> Panic" for seen
      by (induction vs arbitrary: seen) (auto simp: Let_def)
    then show ?thesis .
  qed
  then show ?thesis
    using check_vals_ok [OF assms, of "[]" vs]
    by (auto simp: validator_set_new_def vs_wf_def split: result.splits if_splits)
qed

lemma foldl_saturating:
  assumes "acc < 2 ^ 64"
  shows "foldl (\<lambda>acc v. saturating_add 64 acc (v_power v)) acc vs = min (acc + sum_list (map v_power vs)) (2 ^ 64 - 1)"
  using assms
proof (induction vs arbitrary: acc)
  case (Cons v vs)
  have "saturating_add 64 acc (v_power v) < 2 ^ 64" by (rule saturating_add_less)
  from Cons.IH [OF this] show ?case by (simp add: saturating_add_def min_def)
qed simp

lemma total_power_min: "total_power s = min (power_sum s) (2 ^ 64 - 1)"
  using foldl_saturating [of 0 "vals s"] by (simp add: total_power_def power_sum_def)

lemma total_power_exact: "power_sum s < 2 ^ 64 \<Longrightarrow> total_power s = power_sum s"
  by (simp add: total_power_min)

subsection \<open>Quorums\<close>

lemma power_in_overlap: "power_in s V + power_in s W \<le> power_sum s + power_in s (V \<inter> W)"
proof -
  have "sum_list (map v_power (filter (\<lambda>v. v_pk v \<in> V) vs)) + sum_list (map v_power (filter (\<lambda>v. v_pk v \<in> W) vs))
      \<le> sum_list (map v_power vs) + sum_list (map v_power (filter (\<lambda>v. v_pk v \<in> V \<inter> W) vs))" for vs
    by (induction vs) auto
  then show ?thesis by (simp add: power_in_def power_sum_def)
qed

lemma quorum_threshold_val:
  assumes "power_sum s < 2 ^ 63"
  shows "quorum_threshold (total_power s) = Some (2 * power_sum s div 3 + 1)"
    "set_quorum_threshold s = 2 * power_sum s div 3 + 1"
proof -
  have t: "total_power s = power_sum s" by (rule total_power_exact) (use assms in simp)
  have m: "power_sum s * 2 < 2 ^ 64" using assms by simp
  have "power_sum s * 2 div 3 \<le> power_sum s" by linarith
  then have d: "power_sum s * 2 div 3 + 1 < 2 ^ 64" using assms by simp
  show "quorum_threshold (total_power s) = Some (2 * power_sum s div 3 + 1)"
    using m d by (simp add: t quorum_threshold_def checked_defs QUORUM_NUMERATOR_def QUORUM_DENOMINATOR_def mult.commute)
  show "set_quorum_threshold s = 2 * power_sum s div 3 + 1"
    using m d by (simp add: t set_quorum_threshold_def saturating_defs QUORUM_NUMERATOR_def QUORUM_DENOMINATOR_def mult.commute)
qed

lemma two_thirds_overlap: "2 * t div 3 + 1 \<le> a \<Longrightarrow> 2 * t div 3 + 1 \<le> b \<Longrightarrow> a + b \<le> t + c \<Longrightarrow> t < 3 * (c :: nat)"
  by linarith

subsection \<open>Proposer rotation\<close>

lemma map_rotate: "xs \<noteq> [] \<Longrightarrow> map (\<lambda>i. xs ! ((k + i) mod length xs)) [0..<length xs] = rotate k xs"
  by (rule nth_equalityI) (simp_all add: nth_rotate)

lemma mset_rotate: "mset (rotate k xs) = mset xs"
  using append_take_drop_id [of "k mod length xs" xs]
  by (metis add.commute mset_append rotate_drop_take)

subsection \<open>Greedy completion of a quorum\<close>

lemma greedy_spec:
  assumes "acc < deficit" "acc + sum_list ps < 2 ^ 64"
  shows "greedy deficit i acc ps =
    (if deficit \<le> acc + sum_list ps then i + (LEAST k. deficit \<le> acc + sum_list (take k ps)) else 2 ^ 64 - 1)"
  using assms
proof (induction ps arbitrary: i acc)
  case (Cons p ps)
  have sat: "saturating_add 64 acc p = acc + p" using Cons.prems(2) by (intro saturating_add_exact) simp
  show ?case
  proof (cases "deficit \<le> acc + p")
    case True
    have "(LEAST k. deficit \<le> acc + sum_list (take k (p # ps))) = 1"
    proof (rule Least_equality)
      show "1 \<le> k" if "deficit \<le> acc + sum_list (take k (p # ps))" for k
        using that Cons.prems(1) by (cases k) auto
    qed (use True in simp)
    then show ?thesis using True sat by simp
  next
    case False
    have ih: "greedy deficit (i + 1) (acc + p) ps = (if deficit \<le> acc + p + sum_list ps
        then i + 1 + (LEAST k. deficit \<le> acc + p + sum_list (take k ps)) else 2 ^ 64 - 1)"
      by (rule Cons.IH) (use False Cons.prems in auto)
    show ?thesis
    proof (cases "deficit \<le> acc + p + sum_list ps")
      case True
      let ?P = "\<lambda>k. deficit \<le> acc + sum_list (take k (p # ps))"
      have "?P (Suc (length ps))" using True by simp
      moreover have "\<not> ?P 0" using Cons.prems(1) by simp
      ultimately have "(LEAST k. ?P k) = Suc (LEAST k. ?P (Suc k))" by (rule Least_Suc)
      then show ?thesis using True False sat ih by (simp add: add.assoc)
    qed (use False sat ih in \<open>simp add: add.assoc\<close>)
  qed
qed simp

lemma subset_add_mset_notin_subset: "A \<subseteq># add_mset x B \<Longrightarrow> x \<notin># A \<Longrightarrow> A \<subseteq># B"
  by (metis diff_single_trivial subset_eq_diff_conv union_mset_add_mset_right add.right_neutral)

lemma take_sorted_max:
  assumes "sorted (rev xs)" "mset ys \<subseteq># mset xs"
  shows "sum_list ys \<le> sum_list (take (length ys) xs :: nat list)"
  using assms
proof (induction xs arbitrary: ys)
  case (Cons x xs)
  have s: "sorted (rev xs)" "\<And>y. y \<in> set xs \<Longrightarrow> y \<le> x" using Cons.prems(1) by (auto simp: sorted_append)
  show ?case
  proof (cases "x \<in> set ys")
    case True
    have m: "mset (remove1 x ys) \<subseteq># mset xs" using Cons.prems(2) True
      by (metis mset.simps(2) mset_remove1 insert_subset_eq_iff add_mset_remove_trivial mset_subset_eq_insertD in_multiset_in_set insert_DiffM mset_subset_eq_add_mset_cancel)
    have "sum_list ys = x + sum_list (remove1 x ys)" using True by (rule sum_list_map_remove1 [of x ys "\<lambda>x. x", simplified])
    moreover have "length ys = Suc (length (remove1 x ys))" using True by (simp add: length_remove1) (metis Suc_pred length_pos_if_in_set)
    ultimately show ?thesis using Cons.IH [OF s(1) m] by simp
  next
    case False
    then have m: "mset ys \<subseteq># mset xs"
      using Cons.prems(2) subset_add_mset_notin_subset [of "mset ys" x "mset xs"] by simp
    show ?thesis
    proof (cases ys)
      case (Cons y ys')
      have "mset ys' \<subseteq># mset xs" using m Cons by (metis mset.simps(2) mset_subset_eq_insertD subset_mset.less_imp_le)
      then have "sum_list ys' \<le> sum_list (take (length ys') xs)" by (rule Cons.IH [OF s(1)])
      moreover have "y \<le> x" using s(2) m Cons by (metis list.set_intros(1) mset_subset_eqD set_mset_mset)
      ultimately show ?thesis using Cons by simp
    qed simp
  qed
qed simp

lemma count_loop_val:
  assumes "\<And>v. v \<in> set vs \<Longrightarrow> 8 \<le> length (v_pk v)"
    and "cur + sum_list (map v_power (filter (\<lambda>v. v_pk v \<in> V) vs)) < 2 ^ 64"
  shows "\<exists>yes' no'. count_loop hex V cur yes no vs
    = Some (cur + sum_list (map v_power (filter (\<lambda>v. v_pk v \<in> V) vs)), yes', no')"
  using assms
proof (induction vs arbitrary: cur yes no)
  case (Cons v vs)
  have l: "\<not> length (v_pk v) < 8" "\<And>w. w \<in> set vs \<Longrightarrow> 8 \<le> length (v_pk w)" using Cons.prems(1) by fastforce+
  show ?case
  proof (cases "v_pk v \<in> V")
    case True
    then have b: "cur + v_power v + sum_list (map v_power (filter (\<lambda>v. v_pk v \<in> V) vs)) < 2 ^ 64"
      using Cons.prems(2) by simp
    then have "cur + v_power v < 2 ^ 64" by (rule le_less_trans [rotated]) simp
    then show ?thesis using Cons.IH [OF l(2) b] True l(1) by (simp add: Let_def checked_add_def add.assoc)
  next
    case False
    then have "cur + sum_list (map v_power (filter (\<lambda>v. v_pk v \<in> V) vs)) < 2 ^ 64" using Cons.prems(2) by simp
    from Cons.IH [OF l(2) this] show ?thesis using False l(1) by (simp add: Let_def)
  qed
qed simp

lemma qc_check_val:
  assumes "\<And>v. v \<in> set (vals (qc_vset q)) \<Longrightarrow> 8 \<le> length (v_pk v)" and "power_in (qc_vset q) (set voters) < 2 ^ 64"
  obtains d where "qc_check hex q voters = Some d" "current_power d = power_in (qc_vset q) (set voters)"
    "qd_has_quorum d \<longleftrightarrow> qc_threshold q \<le> power_in (qc_vset q) (set voters)"
  using count_loop_val [of "vals (qc_vset q)" 0 "set voters" hex "[]" "[]"] assms
  by (auto simp: qc_check_def power_in_def Let_def)

lemma power_in_missing: "power_in (qc_vset q) (set voters) + sum_list (missing_powers q voters) = power_sum (qc_vset q)"
proof -
  have "sum_list (map v_power (filter (\<lambda>v. v_pk v \<in> V) vs)) + sum_list (map v_power (filter (\<lambda>v. v_pk v \<notin> V) vs))
      = sum_list (map v_power vs)" for V vs by (induction vs) auto
  then show ?thesis by (simp add: power_in_def power_sum_def missing_powers_def)
qed

lemma sum_list_sort: "sum_list (sort xs) = sum_list (xs :: nat list)"
  by (metis mset_sort sum_mset_sum_list)

lemma quorum_calculator_new_val:
  assumes "power_sum s < 2 ^ 63"
  shows "quorum_calculator_new s = Some \<lparr>qc_vset = s, qc_total_power = power_sum s, qc_threshold = 2 * power_sum s div 3 + 1\<rparr>"
proof -
  have t: "total_power s = power_sum s" by (rule total_power_exact) (use assms in simp)
  have m: "power_sum s * 2 < 2 ^ 64" using assms by simp
  have "power_sum s * 2 div 3 \<le> power_sum s" by linarith
  then have "power_sum s * 2 div 3 + 1 < 2 ^ 64" using assms by simp
  then show ?thesis using m by (simp add: quorum_calculator_new_def t checked_defs Let_def mult.commute)
qed

lemma greedy_optimal:
  assumes "0 < deficit" "deficit \<le> sum_list ps" "sum_list ps < 2 ^ 64"
  defines "k \<equiv> greedy deficit 0 0 (rev (sort ps))"
  shows "k \<le> length ps" "deficit \<le> sum_list (take k (rev (sort ps)))"
    "mset extra \<subseteq># mset ps \<Longrightarrow> length extra < k \<Longrightarrow> sum_list extra < deficit"
proof -
  let ?r = "rev (sort ps)"
  have k: "k = (LEAST k. deficit \<le> sum_list (take k ?r))"
    using greedy_spec [of 0 deficit ?r 0] assms by (simp add: sum_list_sort)
  have full: "deficit \<le> sum_list (take (length ps) ?r)" using assms(2) by (simp add: sum_list_sort take_all)
  show "k \<le> length ps" unfolding k by (rule Least_le) (rule full)
  show "deficit \<le> sum_list (take k ?r)" unfolding k by (rule LeastI) (rule full)
  show "sum_list extra < deficit" if "mset extra \<subseteq># mset ps" "length extra < k"
  proof -
    have "\<not> deficit \<le> sum_list (take (length extra) ?r)" using that(2) unfolding k by (rule not_less_Least)
    moreover have "sum_list extra \<le> sum_list (take (length extra) ?r)"
      by (rule take_sorted_max) (use that(1) in simp_all)
    ultimately show ?thesis by simp
  qed
qed

subsection \<open>Proposer cache\<close>

definition proposers_coherent :: "('c \<Rightarrow> proposer_key \<Rightarrow> proposer_entry option) \<Rightarrow> 'c vset_manager \<Rightarrow> bool" where
  "proposers_coherent view m \<longleftrightarrow>
     (\<forall>c h r v e. m_cache m = Some c \<longrightarrow> view c (h, r) = Some (v, e) \<longrightarrow> try_proposer_for (m_vset m) h r = Some v)"

datatype mgr_op = Mgr_Update validator_set | Mgr_Proposer nat u64 u32 | Mgr_Clear

fun run_manager :: "'c proposer_lru \<Rightarrow> (byte list \<Rightarrow> string) \<Rightarrow> 'c vset_manager \<Rightarrow> mgr_op list \<Rightarrow> (validator_set_error, cvalidator) result list" where
  "run_manager L hex m [] = []"
| "run_manager L hex m (Mgr_Update s # ops) = run_manager L hex (fst (manager_update L hex m s)) ops"
| "run_manager L hex m (Mgr_Clear # ops) = run_manager L hex (clear_cache L m) ops"
| "run_manager L hex m (Mgr_Proposer now h r # ops) =
     (let (m', res) = manager_proposer_for L now m h r in res # run_manager L hex m' ops)"

fun run_uncached :: "(byte list \<Rightarrow> string) \<Rightarrow> bool \<Rightarrow> validator_set \<Rightarrow> mgr_op list \<Rightarrow> (validator_set_error, cvalidator) result list" where
  "run_uncached hex validate s [] = []"
| "run_uncached hex validate s (Mgr_Update t # ops) =
     run_uncached hex validate (if validate \<and> \<not> is_ok (validator_set_new hex (vals t) (2 ^ 64 - 1)) then s else t) ops"
| "run_uncached hex validate s (Mgr_Clear # ops) = run_uncached hex validate s ops"
| "run_uncached hex validate s (Mgr_Proposer now h r # ops) =
     (case try_proposer_for s h r of Some v \<Rightarrow> Ok v | None \<Rightarrow> Err EmptySet) # run_uncached hex validate s ops"

locale proposer_cache = lru_cache L view
  for L :: "'c proposer_lru" and view :: "'c \<Rightarrow> proposer_key \<Rightarrow> proposer_entry option"
begin

lemma store_coherent:
  assumes "proposers_coherent view m" "try_proposer_for (m_vset m) h r = Some v"
  shows "proposers_coherent view (pf_store L now m (h, r) v)"
  unfolding proposers_coherent_def
proof (intro allI impI)
  fix c' h' r' v' e'
  assume c': "m_cache (pf_store L now m (h, r) v) = Some c'" and e': "view c' (h', r') = Some (v', e')"
  have vset: "m_vset (pf_store L now m (h, r) v) = m_vset m" by (simp add: pf_store_def)
  show "try_proposer_for (m_vset (pf_store L now m (h, r) v)) h' r' = Some v'"
  proof (cases "vs_enable_cache (m_config m)")
    case True
    then obtain c where c: "m_cache m = Some c" "c' = lru_put L c (h, r) (v, now + vs_cache_ttl_secs (m_config m))"
      using c' by (auto simp: pf_store_def)
    show ?thesis
    proof (cases "(h', r') = (h, r)")
      case True
      then show ?thesis using assms(2) e' view_put c(2) vset by auto
    next
      case False
      then have "view c (h', r') = Some (v', e')" using view_put_other [of "(h', r')" "(h, r)" c "(v, now + vs_cache_ttl_secs (m_config m))"] e' c(2) by simp
      then show ?thesis using assms(1) c(1) vset unfolding proposers_coherent_def by auto
    qed
  qed (use c' e' assms(1) in \<open>auto simp: pf_store_def proposers_coherent_def\<close>)
qed

lemma lookup_coherent:
  assumes "proposers_coherent view m" "pf_lookup L now m (h, r) = (m', res)"
  shows "proposers_coherent view m'" "m_vset m' = m_vset m" "m_config m' = m_config m"
    "res = Some v \<Longrightarrow> try_proposer_for (m_vset m) h r = Some v"
proof -
  have A: "proposers_coherent view m' \<and> m_vset m' = m_vset m \<and> m_config m' = m_config m \<and>
      (res = Some v \<longrightarrow> try_proposer_for (m_vset m) h r = Some v)"
  proof (cases "vs_enable_cache (m_config m) \<and> m_cache m \<noteq> None")
    case True
    then obtain c where c: "m_cache m = Some c" by auto
    obtain c1 e where g: "lru_get L c (h, r) = (c1, e)" by fastforce
    have e: "e = view c (h, r)" "\<And>k. view c1 k = view c k" using get_view [of c "(h, r)"] view_get [of c "(h, r)"] g by auto
    show ?thesis
      using True c g e assms unfolding proposers_coherent_def pf_lookup_def
      by (auto simp: view_pop split: option.splits if_splits prod.splits)
  qed (use assms in \<open>auto simp: pf_lookup_def split: option.splits if_splits\<close>)
  then show "proposers_coherent view m'" "m_vset m' = m_vset m" "m_config m' = m_config m"
    "res = Some v \<Longrightarrow> try_proposer_for (m_vset m) h r = Some v" by auto
qed

lemma proposer_for_coherent:
  assumes "proposers_coherent view m" "manager_proposer_for L now m h r = (m', res)"
  shows "proposers_coherent view m' \<and> m_vset m' = m_vset m \<and> m_config m' = m_config m \<and>
    res = (case try_proposer_for (m_vset m) h r of Some v \<Rightarrow> Ok v | None \<Rightarrow> Err EmptySet)"
proof -
  obtain m1 o1 where l: "pf_lookup L now m (h, r) = (m1, o1)" by fastforce
  note C = lookup_coherent [OF assms(1) l]
  show ?thesis
  proof (cases o1)
    case (Some v)
    then show ?thesis using assms(2) l C by (auto simp: manager_proposer_for_def)
  next
    case None
    show ?thesis
    proof (cases "try_proposer_for (m_vset m) h r")
      case (Some v)
      then have "proposers_coherent view (pf_store L now m1 (h, r) v)" using store_coherent C(1,2) by simp
      then show ?thesis using assms(2) l None Some C by (auto simp: manager_proposer_for_def pf_store_def)
    qed (use assms(2) l None C in \<open>auto simp: manager_proposer_for_def\<close>)
  qed
qed

lemma clear_coherent: "proposers_coherent view (clear_cache L m)"
  by (auto simp: proposers_coherent_def clear_cache_def view_clear)

lemma run_manager_eq:
  "proposers_coherent view m \<Longrightarrow>
    run_manager L hex m ops = run_uncached hex (vs_validate_on_create (m_config m)) (m_vset m) ops"
proof (induction ops arbitrary: m)
  case (Cons oper ops)
  show ?case
  proof (cases oper)
    case (Mgr_Update s)
    let ?m = "fst (manager_update L hex m s)"
    have "proposers_coherent view ?m" using Cons.prems clear_coherent
      by (auto simp: manager_update_def split: result.splits)
    moreover have "m_config ?m = m_config m" "m_vset ?m =
        (if vs_validate_on_create (m_config m) \<and> \<not> is_ok (validator_set_new hex (vals s) (2 ^ 64 - 1)) then m_vset m else s)"
      by (auto simp: manager_update_def update_check_def clear_cache_def update_install_def split: result.splits)
    ultimately show ?thesis using Cons.IH [of ?m] Mgr_Update by simp
  next
    case (Mgr_Proposer now h r)
    obtain m' res where p: "manager_proposer_for L now m h r = (m', res)" by fastforce
    show ?thesis using proposer_for_coherent [OF Cons.prems p] Cons.IH [of m'] p Mgr_Proposer by simp
  next
    case Mgr_Clear
    have "m_config (clear_cache L m) = m_config m" "m_vset (clear_cache L m) = m_vset m" by (simp_all add: clear_cache_def)
    then show ?thesis using Cons.IH [OF clear_coherent, of m] Mgr_Clear by simp
  qed
qed simp

text \<open>A lookup that computes its answer before an update and stores it after the update has cleared the cache.\<close>

lemma race_stale:
  fixes s' :: validator_set
  assumes "m_cache m = Some c" "vs_enable_cache (m_config m)" "try_proposer_for (m_vset m) h r = Some v"
    and "now' < now + vs_cache_ttl_secs (m_config m)"
  defines "m' \<equiv> pf_store L now (clear_cache L (update_install m s')) (h, r) v"
  shows "m_vset m' = s' \<and> snd (manager_proposer_for L now' m' h r) = Ok v"
proof -
  let ?e = "(v, now + vs_cache_ttl_secs (m_config m))" and ?c = "lru_put L (lru_clear L c) (h, r) (v, now + vs_cache_ttl_secs (m_config m))"
  have m': "m' = m\<lparr>m_vset := s', m_cache := Some ?c\<rparr>"
    using assms(1,2) by (simp add: m'_def pf_store_def clear_cache_def update_install_def)
  obtain c1 where g: "lru_get L ?c (h, r) = (c1, Some ?e)"
    using get_view [of ?c "(h, r)"] view_put [of "lru_clear L c" "(h, r)" ?e] by (metis prod.collapse)
  then show ?thesis using assms(2,4) by (simp add: m' manager_proposer_for_def pf_lookup_def)
qed

end

interpretation pc: proposer_cache lru_list_ops lru_list_view
  by unfold_locales

subsection \<open>Canonical hash input\<close>

lemma concat_records_inj:
  assumes "length xs = length ys"
    and "\<And>v. v \<in> set xs \<union> set ys \<Longrightarrow> length (v_pk v) = 32 \<and> v_power v < 2 ^ 64"
    and "concat (map (\<lambda>v. v_pk v @ to_le_bytes 8 (v_power v)) xs) = concat (map (\<lambda>v. v_pk v @ to_le_bytes 8 (v_power v)) ys)"
  shows "xs = (ys :: cvalidator list)"
  using assms
proof (induction xs ys rule: list_induct2)
  case (Cons x xs y ys)
  have l: "length (v_pk x) = length (v_pk y)" using Cons.prems(1) [of x] Cons.prems(1) [of y] by simp
  have e: "v_pk x @ to_le_bytes 8 (v_power x) @ concat (map (\<lambda>v. v_pk v @ to_le_bytes 8 (v_power v)) xs)
      = v_pk y @ to_le_bytes 8 (v_power y) @ concat (map (\<lambda>v. v_pk v @ to_le_bytes 8 (v_power v)) ys)"
    using Cons.prems(2) by simp
  then have "v_pk x = v_pk y" and
    r: "to_le_bytes 8 (v_power x) @ concat (map (\<lambda>v. v_pk v @ to_le_bytes 8 (v_power v)) xs)
      = to_le_bytes 8 (v_power y) @ concat (map (\<lambda>v. v_pk v @ to_le_bytes 8 (v_power v)) ys)"
    using l by (auto simp: append_eq_append_conv)
  moreover have "to_le_bytes 8 (v_power x) = to_le_bytes 8 (v_power y)" using r by (auto simp: append_eq_append_conv)
  then have "v_power x = v_power y"
    using Cons.prems(1) [of x] Cons.prems(1) [of y] by (intro to_le_bytes_inj [of _ 8]) simp_all
  moreover have "xs = ys"
  proof (rule Cons.IH)
    show "concat (map (\<lambda>v. v_pk v @ to_le_bytes 8 (v_power v)) xs) = concat (map (\<lambda>v. v_pk v @ to_le_bytes 8 (v_power v)) ys)"
      using r by (auto simp: append_eq_append_conv)
  qed (use Cons.prems(1) in auto)
  ultimately show ?case by simp
qed simp

lemma hash_input_mset:
  assumes "\<And>v. v \<in> set (vals s) \<union> set (vals t) \<Longrightarrow> length (v_pk v) = 32 \<and> v_power v < 2 ^ 64"
    and "length (vals s) < 2 ^ 64" "length (vals t) < 2 ^ 64"
    and "distinct (map v_pk (vals s))" "distinct (map v_pk (vals t))"
  shows "hash_input s = hash_input t \<longleftrightarrow> mset (vals s) = mset (vals t)"
proof
  assume "mset (vals s) = mset (vals t)"
  then have st: "set (vals s) = set (vals t)" by (rule mset_eq_setD)
  have "sort_key v_pk (vals s) = sort_key v_pk (vals t)"
  proof (rule map_sorted_distinct_set_unique)
    show "inj_on v_pk (set (sort_key v_pk (vals s)) \<union> set (sort_key v_pk (vals t)))"
      using assms(4) st by (simp add: distinct_map)
    show "distinct (map v_pk (sort_key v_pk (vals s)))" "distinct (map v_pk (sort_key v_pk (vals t)))"
      using assms(4,5) by (simp_all add: distinct_map)
  qed (use st in simp_all)
  then show "hash_input s = hash_input t" by (simp add: hash_input_def)
next
  assume "hash_input s = hash_input t"
  then have e: "to_le_bytes 8 (length (vals s)) @ concat (map (\<lambda>v. v_pk v @ to_le_bytes 8 (v_power v)) (sort_key v_pk (vals s)))
    = to_le_bytes 8 (length (vals t)) @ concat (map (\<lambda>v. v_pk v @ to_le_bytes 8 (v_power v)) (sort_key v_pk (vals t)))"
    by (simp add: hash_input_def)
  then have "to_le_bytes 8 (length (vals s)) = to_le_bytes 8 (length (vals t))" by (auto simp: append_eq_append_conv)
  then have "length (vals s) = length (vals t)" using assms(2,3) by (intro to_le_bytes_inj [of _ 8]) simp_all
  then have "sort_key v_pk (vals s) = sort_key v_pk (vals t)"
    using e assms(1) by (intro concat_records_inj) (auto simp: append_eq_append_conv)
  then show "mset (vals s) = mset (vals t)" by (metis mset_sort)
qed

subsection \<open>Merging\<close>

definition power_at :: "cvalidator list \<Rightarrow> pk \<Rightarrow> u64 option" where
  "power_at vs k = map_option v_power (find (\<lambda>v. v_pk v = k) vs)"

definition index_ok :: "(pk \<times> nat) list \<Rightarrow> cvalidator list \<Rightarrow> bool" where
  "index_ok index vs \<longleftrightarrow> (\<forall>k i. map_of index k = Some i \<longleftrightarrow> i < length vs \<and> v_pk (vs ! i) = k)"

lemma power_at_Cons: "power_at (v # vs) k = (if v_pk v = k then Some (v_power v) else power_at vs k)"
  by (simp add: power_at_def)

lemma power_at_None_iff: "power_at vs k = None \<longleftrightarrow> k \<notin> v_pk ` set vs"
  by (auto simp: power_at_def find_None_iff image_iff)

lemma power_at_append: "power_at (vs @ ws) k = (case power_at vs k of None \<Rightarrow> power_at ws k | r \<Rightarrow> r)"
  by (induction vs) (auto simp: power_at_def)

lemma power_at_update:
  assumes "i < length vs" "distinct (map v_pk vs)"
  shows "power_at (vs[i := (vs ! i)\<lparr>v_power := p\<rparr>]) k = (if k = v_pk (vs ! i) then Some p else power_at vs k)"
  using assms
proof (induction vs arbitrary: i)
  case (Cons v vs)
  then show ?case by (cases i) (auto simp: power_at_Cons)
qed simp

lemma update_keys: "i < length vs \<Longrightarrow> map v_pk (vs[i := (vs ! i)\<lparr>v_power := p\<rparr>]) = map v_pk vs"
  by (simp add: map_update list_update_same_conv)

lemma merge_loop_power:
  assumes "index_ok index vs" "distinct (map v_pk vs)" "distinct (map v_pk others)"
  shows "power_at (merge_loop index vs others) k = (case power_at others k of None \<Rightarrow> power_at vs k | r \<Rightarrow> r) \<and>
    distinct (map v_pk (merge_loop index vs others))"
  using assms
proof (induction others arbitrary: index vs)
  case (Cons v others)
  have fresh: "power_at others (v_pk v) = None"
    using Cons.prems(3) by (simp add: power_at_None_iff)
  show ?case
  proof (cases "map_of index (v_pk v)")
    case (Some i)
    then have i: "i < length vs" "v_pk (vs ! i) = v_pk v" using Cons.prems(1) by (auto simp: index_ok_def)
    let ?vs = "vs[i := (vs ! i)\<lparr>v_power := v_power v\<rparr>]"
    have keys: "map v_pk ?vs = map v_pk vs" by (rule update_keys [OF i(1)])
    have "v_pk (?vs ! j) = v_pk (vs ! j)" if "j < length vs" for j
      using that by (metis keys length_list_update nth_map)
    then have "index_ok index ?vs" using Cons.prems(1) unfolding index_ok_def by auto
    then show ?thesis using Cons.IH [of index ?vs] Cons.prems keys Some power_at_update [OF i(1) Cons.prems(2)] i(2) fresh
      by (auto simp: power_at_Cons split: option.splits)
  next
    case None
    then have new: "v_pk v \<notin> v_pk ` set vs"
      using Cons.prems(1) unfolding index_ok_def by (auto simp: in_set_conv_nth) (metis option.distinct(1))
    then have "power_at vs (v_pk v) = None" by (simp add: power_at_None_iff)
    moreover have "v_pk (vs ! i) \<noteq> v_pk v" if "i < length vs" for i using new that by (metis image_eqI nth_mem)
    then have "index_ok ((v_pk v, length vs) # index) (vs @ [v])"
      using Cons.prems(1) unfolding index_ok_def by (auto simp: nth_append less_Suc_eq)
    ultimately show ?thesis using Cons.IH [of "(v_pk v, length vs) # index" "vs @ [v]"] Cons.prems None new fresh
      by (auto simp: power_at_Cons power_at_append power_at_def [of "[]"] split: option.splits)
  qed
qed (simp add: power_at_def)

lemma index_ok_enumerate:
  assumes "distinct (map v_pk vs)"
  shows "index_ok (rev (map (\<lambda>(i, v). (v_pk v, i)) (enumerate 0 vs))) vs"
proof -
  let ?m = "map (\<lambda>(i, v). (v_pk v, i)) (enumerate 0 vs)"
  have m: "?m = map (\<lambda>i. (v_pk (vs ! i), i)) [0..<length vs]"
    by (rule nth_equalityI) (simp_all add: nth_enumerate_eq)
  have "map fst ?m = map v_pk vs" by (rule nth_equalityI) (simp_all add: m)
  then have "distinct (map fst (rev ?m))" using assms by (simp add: rev_map [symmetric])
  then show ?thesis unfolding index_ok_def by (auto simp: m image_iff map_of_eq_Some_iff)
qed

lemma vs_merge_power:
  assumes "distinct (map v_pk (vals s))" "distinct (map v_pk (vals t))"
  shows "power_of (vs_merge s t) k = (if k \<in> v_pk ` set (vals t) then power_of t k else power_of s k)"
proof -
  have p: "power_of u k = (case power_at (vals u) k of None \<Rightarrow> 0 | Some p \<Rightarrow> p)" for u
    by (simp add: power_of_def power_at_def split: option.splits)
  show ?thesis
    using power_at_None_iff [of "vals t" k] merge_loop_power [OF index_ok_enumerate [OF assms(1)] assms, of k]
    by (auto simp: p vs_merge_def split: option.splits)
qed

subsection \<open>Properties\<close>

lemma quorum_overlap_aux:
  assumes "power_sum s < 2 ^ 63" "quorum_threshold (total_power s) = Some t" "t \<le> power_in s V" "t \<le> power_in s W"
  shows "power_sum s < 3 * power_in s (V \<inter> W)"
proof -
  have "t = 2 * power_sum s div 3 + 1" using quorum_threshold_val(1) [OF assms(1)] assms(2) by simp
  then show ?thesis using two_thirds_overlap power_in_overlap [of s V W] assms(3,4) by blast
qed

text \<open>C17: Two sets of validators that both reach the quorum threshold share more than a third of the total
  power, and the two implementations of the threshold agree and do not panic, for a total power
  below \<open>2 ^ 63\<close>.\<close>

theorem quorum_intersection:
  assumes "power_sum s < 2 ^ 63"
  shows "quorum_threshold (total_power s) = Some (set_quorum_threshold s) \<and>
    (set_quorum_threshold s \<le> power_in s V \<and> set_quorum_threshold s \<le> power_in s W
      \<longrightarrow> power_sum s < 3 * power_in s (V \<inter> W))"
  using quorum_threshold_val [OF assms] quorum_overlap_aux [OF assms, of "set_quorum_threshold s"] by simp

definition demo_vset :: validator_set where
  "demo_vset = \<lparr>vals = [\<lparr>v_pk = replicate 8 1, v_power = 34\<rparr>, \<lparr>v_pk = replicate 8 2, v_power = 33\<rparr>, \<lparr>v_pk = replicate 8 3, v_power = 33\<rparr>]\<rparr>"

lemma replicate_eq_iff: "replicate n x = replicate n y \<longleftrightarrow> n = 0 \<or> x = y"
  by (cases n) auto

theorem quorum_intersection_witness:
  "quorum_threshold (total_power demo_vset) = Some 67 \<and>
   power_sum demo_vset < 3 * power_in demo_vset ({replicate 8 1, replicate 8 2} \<inter> {replicate 8 1, replicate 8 3})"
proof -
  have "power_sum demo_vset = 100" "power_in demo_vset {replicate 8 1, replicate 8 2} = 67"
    "power_in demo_vset {replicate 8 1, replicate 8 3} = 67"
    by (simp_all add: power_sum_def power_in_def demo_vset_def replicate_eq_iff)
  moreover have "set_quorum_threshold demo_vset = 67"
    using quorum_threshold_val(2) [of demo_vset] calculation(1) by simp
  ultimately show ?thesis
    using quorum_intersection [of demo_vset "{replicate 8 1, replicate 8 2}" "{replicate 8 1, replicate 8 3}"] by simp
qed

text \<open>C29: In every window of as many consecutive rounds as there are validators, each validator is the
  proposer exactly once, as long as height plus round stays below \<open>2 ^ 64\<close>.\<close>

theorem proposer_rotation:
  assumes "vals s \<noteq> []" "height + round + length (vals s) \<le> 2 ^ 64"
  shows "mset (map (\<lambda>i. try_proposer_for s height (round + i)) [0..<length (vals s)]) = mset (map Some (vals s))"
proof -
  let ?n = "length (vals s)"
  have "map (\<lambda>i. try_proposer_for s height (round + i)) [0..<?n] = map Some (map (\<lambda>i. vals s ! ((height + round + i) mod ?n)) [0..<?n])"
  proof (rule nth_equalityI)
    fix i
    assume "i < length (map (\<lambda>i. try_proposer_for s height (round + i)) [0..<?n])"
    then have i: "i < ?n" by simp
    then have "wrapping_add 64 height (round + i) = height + round + i" using assms(2) by (simp add: wrapping_add_def)
    then show "map (\<lambda>i. try_proposer_for s height (round + i)) [0..<?n] ! i = map Some (map (\<lambda>i. vals s ! ((height + round + i) mod ?n)) [0..<?n]) ! i"
      using i assms(1) by (simp add: try_proposer_for_def)
  qed simp
  then show ?thesis using map_rotate [OF assms(1), of "height + round"] mset_rotate [of "height + round" "vals s"]
    by (metis mset_map)
qed

theorem proposer_rotation_witness:
  "mset (map (\<lambda>i. try_proposer_for demo_vset 7 (2 + i)) [0..<3]) = mset (map Some (vals demo_vset))"
proof -
  have "length (vals demo_vset) = 3" "vals demo_vset \<noteq> []" by (simp_all add: demo_vset_def)
  then show ?thesis using proposer_rotation [of demo_vset 7 2] by (simp only:) simp
qed

text \<open>C24: \<open>validators_needed\<close> returns the least number of further votes that completes a quorum: that many of the
  missing validators suffice, and no smaller group of them does.\<close>

theorem validators_needed_optimal:
  assumes "quorum_calculator_new s = Some q" "power_sum s < 2 ^ 63" "0 < power_sum s"
    and "list_all (\<lambda>v. 8 \<le> length (v_pk v)) (vals s)"
  shows "\<exists>k. validators_needed hex q voters = Some k \<and> k \<le> length (missing_powers q voters) \<and>
    qc_threshold q \<le> power_in s (set voters) + sum_list (take k (rev (sort (missing_powers q voters)))) \<and>
    (\<forall>extra. mset extra \<subseteq># mset (missing_powers q voters) \<and> length extra < k
       \<longrightarrow> power_in s (set voters) + sum_list extra < qc_threshold q)"
proof -
  let ?P = "power_in s (set voters)" and ?M = "missing_powers q voters" and ?T = "2 * power_sum s div 3 + 1"
  have q: "qc_vset q = s" "qc_threshold q = ?T" using quorum_calculator_new_val [OF assms(2)] assms(1) by auto
  have sum: "?P + sum_list ?M = power_sum s" using power_in_missing [of q voters] q(1) by simp
  have big: "power_sum s < 2 ^ 64" using assms(2) by simp
  have P: "?P < 2 ^ 64" using sum big by linarith
  have len: "8 \<le> length (v_pk v)" if "v \<in> set (vals (qc_vset q))" for v
    using assms(4) that by (simp add: q(1) list_all_iff)
  have P': "power_in (qc_vset q) (set voters) < 2 ^ 64" using P q(1) by simp
  obtain d where d: "qc_check hex q voters = Some d" "current_power d = ?P" "qd_has_quorum d \<longleftrightarrow> ?T \<le> ?P"
    by (rule qc_check_val [OF len P', of hex]) (simp_all add: q)
  show ?thesis
  proof (cases "?T \<le> ?P")
    case True
    then show ?thesis using d q(2) by (auto simp: validators_needed_def)
  next
    case False
    let ?D = "?T - ?P"
    have "?T \<le> power_sum s" using assms(3) by linarith
    then have D: "0 < ?D" "?D \<le> sum_list ?M" "sum_list ?M < 2 ^ 64" using False sum big by linarith+
    note G = greedy_optimal [OF D]
    have v: "validators_needed hex q voters = Some (greedy ?D 0 0 (rev (sort ?M)))"
      using d q(2) False by (simp add: validators_needed_def saturating_sub_def)
    show ?thesis
    proof (intro exI conjI allI impI)
      show "validators_needed hex q voters = Some (greedy ?D 0 0 (rev (sort ?M)))" by (rule v)
      show "greedy ?D 0 0 (rev (sort ?M)) \<le> length ?M" by (rule G(1))
      show "qc_threshold q \<le> ?P + sum_list (take (greedy ?D 0 0 (rev (sort ?M))) (rev (sort ?M)))"
        using G(2) q(2) by linarith
      show "?P + sum_list extra < qc_threshold q"
        if "mset extra \<subseteq># mset ?M \<and> length extra < greedy ?D 0 0 (rev (sort ?M))" for extra
        using G(3) [of extra] that q(2) by linarith
    qed
  qed
qed

theorem validators_needed_optimal_witness:
  "\<exists>q k. quorum_calculator_new demo_vset = Some q \<and> validators_needed hex_lower q [replicate 8 2] = Some k \<and>
     67 \<le> 33 + sum_list (take k (rev (sort [34, 33 :: nat]))) \<and>
     (\<forall>extra. mset extra \<subseteq># {#34, 33 :: nat#} \<and> length extra < k \<longrightarrow> 33 + sum_list extra < 67)"
proof -
  have ps: "power_sum demo_vset = 100" "power_in demo_vset {replicate 8 2} = 33"
    by (simp_all add: power_sum_def power_in_def demo_vset_def replicate_eq_iff)
  let ?q = "\<lparr>qc_vset = demo_vset, qc_total_power = 100, qc_threshold = 67\<rparr>"
  have q: "quorum_calculator_new demo_vset = Some ?q" using quorum_calculator_new_val [of demo_vset] ps(1) by simp
  have l: "list_all (\<lambda>v. 8 \<le> length (v_pk v)) (vals demo_vset)" by (simp add: demo_vset_def)
  have "missing_powers ?q [replicate 8 2] = [34, 33]" by (simp add: missing_powers_def demo_vset_def replicate_eq_iff)
  then show ?thesis
    using validators_needed_optimal [OF q _ _ l, of hex_lower "[replicate 8 2]"] q ps by (auto simp: add.commute)
qed

text \<open>C23: Used by one thread at a time, the proposer cache is invisible: for every cache that satisfies the
  laws of an LRU cache, every clock and every history of lookups, updates and clears, the manager
  answers what an uncached manager answers.\<close>

theorem proposer_cache_transparent:
  assumes "lru_cache L view" "manager_new L c s = Ok m"
  shows "run_manager L hex m ops = run_uncached hex (vs_validate_on_create c) s ops"
proof -
  have p: "proposer_cache L view" by (rule proposer_cache.intro [OF assms(1)])
  have m: "m_config m = c" "m_vset m = s" "m_cache m = (if vs_enable_cache c then Some (lru_new L (vs_cache_size c)) else None)"
    using assms(2) by (auto simp: manager_new_def split: result.splits)
  then have "proposers_coherent view m"
    using lru_cache.view_new [OF assms(1)] by (auto simp: proposers_coherent_def split: if_splits)
  from proposer_cache.run_manager_eq [OF p this, of hex ops] m show ?thesis by simp
qed

theorem proposer_cache_transparent_witness:
  "\<exists>m. manager_new lru_list_ops validator_set_config_default demo_vset = Ok m \<and>
     run_manager lru_list_ops hex_lower m
       [Mgr_Proposer 0 1 0, Mgr_Proposer 1 1 0, Mgr_Update \<lparr>vals = [\<lparr>v_pk = [9], v_power = 1\<rparr>]\<rparr>, Mgr_Proposer 2 1 0]
     = [Ok \<lparr>v_pk = replicate 8 2, v_power = 33\<rparr>, Ok \<lparr>v_pk = replicate 8 2, v_power = 33\<rparr>, Ok \<lparr>v_pk = [9], v_power = 1\<rparr>]"
proof -
  obtain m where m: "manager_new lru_list_ops validator_set_config_default demo_vset = Ok m"
    by (simp add: manager_new_def vs_config_validate_def validator_set_config_default_def)
  let ?ops = "[Mgr_Proposer 0 1 0, Mgr_Proposer 1 1 0, Mgr_Update \<lparr>vals = [\<lparr>v_pk = [9], v_power = 1\<rparr>]\<rparr>, Mgr_Proposer 2 1 0]"
  have "run_uncached hex_lower True demo_vset ?ops
    = [Ok \<lparr>v_pk = replicate 8 2, v_power = 33\<rparr>, Ok \<lparr>v_pk = replicate 8 2, v_power = 33\<rparr>, Ok \<lparr>v_pk = [9], v_power = 1\<rparr>]"
    by (simp add: try_proposer_for_def demo_vset_def wrapping_add_def validator_set_new_def Let_def)
  moreover have "vs_validate_on_create validator_set_config_default" by (simp add: validator_set_config_default_def)
  ultimately show ?thesis using proposer_cache_transparent [OF lc.lru_cache_axioms m, of hex_lower ?ops] m by simp
qed

text \<open>With two threads it is not: \<open>proposer_for\<close> computes its answer under one lock and stores it under
  another, so a lookup that is overtaken by \<open>update\<close> stores the old set's proposer after the cache was
  cleared, and every later lookup of that round returns it until the entry expires.\<close>

theorem proposer_cache_race:
  assumes "lru_cache L view" "m_cache m = Some c" "vs_enable_cache (m_config m)"
    and "try_proposer_for (m_vset m) h r = Some v" "now' < now + vs_cache_ttl_secs (m_config m)"
  shows "let m' = pf_store L now (clear_cache L (update_install m s')) (h, r) v
    in m_vset m' = s' \<and> snd (manager_proposer_for L now' m' h r) = Ok v"
  using proposer_cache.race_stale [OF proposer_cache.intro [OF assms(1)] assms(2-5), of s'] by (simp add: Let_def)

theorem proposer_cache_race_witness:
  "\<exists>m m'. manager_new lru_list_ops validator_set_config_default demo_vset = Ok m \<and>
     m' = pf_store lru_list_ops 0 (clear_cache lru_list_ops (update_install m \<lparr>vals = [\<lparr>v_pk = [9], v_power = 1\<rparr>]\<rparr>)) (1, 0)
            \<lparr>v_pk = replicate 8 2, v_power = 33\<rparr> \<and>
     try_proposer_for (m_vset m') 1 0 = Some \<lparr>v_pk = [9], v_power = 1\<rparr> \<and>
     snd (manager_proposer_for lru_list_ops 59 m' 1 0) = Ok \<lparr>v_pk = replicate 8 2, v_power = 33\<rparr>"
proof -
  obtain m c where m: "manager_new lru_list_ops validator_set_config_default demo_vset = Ok m" "m_cache m = Some c"
    "vs_enable_cache (m_config m)" "vs_cache_ttl_secs (m_config m) = 60" "m_vset m = demo_vset"
    by (simp add: manager_new_def vs_config_validate_def validator_set_config_default_def)
  have "try_proposer_for (m_vset m) 1 0 = Some \<lparr>v_pk = replicate 8 2, v_power = 33\<rparr>"
    by (simp add: m(5) try_proposer_for_def demo_vset_def wrapping_add_def Let_def)
  from proposer_cache_race [OF lc.lru_cache_axioms m(2,3) this, of 59 0 "\<lparr>vals = [\<lparr>v_pk = [9], v_power = 1\<rparr>]\<rparr>"]
  show ?thesis using m(1,4) by (auto simp: Let_def try_proposer_for_def)
qed

end
