(* ===== verification/Messages.thy ===== *)
theory Messages
  imports Validator_Set
begin

text \<open>
  The consensus messages of \<open>src/consensus/messages.rs\<close>: votes, proposals, the evidence of
  \<open>src/evidence.rs\<close> as the engine builds it, the bytes that are signed, and message validation.
  A block is a type parameter. The floating-point \<open>purity\<close> fields, which never gate a decision, and
  the statistics are left out; serializing a message to measure it (\<open>serde_json\<close>) is the argument \<open>wire\<close>.
\<close>

type_synonym hash32 = "byte list"
type_synonym height = u64
type_synonym round_no = u32
type_synonym signature = "byte list"

datatype vote_type = Prevote | Precommit

record vote =
  vote_type :: vote_type
  vote_height :: height
  vote_round :: round_no
  voter :: pk
  vote_block :: "hash32 option"
  vote_signature :: signature

record 'b proposal =
  prop_height :: height
  prop_round :: round_no
  proposer :: pk
  prop_block_id :: hash32
  prop_block :: "'b option"
  pol_round :: "round_no option"
  prop_signature :: signature

datatype 'b evidence =
    DoubleVote pk height round_no vote_type "hash32 option" "hash32 option" vote vote
  | DoubleProposal pk height round_no "hash32 option" "hash32 option" "'b proposal" "'b proposal"

datatype 'b consensus_msg = Msg_Proposal "'b proposal" | Msg_Vote vote | Msg_Evidence "'b evidence"

subsection \<open>Bytes that are signed\<close>

definition DOMAIN_PROPOSAL :: "byte list" where "DOMAIN_PROPOSAL = str_bytes ''PROP''"

definition DOMAIN_PREVOTE :: "byte list" where "DOMAIN_PREVOTE = str_bytes ''VTPY''"

definition DOMAIN_PRECOMMIT :: "byte list" where "DOMAIN_PRECOMMIT = str_bytes ''VTCX''"

definition DOMAIN_NIL_PREVOTE :: "byte list" where "DOMAIN_NIL_PREVOTE = str_bytes ''VNPY''"

definition DOMAIN_NIL_PRECOMMIT :: "byte list" where "DOMAIN_NIL_PRECOMMIT = str_bytes ''VNCX''"

definition FLAG_PRESENT :: byte where "FLAG_PRESENT = 1"

definition FLAG_ABSENT :: byte where "FLAG_ABSENT = 0"

fun domain_tag :: "vote_type \<Rightarrow> byte list" where
  "domain_tag Prevote = DOMAIN_PREVOTE"
| "domain_tag Precommit = DOMAIN_PRECOMMIT"

fun nil_domain_tag :: "vote_type \<Rightarrow> byte list" where
  "nil_domain_tag Prevote = DOMAIN_NIL_PREVOTE"
| "nil_domain_tag Precommit = DOMAIN_NIL_PRECOMMIT"

definition proposal_sign_bytes :: "height \<Rightarrow> round_no \<Rightarrow> hash32 \<Rightarrow> round_no option \<Rightarrow> byte list" where
  "proposal_sign_bytes h r bid pol =
     DOMAIN_PROPOSAL @ to_le_bytes 8 h @ to_le_bytes 4 r @ bid @
     (case pol of None \<Rightarrow> [FLAG_ABSENT] | Some p \<Rightarrow> FLAG_PRESENT # to_le_bytes 4 p)"

definition vote_sign_bytes :: "vote_type \<Rightarrow> height \<Rightarrow> round_no \<Rightarrow> hash32 option \<Rightarrow> byte list" where
  "vote_sign_bytes t h r bid =
     (case bid of Some _ \<Rightarrow> domain_tag t | None \<Rightarrow> nil_domain_tag t) @ to_le_bytes 8 h @ to_le_bytes 4 r @
     (case bid of Some b \<Rightarrow> FLAG_PRESENT # b | None \<Rightarrow> FLAG_ABSENT # replicate 32 0)"

subsection \<open>Validation\<close>

datatype message_error =
    InvalidProposal string
  | InvalidVote string
  | SignatureVerification string
  | MessageTooLarge usize usize
  | HeightMismatch height height
  | RoundMismatch round_no round_no
  | ProposerMismatch string string
  | MsgIo string
  | MsgSerialization string
  | LockFailed string
  | MsgConfig string

definition proposal_validate :: "('b proposal \<Rightarrow> (string, usize) result) \<Rightarrow> usize \<Rightarrow> 'b proposal \<Rightarrow> (message_error, unit) result" where
  "proposal_validate wire max_size p =
     (case wire p of
        Err e \<Rightarrow> Err (MsgSerialization e)
      | Panic \<Rightarrow> Panic
      | Ok n \<Rightarrow>
          (if max_size < n then Err (MessageTooLarge n max_size)
           else if prop_block_id p = replicate 32 0 then Err (InvalidProposal ''block_id cannot be all-zero'')
           else Ok ()))"

definition vote_validate :: "(vote \<Rightarrow> (string, usize) result) \<Rightarrow> usize \<Rightarrow> vote \<Rightarrow> (message_error, unit) result" where
  "vote_validate wire max_size v =
     (case wire v of
        Err e \<Rightarrow> Err (MsgSerialization e)
      | Panic \<Rightarrow> Panic
      | Ok n \<Rightarrow>
          (if max_size < n then Err (MessageTooLarge n max_size)
           else case vote_block v of
             Some b \<Rightarrow> if b = replicate 32 0 then Err (InvalidVote ''non-nil vote has all-zero block_id'') else Ok ()
           | None \<Rightarrow> Ok ()))"

fun msg_validate :: "('b proposal \<Rightarrow> (string, usize) result) \<Rightarrow> (vote \<Rightarrow> (string, usize) result) \<Rightarrow> usize \<Rightarrow> 'b consensus_msg \<Rightarrow> (message_error, unit) result" where
  "msg_validate wp wv max_size (Msg_Proposal p) = proposal_validate wp max_size p"
| "msg_validate wp wv max_size (Msg_Vote v) = vote_validate wv max_size v"
| "msg_validate wp wv max_size (Msg_Evidence _) = Ok ()"

definition is_nil :: "vote \<Rightarrow> bool" where
  "is_nil v = (vote_block v = None)"

fun msg_height :: "'b consensus_msg \<Rightarrow> height option" where
  "msg_height (Msg_Proposal p) = Some (prop_height p)"
| "msg_height (Msg_Vote v) = Some (vote_height v)"
| "msg_height (Msg_Evidence _) = None"

fun msg_round :: "'b consensus_msg \<Rightarrow> round_no option" where
  "msg_round (Msg_Proposal p) = Some (prop_round p)"
| "msg_round (Msg_Vote v) = Some (vote_round v)"
| "msg_round (Msg_Evidence _) = None"

fun msg_type :: "'b consensus_msg \<Rightarrow> string" where
  "msg_type (Msg_Proposal _) = ''Proposal''"
| "msg_type (Msg_Vote v) =
     (if is_nil v then ''NilVote'' else case vote_type v of Prevote \<Rightarrow> ''Prevote'' | Precommit \<Rightarrow> ''Precommit'')"
| "msg_type (Msg_Evidence _) = ''Evidence''"

subsection \<open>Domain separation\<close>

lemmas domain_defs = DOMAIN_PROPOSAL_def DOMAIN_PREVOTE_def DOMAIN_PRECOMMIT_def DOMAIN_NIL_PREVOTE_def
  DOMAIN_NIL_PRECOMMIT_def str_bytes_def

lemma tag_length [simp]: "length (domain_tag t) = 4" "length (nil_domain_tag t) = 4" "length DOMAIN_PROPOSAL = 4"
  by (cases t; simp add: domain_defs)+

lemma tags_differ:
  "domain_tag t = domain_tag t' \<longleftrightarrow> t = t'" "nil_domain_tag t = nil_domain_tag t' \<longleftrightarrow> t = t'"
  "domain_tag t \<noteq> nil_domain_tag t'" "domain_tag t \<noteq> DOMAIN_PROPOSAL" "nil_domain_tag t \<noteq> DOMAIN_PROPOSAL"
  by (cases t; cases t'; simp add: domain_defs)+

lemma header_inj:
  assumes "length tag = length tag'" "h < 2 ^ 64" "h' < 2 ^ 64" "r < 2 ^ 32" "r' < 2 ^ 32"
  shows "tag @ to_le_bytes 8 h @ to_le_bytes 4 r @ rest = tag' @ to_le_bytes 8 h' @ to_le_bytes 4 r' @ rest'
    \<longleftrightarrow> tag = tag' \<and> h = h' \<and> r = r' \<and> rest = rest'"
  using assms le_bytes_eq_iff [of h 8 h'] le_bytes_eq_iff [of r 4 r'] by (auto simp: append_eq_append_conv)

text \<open>C15: What is signed determines the message. Two votes with the same signed bytes have the same type, height,
  round and block (nil included), two proposals have the same height, round, block and proof-of-lock
  round, and a signature on a vote is never one on a proposal.\<close>

theorem sign_bytes_binding:
  assumes "h < 2 ^ 64" "h' < 2 ^ 64" "r < 2 ^ 32" "r' < 2 ^ 32"
  shows "(vote_sign_bytes t h r b = vote_sign_bytes t' h' r' b' \<longleftrightarrow> t = t' \<and> h = h' \<and> r = r' \<and> b = b') \<and>
    (length x = 32 \<and> length x' = 32 \<and> pred_option (\<lambda>p. p < 2 ^ 32) pol \<and> pred_option (\<lambda>p. p < 2 ^ 32) pol' \<longrightarrow>
      (proposal_sign_bytes h r x pol = proposal_sign_bytes h' r' x' pol' \<longleftrightarrow> h = h' \<and> r = r' \<and> x = x' \<and> pol = pol')) \<and>
    vote_sign_bytes t h r b \<noteq> proposal_sign_bytes h' r' x' pol'"
proof (intro conjI impI)
  let ?tag = "\<lambda>t b. case b of Some _ \<Rightarrow> domain_tag t | None \<Rightarrow> nil_domain_tag t"
  have l: "length (?tag t b) = 4" "length (?tag t' b') = 4" by (auto split: option.split)
  show "vote_sign_bytes t h r b = vote_sign_bytes t' h' r' b' \<longleftrightarrow> t = t' \<and> h = h' \<and> r = r' \<and> b = b'"
    unfolding vote_sign_bytes_def using header_inj [of "?tag t b" "?tag t' b'", OF _ assms] l
    by (auto simp: tags_differ FLAG_PRESENT_def FLAG_ABSENT_def split: option.splits)
  show "vote_sign_bytes t h r b \<noteq> proposal_sign_bytes h' r' x' pol'"
    unfolding vote_sign_bytes_def proposal_sign_bytes_def
    using header_inj [of "?tag t b" DOMAIN_PROPOSAL, OF _ assms] l(1) by (auto simp: tags_differ split: option.split)
  assume A: "length x = 32 \<and> length x' = 32 \<and> pred_option (\<lambda>p. p < 2 ^ 32) pol \<and> pred_option (\<lambda>p. p < 2 ^ 32) pol'"
  have "to_le_bytes 4 p = to_le_bytes 4 p' \<longleftrightarrow> p = p'" if "pol = Some p" "pol' = Some p'" for p p'
    using A that by (intro le_bytes_eq_iff) simp_all
  then show "proposal_sign_bytes h r x pol = proposal_sign_bytes h' r' x' pol' \<longleftrightarrow> h = h' \<and> r = r' \<and> x = x' \<and> pol = pol'"
    unfolding proposal_sign_bytes_def using header_inj [of DOMAIN_PROPOSAL DOMAIN_PROPOSAL, OF _ assms] A
    by (auto simp: FLAG_PRESENT_def FLAG_ABSENT_def append_eq_append_conv split: option.splits)
qed

theorem sign_bytes_binding_witness:
  "vote_sign_bytes Prevote 5 1 None \<noteq> vote_sign_bytes Precommit 5 1 None \<and>
   proposal_sign_bytes 5 1 (replicate 32 7) None \<noteq> proposal_sign_bytes 5 1 (replicate 32 7) (Some 0)"
  using sign_bytes_binding [of 5 5 1 1 Prevote None Precommit None "replicate 32 7" "replicate 32 7" None "Some 0"]
  by simp

end
