(* ===== verification/F64.thy ===== *)
theory F64
  imports Iona_Prelude "HOL-Library.Word"
begin

unbundle bit_operations_syntax

text \<open>
  The \<open>f64\<close> values that the code stores, hashes and compares, as their 64 bits: sign, exponent, mantissa. Sign
  change, comparison, \<open>clamp\<close> and \<open>min\<close> act on the bits. Multiplication, \<open>exp\<close> and \<open>ln\<close> are arguments of the
  definitions that use them (the standard library leaves the precision of \<open>exp\<close> and \<open>ln\<close> unspecified).
\<close>

type_synonym f64 = "64 word"

definition F64_ZERO :: f64 where "F64_ZERO = 0"

definition F64_HALF :: f64 where "F64_HALF = 0x3FE0000000000000"

definition F64_ONE :: f64 where "F64_ONE = 0x3FF0000000000000"

definition f64_magnitude :: "f64 \<Rightarrow> nat" where
  "f64_magnitude x = unat (take_bit 63 x)"

definition f64_is_nan :: "f64 \<Rightarrow> bool" where
  "f64_is_nan x \<longleftrightarrow> 0x7FF0000000000000 < f64_magnitude x"

definition f64_is_finite :: "f64 \<Rightarrow> bool" where
  "f64_is_finite x \<longleftrightarrow> f64_magnitude x < 0x7FF0000000000000"

definition f64_rank :: "f64 \<Rightarrow> int" where
  \<comment> \<open>the order of the values that are not NaN; both zeros have rank 0\<close>
  "f64_rank x = (if bit x 63 then - int (f64_magnitude x) else int (f64_magnitude x))"

definition f64_less :: "f64 \<Rightarrow> f64 \<Rightarrow> bool" where
  \<comment> \<open>\<open>x < y\<close>\<close>
  "f64_less x y \<longleftrightarrow> \<not> f64_is_nan x \<and> \<not> f64_is_nan y \<and> f64_rank x < f64_rank y"

definition f64_leq :: "f64 \<Rightarrow> f64 \<Rightarrow> bool" where
  \<comment> \<open>\<open>x <= y\<close>\<close>
  "f64_leq x y \<longleftrightarrow> \<not> f64_is_nan x \<and> \<not> f64_is_nan y \<and> f64_rank x \<le> f64_rank y"

definition f64_neg :: "f64 \<Rightarrow> f64" where
  "f64_neg x = flip_bit 63 x"

definition f64_clamp :: "f64 \<Rightarrow> f64 \<Rightarrow> f64 \<Rightarrow> f64" where
  "f64_clamp x lo hi = (let y = (if f64_less x lo then lo else x) in if f64_less hi y then hi else y)"

definition f64_min :: "f64 \<Rightarrow> f64 \<Rightarrow> f64" where
  \<comment> \<open>a NaN is ignored\<close>
  "f64_min x y = (if f64_is_nan x then y else if f64_is_nan y then x else if f64_less y x then y else x)"

definition f64_in_unit :: "f64 \<Rightarrow> bool" where
  \<comment> \<open>\<open>(0.0..=1.0).contains(&x)\<close>\<close>
  "f64_in_unit x \<longleftrightarrow> f64_leq F64_ZERO x \<and> f64_leq x F64_ONE"

lemma f64_constants [simp]:
  "f64_is_nan F64_ZERO = False" "f64_is_nan F64_HALF = False" "f64_is_nan F64_ONE = False"
  "f64_rank F64_ZERO = 0" "f64_rank F64_HALF = 0x3FE0000000000000" "f64_rank F64_ONE = 0x3FF0000000000000"
  by (simp_all add: f64_is_nan_def f64_rank_def f64_magnitude_def F64_ZERO_def F64_HALF_def F64_ONE_def take_bit_eq_mod bit_iff_odd)

lemma f64_half_in_unit: "f64_in_unit F64_HALF"
  by (simp add: f64_in_unit_def f64_leq_def)

text \<open>Clamping to the unit interval leaves it only for a NaN.\<close>

lemma f64_clamp_unit: "f64_in_unit (f64_clamp x F64_ZERO F64_ONE) \<or> f64_is_nan (f64_clamp x F64_ZERO F64_ONE)"
  by (auto simp: f64_clamp_def f64_in_unit_def f64_leq_def f64_less_def Let_def)

end
