(* ===== verification/Double_Sign.thy ===== *)
theory Double_Sign
  imports Messages Btree_Map F64
begin

text \<open>
  The double-sign guard of \<open>src/consensus/double_sign.rs\<close>: the configuration, the persisted state with its chain
  hash, loading and saving, and the check and record operations. The file system is outside the sources:
  the guard file is the state component \<open>g_disk\<close>, an operation that touches it takes as arguments whether the
  accesses succeed, and a clock reading is an argument. \<open>hex::encode\<close> is the argument \<open>hex\<close>.

  The other code that is not in the sources is collected in \<open>guard_env\<close>: the hash of the serialized \<open>Canonical\<close>
  struct (\<open>serde_json\<close>, \<open>blake3\<close>), the arithmetic of \<open>f64\<close>, and \<open>ge_reread\<close>, the number that \<open>serde_json\<close> reads back
  for a number it has written. The chain hash covers \<open>purity\<close> and \<open>entropy\<close>, and \<open>serde_json\<close> without its feature
  \<open>float_roundtrip\<close> (which \<open>Cargo.toml\<close> does not enable) does not promise to read back the same number, so
  nothing is assumed of \<open>ge_reread\<close>: it may change a number, or give none (a NaN is written as \<open>null\<close>, which
  does not parse as a number). Strings and integers are read back as written.

  The locale \<open>sign_once\<close> is what the consensus engine relies on: checking before recording never
  permits two values for one key. It is interpreted for votes and for proposals.
\<close>

subsection \<open>Configuration\<close>

record guard_config =
  decoherence_rate :: f64
  min_fidelity :: f64
  enable_backups :: bool
  max_backups :: usize
  lock_timeout_secs :: u64

definition DEFAULT_WRITE_DECOHERENCE_RATE :: f64 where
  \<comment> \<open>\<open>0.0001\<close>\<close>
  "DEFAULT_WRITE_DECOHERENCE_RATE = 0x3F1A36E2EB1C432D"

definition guard_config_default :: guard_config where
  "guard_config_default =
     \<lparr>decoherence_rate = DEFAULT_WRITE_DECOHERENCE_RATE, min_fidelity = F64_HALF, enable_backups = True, max_backups = 5,
      lock_timeout_secs = 10\<rparr>"

definition guard_config_validate :: "guard_config \<Rightarrow> (string, unit) result" where
  "guard_config_validate c =
     (if \<not> f64_is_finite (decoherence_rate c) \<or> \<not> f64_in_unit (decoherence_rate c)
      then Err ''decoherence_rate must be a finite value in [0.0, 1.0]''
      else if \<not> f64_is_finite (min_fidelity c) \<or> \<not> f64_in_unit (min_fidelity c)
      then Err ''min_fidelity must be a finite value in [0.0, 1.0]''
      else if max_backups c = 0 then Err ''max_backups must be > 0''
      else if lock_timeout_secs c = 0 then Err ''lock_timeout_secs must be > 0''
      else Ok ())"

subsection \<open>Persisted state\<close>

record guard_state =
  gs_version :: u32
  gs_proposals :: "(string, string) btree"
  gs_votes :: "(string, string) btree"
  chain_hash :: string
  purity :: f64
  entropy :: f64
  total_operations :: u64
  double_sign_detections :: u64
  last_modified :: u64

record guard_canonical =
  cn_version :: u32
  cn_proposals :: "(string, string) btree"
  cn_votes :: "(string, string) btree"
  cn_purity :: f64
  cn_entropy :: f64
  cn_total_operations :: u64
  cn_double_sign_detections :: u64
  cn_last_modified :: u64

record guard_env =
  ge_hash :: "guard_canonical \<Rightarrow> string"
  ge_reread :: "f64 \<Rightarrow> f64 option"
  ge_exp :: "f64 \<Rightarrow> f64"
  ge_ln :: "f64 \<Rightarrow> f64"
  ge_mul :: "f64 \<Rightarrow> f64 \<Rightarrow> f64"

definition GUARD_VERSION :: u32 where
  "GUARD_VERSION = 1"

definition guard_state_default :: "u64 \<Rightarrow> guard_state" where
  "guard_state_default now =
     \<lparr>gs_version = GUARD_VERSION, gs_proposals = [], gs_votes = [], chain_hash = [], purity = F64_ONE, entropy = F64_ZERO,
      total_operations = 0, double_sign_detections = 0, last_modified = now\<rparr>"

definition compute_hash :: "guard_env \<Rightarrow> guard_state \<Rightarrow> string" where
  \<comment> \<open>every field but \<open>chain_hash\<close>\<close>
  "compute_hash G st = ge_hash G
     \<lparr>cn_version = gs_version st, cn_proposals = gs_proposals st, cn_votes = gs_votes st, cn_purity = purity st,
      cn_entropy = entropy st, cn_total_operations = total_operations st,
      cn_double_sign_detections = double_sign_detections st, cn_last_modified = last_modified st\<rparr>"

definition stamp :: "guard_env \<Rightarrow> u64 \<Rightarrow> guard_state \<Rightarrow> guard_state" where
  "stamp G now st = (let st' = st\<lparr>last_modified := now\<rparr> in st'\<lparr>chain_hash := compute_hash G st'\<rparr>)"

datatype guard_error =
    Config_Error string
  | Io_Error
  | Parse_Error
  | Unsupported_Version u64
  | Integrity_Failed
  | Double_Proposal height round_no string string
  | Double_Vote vote_type height round_no string string

definition verify_chain :: "guard_env \<Rightarrow> guard_state \<Rightarrow> (guard_error, unit) result" where
  "verify_chain G st =
     (if chain_hash st = [] then Ok ()
      else if chain_hash st \<noteq> compute_hash G st then Err Integrity_Failed
      else Ok ())"

definition guard_apply_decoherence :: "guard_env \<Rightarrow> f64 \<Rightarrow> guard_state \<Rightarrow> guard_state" where
  "guard_apply_decoherence G rate st =
     (let decay = ge_exp G (f64_neg rate);
          p = f64_clamp (ge_mul G (purity st) decay) F64_ZERO F64_ONE;
          e = (if f64_leq F64_ONE p then F64_ZERO else f64_neg (ge_mul G p (f64_min (ge_ln G p) F64_ZERO)))
      in st\<lparr>total_operations := saturating_add 64 (total_operations st) 1, purity := p, entropy := e\<rparr>)"

subsection \<open>Loading and saving\<close>

datatype guard_file =
    Unparsable \<comment> \<open>not the JSON of a guard state\<close>
  | Versioned u64 guard_state \<comment> \<open>a \<open>version\<close> field and the state as written\<close>
  | Legacy guard_state \<comment> \<open>no \<open>version\<close> field\<close>

definition reread_state :: "guard_env \<Rightarrow> guard_state \<Rightarrow> (guard_error, guard_state) result" where
  \<comment> \<open>\<open>serde_json::from_value\<close> on a state that was written as JSON\<close>
  "reread_state G st =
     (case (ge_reread G (purity st), ge_reread G (entropy st)) of
        (Some p, Some e) \<Rightarrow> Ok (st\<lparr>purity := p, entropy := e\<rparr>)
      | _ \<Rightarrow> Err Parse_Error)"

definition load_state :: "guard_env \<Rightarrow> bool \<Rightarrow> u64 \<Rightarrow> guard_file option \<Rightarrow> (guard_error, guard_state) result" where
  "load_state G io now disk =
     (case disk of
        None \<Rightarrow> Ok (guard_state_default now)
      | Some f \<Rightarrow>
          (if \<not> io then Err Io_Error
           else case (case f of
                Unparsable \<Rightarrow> Err Parse_Error
              | Versioned v st \<Rightarrow> if v = GUARD_VERSION then reread_state G st else Err (Unsupported_Version v)
              | Legacy st \<Rightarrow> reread_state G st) of
             Ok st \<Rightarrow> (case verify_chain G st of Ok _ \<Rightarrow> Ok st | Err e \<Rightarrow> Err e | Panic \<Rightarrow> Panic)
           | Err e \<Rightarrow> Err e
           | Panic \<Rightarrow> Panic))"

definition build_persisted_state :: "guard_env \<Rightarrow> guard_config \<Rightarrow> u64 \<Rightarrow> guard_state \<Rightarrow> guard_state" where
  "build_persisted_state G cfg now st = stamp G now (guard_apply_decoherence G (decoherence_rate cfg) st)"

definition save_state ::
  "guard_env \<Rightarrow> guard_config \<Rightarrow> bool \<Rightarrow> u64 \<Rightarrow> guard_file option \<Rightarrow> guard_state
    \<Rightarrow> guard_file option \<times> (guard_error, guard_state) result" where
  \<comment> \<open>write to a temporary file, then rename: the file is replaced or left as it is\<close>
  "save_state G cfg io now disk st =
     (if io then let next_st = build_persisted_state G cfg now st in (Some (Versioned (gs_version next_st) next_st), Ok next_st)
      else (disk, Err Io_Error))"

subsection \<open>The guard\<close>

record guard =
  g_disk :: "guard_file option"
  g_inner :: guard_state
  g_config :: guard_config
  checks_passed :: u64
  detections :: u64
  g_records :: u64

definition flush :: "guard_env \<Rightarrow> bool \<Rightarrow> u64 \<Rightarrow> guard \<Rightarrow> guard \<times> (guard_error, unit) result" where
  "flush G io now g =
     (case save_state G (g_config g) io now (g_disk g) (g_inner g) of
        (d, Ok st) \<Rightarrow> (g\<lparr>g_disk := d, g_inner := st\<rparr>, Ok ())
      | (d, Err e) \<Rightarrow> (g\<lparr>g_disk := d\<rparr>, Err e)
      | (d, Panic) \<Rightarrow> (g\<lparr>g_disk := d\<rparr>, Panic))"

definition verify_integrity :: "guard_env \<Rightarrow> guard \<Rightarrow> (guard_error, unit) result" where
  "verify_integrity G g = verify_chain G (g_inner g)"

definition guard_with_config ::
  "guard_env \<Rightarrow> guard_config \<Rightarrow> bool \<Rightarrow> bool \<Rightarrow> bool \<Rightarrow> u64 \<Rightarrow> guard_file option \<Rightarrow> guard_file option \<times> (guard_error, guard) result" where
  \<comment> \<open>whether the directory can be created, the file read, the file written; a corrupt file is copied to a backup,
    which leaves the guard file as it is\<close>
  "guard_with_config G cfg io_dir io_load io_save now disk =
     (case guard_config_validate cfg of
        Err e \<Rightarrow> (disk, Err (Config_Error e))
      | Panic \<Rightarrow> (disk, Panic)
      | Ok _ \<Rightarrow>
          (if \<not> io_dir then (disk, Err Io_Error)
           else let (st, recovered) = (case load_state G io_load now disk of Ok st \<Rightarrow> (st, False) | _ \<Rightarrow> (guard_state_default now, True));
                    g = \<lparr>g_disk = disk, g_inner = st, g_config = cfg, checks_passed = 0, detections = 0, g_records = 0\<rparr>;
                    (g1, r) = (if disk = None \<or> recovered then flush G io_save now g else (g, Ok ()))
                in (g_disk g1,
                    case r of
                      Ok _ \<Rightarrow> (case verify_integrity G g1 of Ok _ \<Rightarrow> Ok g1 | Err e \<Rightarrow> Err e | Panic \<Rightarrow> Panic)
                    | Err e \<Rightarrow> Err e
                    | Panic \<Rightarrow> Panic)))"

definition proposal_guard_key :: "height \<Rightarrow> round_no \<Rightarrow> string" where
  "proposal_guard_key h r = ''proposal:'' @ decimal h @ '':'' @ decimal r"

fun vote_type_debug :: "vote_type \<Rightarrow> string" where
  "vote_type_debug Prevote = ''Prevote''"
| "vote_type_debug Precommit = ''Precommit''"

definition vote_guard_key :: "vote_type \<Rightarrow> height \<Rightarrow> round_no \<Rightarrow> string" where
  "vote_guard_key vt h r = ''vote:'' @ vote_type_debug vt @ '':'' @ decimal h @ '':'' @ decimal r"

definition vote_value :: "(byte list \<Rightarrow> string) \<Rightarrow> hash32 option \<Rightarrow> string" where
  "vote_value hex b = (case b of Some x \<Rightarrow> hex x | None \<Rightarrow> ''nil'')"

definition check_proposal ::
  "(byte list \<Rightarrow> string) \<Rightarrow> guard \<Rightarrow> height \<Rightarrow> round_no \<Rightarrow> hash32 \<Rightarrow> guard \<times> (guard_error, unit) result" where
  "check_proposal hex g h r bid =
     (case bt_get (gs_proposals (g_inner g)) (proposal_guard_key h r) of
        Some existing \<Rightarrow>
          (if existing \<noteq> hex bid
           then (g\<lparr>detections := wrapping_add 64 (detections g) 1\<rparr>, Err (Double_Proposal h r existing (hex bid)))
           else (g\<lparr>checks_passed := wrapping_add 64 (checks_passed g) 1\<rparr>, Ok ()))
      | None \<Rightarrow> (g\<lparr>checks_passed := wrapping_add 64 (checks_passed g) 1\<rparr>, Ok ()))"

definition persist_or_roll_back ::
  "guard_env \<Rightarrow> bool \<Rightarrow> u64 \<Rightarrow> guard \<Rightarrow> guard_state \<Rightarrow> guard \<times> (guard_error, unit) result" where
  \<comment> \<open>the second half of \<open>record_proposal\<close> and \<open>record_vote\<close>\<close>
  "persist_or_roll_back G io now g st =
     (case save_state G (g_config g) io now (g_disk g) st of
        (d, Ok persisted) \<Rightarrow> (g\<lparr>g_disk := d, g_inner := persisted, g_records := wrapping_add 64 (g_records g) 1\<rparr>, Ok ())
      | (d, Err e) \<Rightarrow> (g\<lparr>g_disk := d\<rparr>, Err e)
      | (d, Panic) \<Rightarrow> (g\<lparr>g_disk := d\<rparr>, Panic))"

definition record_proposal ::
  "(byte list \<Rightarrow> string) \<Rightarrow> guard_env \<Rightarrow> bool \<Rightarrow> u64 \<Rightarrow> guard \<Rightarrow> height \<Rightarrow> round_no \<Rightarrow> hash32
    \<Rightarrow> guard \<times> (guard_error, unit) result" where
  "record_proposal hex G io now g h r bid =
     persist_or_roll_back G io now g
       ((g_inner g)\<lparr>gs_proposals := bt_insert (proposal_guard_key h r) (hex bid) (gs_proposals (g_inner g))\<rparr>)"

definition check_vote ::
  "(byte list \<Rightarrow> string) \<Rightarrow> guard \<Rightarrow> vote_type \<Rightarrow> height \<Rightarrow> round_no \<Rightarrow> hash32 option \<Rightarrow> guard \<times> (guard_error, unit) result" where
  "check_vote hex g vt h r b =
     (case bt_get (gs_votes (g_inner g)) (vote_guard_key vt h r) of
        Some existing \<Rightarrow>
          (if existing \<noteq> vote_value hex b
           then (g\<lparr>detections := wrapping_add 64 (detections g) 1\<rparr>, Err (Double_Vote vt h r existing (vote_value hex b)))
           else (g\<lparr>checks_passed := wrapping_add 64 (checks_passed g) 1\<rparr>, Ok ()))
      | None \<Rightarrow> (g\<lparr>checks_passed := wrapping_add 64 (checks_passed g) 1\<rparr>, Ok ()))"

definition record_vote ::
  "(byte list \<Rightarrow> string) \<Rightarrow> guard_env \<Rightarrow> bool \<Rightarrow> u64 \<Rightarrow> guard \<Rightarrow> vote_type \<Rightarrow> height \<Rightarrow> round_no \<Rightarrow> hash32 option
    \<Rightarrow> guard \<times> (guard_error, unit) result" where
  "record_vote hex G io now g vt h r b =
     persist_or_roll_back G io now g
       ((g_inner g)\<lparr>gs_votes := bt_insert (vote_guard_key vt h r) (vote_value hex b) (gs_votes (g_inner g))\<rparr>)"

definition reset_and_flush :: "guard_env \<Rightarrow> bool \<Rightarrow> u64 \<Rightarrow> guard \<Rightarrow> guard \<times> (guard_error, unit) result" where
  "reset_and_flush G io now g =
     (case save_state G (g_config g) io now (g_disk g) (guard_state_default now) of
        (d, Ok st) \<Rightarrow> (g\<lparr>g_disk := d, g_inner := st\<rparr>, Ok ())
      | (d, Err e) \<Rightarrow> (g\<lparr>g_disk := d\<rparr>, Err e)
      | (d, Panic) \<Rightarrow> (g\<lparr>g_disk := d\<rparr>, Panic))"

definition record_count :: "guard \<Rightarrow> usize \<times> usize" where
  "record_count g = (length (gs_proposals (g_inner g)), length (gs_votes (g_inner g)))"

subsection \<open>The interface\<close>

locale sign_once =
  fixes lookup :: "'g \<Rightarrow> 'k \<Rightarrow> string option"
    and enc :: "'v \<Rightarrow> string"
    and check :: "'g \<Rightarrow> 'k \<Rightarrow> 'v \<Rightarrow> 'g \<times> bool"
    and rec :: "'i \<Rightarrow> 'g \<Rightarrow> 'k \<Rightarrow> 'v \<Rightarrow> 'g \<times> bool"
  assumes check_iff: "snd (check g k v) \<longleftrightarrow> lookup g k = None \<or> lookup g k = Some (enc v)"
    and check_same: "lookup (fst (check g k v)) k' = lookup g k'"
    and rec_lookup: "lookup (fst (rec i g k v)) k' = (if snd (rec i g k v) \<and> k' = k then Some (enc v) else lookup g k')"
    and enc_inj: "enc v = enc w \<Longrightarrow> v = w"
begin

text \<open>\<open>covers g log\<close>: everything signed so far is on record.\<close>

definition covers :: "'g \<Rightarrow> ('k \<times> 'v) set \<Rightarrow> bool" where
  "covers g log \<longleftrightarrow> (\<forall>(k, v) \<in> log. lookup g k = Some (enc v))"

lemma covers_functional: "covers g log \<Longrightarrow> (k, v) \<in> log \<Longrightarrow> (k, w) \<in> log \<Longrightarrow> v = w"
  unfolding covers_def by (metis (mono_tags, lifting) case_prodD enc_inj option.inject)

lemma covers_check: "covers g log \<Longrightarrow> covers (fst (check g k v)) log"
  unfolding covers_def by (simp add: check_same)

lemma covers_record:
  assumes "covers g log" "snd (check g0 k v)" "\<And>k'. lookup g k' = lookup g0 k'"
  shows "covers (fst (rec i g k v)) log"
    and "snd (rec i g k v) \<Longrightarrow> covers (fst (rec i g k v)) (insert (k, v) log)"
proof -
  have l: "lookup g k = None \<or> lookup g k = Some (enc v)" using assms(2,3) check_iff by simp
  show "covers (fst (rec i g k v)) log"
    using assms(1) l unfolding covers_def by (fastforce simp: rec_lookup)
  then show "covers (fst (rec i g k v)) (insert (k, v) log)" if "snd (rec i g k v)"
    using that unfolding covers_def by (simp add: rec_lookup)
qed

end

subsection \<open>Keys and values\<close>

lemma decimal_digits: "c \<in> set (decimal n) \<Longrightarrow> \<exists>d < 10. c = digit_char d"
proof (induction n rule: decimal.induct)
  case (1 n)
  show ?case
  proof (cases "n < 10")
    case True
    then show ?thesis using "1.prems" decimal.simps [of n] by auto
  next
    case False
    then have "c \<in> set (decimal (n div 10)) \<or> c = digit_char (n mod 10)" using "1.prems" False decimal.simps [of n] by auto
    moreover have "n mod 10 < 10" by simp
    ultimately show ?thesis using 1(1) [OF False] by blast
  qed
qed

lemma decimal_no_colon: "CHR '':'' \<notin> set (decimal n)"
proof
  assume "CHR '':'' \<in> set (decimal n)"
  then obtain d where d: "d < 10" "CHR '':'' = digit_char d" using decimal_digits by blast
  then have "(of_char (CHR '':'') :: nat) = 48 + d" unfolding digit_char_def by simp
  then show False using d(1) by simp
qed

lemma proposal_key_inj [simp]: "proposal_guard_key h r = proposal_guard_key h' r' \<longleftrightarrow> h = h' \<and> r = r'"
  using split_at_colon [OF decimal_no_colon decimal_no_colon, of h "decimal r" h' "decimal r'"] decimal_inj
  by (auto simp: proposal_guard_key_def)

lemma vote_key_inj [simp]: "vote_guard_key vt h r = vote_guard_key vt' h' r' \<longleftrightarrow> vt = vt' \<and> h = h' \<and> r = r'"
proof -
  have "CHR '':'' \<notin> set (vote_type_debug vt)" for vt by (cases vt) auto
  moreover have "vote_type_debug vt = vote_type_debug vt' \<longleftrightarrow> vt = vt'" by (cases vt; cases vt') auto
  ultimately show ?thesis
    using split_at_colon [OF decimal_no_colon decimal_no_colon, of h "decimal r" h' "decimal r'"] decimal_inj
    by (auto simp: vote_guard_key_def split_at_colon)
qed

lemma vote_value_inj:
  assumes "inj hex" "''nil'' \<notin> range hex"
  shows "vote_value hex b = vote_value hex b' \<longleftrightarrow> b = b'"
  using assms by (auto simp: vote_value_def inj_eq split: option.splits) (metis rangeI)+

lemma hex_lower_not_nil: "''nil'' \<notin> range hex_lower"
proof
  assume "''nil'' \<in> range hex_lower"
  then obtain x where "hex_lower x = ''nil''" by auto
  then have "length (hex_lower x) = 3" by simp
  then show False by (simp add: hex_lower_length) presburger
qed

subsection \<open>Interpretations\<close>

definition proposal_lookup :: "guard \<Rightarrow> height \<times> round_no \<Rightarrow> string option" where
  "proposal_lookup g = (\<lambda>(h, r). bt_get (gs_proposals (g_inner g)) (proposal_guard_key h r))"

definition vote_lookup :: "guard \<Rightarrow> vote_type \<times> height \<times> round_no \<Rightarrow> string option" where
  "vote_lookup g = (\<lambda>(vt, h, r). bt_get (gs_votes (g_inner g)) (vote_guard_key vt h r))"

definition check_proposal_ok :: "(byte list \<Rightarrow> string) \<Rightarrow> guard \<Rightarrow> height \<times> round_no \<Rightarrow> hash32 \<Rightarrow> guard \<times> bool" where
  "check_proposal_ok hex g = (\<lambda>(h, r) b. map_prod id is_ok (check_proposal hex g h r b))"

definition check_vote_ok :: "(byte list \<Rightarrow> string) \<Rightarrow> guard \<Rightarrow> vote_type \<times> height \<times> round_no \<Rightarrow> hash32 option \<Rightarrow> guard \<times> bool" where
  "check_vote_ok hex g = (\<lambda>(vt, h, r) b. map_prod id is_ok (check_vote hex g vt h r b))"

definition record_proposal_ok ::
  "(byte list \<Rightarrow> string) \<Rightarrow> guard_env \<Rightarrow> bool \<times> u64 \<Rightarrow> guard \<Rightarrow> height \<times> round_no \<Rightarrow> hash32 \<Rightarrow> guard \<times> bool" where
  "record_proposal_ok hex G i g = (\<lambda>(h, r) b. map_prod id is_ok (record_proposal hex G (fst i) (snd i) g h r b))"

definition record_vote_ok ::
  "(byte list \<Rightarrow> string) \<Rightarrow> guard_env \<Rightarrow> bool \<times> u64 \<Rightarrow> guard \<Rightarrow> vote_type \<times> height \<times> round_no \<Rightarrow> hash32 option \<Rightarrow> guard \<times> bool" where
  "record_vote_ok hex G i g = (\<lambda>(vt, h, r) b. map_prod id is_ok (record_vote hex G (fst i) (snd i) g vt h r b))"

lemmas guard_iface_defs = proposal_lookup_def vote_lookup_def check_proposal_ok_def check_vote_ok_def
  record_proposal_ok_def record_vote_ok_def

lemmas save_defs = persist_or_roll_back_def save_state_def build_persisted_state_def stamp_def guard_apply_decoherence_def

lemma proposal_sign_once:
  assumes "inj hex"
  shows "sign_once proposal_lookup hex (check_proposal_ok hex) (record_proposal_ok hex G)"
proof
  fix g and k k' :: "height \<times> round_no" and v w i
  show "snd (check_proposal_ok hex g k v) \<longleftrightarrow> proposal_lookup g k = None \<or> proposal_lookup g k = Some (hex v)"
    by (auto simp: guard_iface_defs check_proposal_def split: prod.splits option.splits)
  show "proposal_lookup (fst (check_proposal_ok hex g k v)) k' = proposal_lookup g k'"
    by (auto simp: guard_iface_defs check_proposal_def split: prod.splits option.splits)
  show "proposal_lookup (fst (record_proposal_ok hex G i g k v)) k'
      = (if snd (record_proposal_ok hex G i g k v) \<and> k' = k then Some (hex v) else proposal_lookup g k')"
    by (auto simp: guard_iface_defs record_proposal_def save_defs Let_def bt_get_insert split: prod.splits)
  show "hex v = hex w \<Longrightarrow> v = w" using assms by (simp add: inj_eq)
qed

lemma vote_sign_once:
  assumes "inj hex" "''nil'' \<notin> range hex"
  shows "sign_once vote_lookup (vote_value hex) (check_vote_ok hex) (record_vote_ok hex G)"
proof
  fix g and k k' :: "vote_type \<times> height \<times> round_no" and v w i
  show "snd (check_vote_ok hex g k v) \<longleftrightarrow> vote_lookup g k = None \<or> vote_lookup g k = Some (vote_value hex v)"
    by (auto simp: guard_iface_defs check_vote_def split: prod.splits option.splits)
  show "vote_lookup (fst (check_vote_ok hex g k v)) k' = vote_lookup g k'"
    by (auto simp: guard_iface_defs check_vote_def split: prod.splits option.splits)
  show "vote_lookup (fst (record_vote_ok hex G i g k v)) k'
      = (if snd (record_vote_ok hex G i g k v) \<and> k' = k then Some (vote_value hex v) else vote_lookup g k')"
    by (auto simp: guard_iface_defs record_vote_def save_defs Let_def bt_get_insert split: prod.splits)
  show "vote_value hex v = vote_value hex w \<Longrightarrow> v = w" using vote_value_inj [OF assms] by simp
qed

interpretation gp: sign_once proposal_lookup hex_lower "check_proposal_ok hex_lower" "record_proposal_ok hex_lower G" for G
  by (rule proposal_sign_once [OF hex_lower_inj])

interpretation gv: sign_once vote_lookup "vote_value hex_lower" "check_vote_ok hex_lower" "record_vote_ok hex_lower G" for G
  by (rule vote_sign_once [OF hex_lower_inj hex_lower_not_nil])

subsection \<open>What the guard has on record\<close>

lemma cross_lookup:
  "vote_lookup (fst (check_proposal hex g h r b)) k = vote_lookup g k"
  "vote_lookup (fst (record_proposal hex G io now g h r b)) k = vote_lookup g k"
  "proposal_lookup (fst (check_vote hex g vt h r c)) k' = proposal_lookup g k'"
  "proposal_lookup (fst (record_vote hex G io now g vt h r c)) k' = proposal_lookup g k'"
  by (auto simp: guard_iface_defs check_proposal_def check_vote_def record_proposal_def record_vote_def save_defs Let_def
      split: option.splits prod.splits)

type_synonym signed_log = "((height \<times> round_no) \<times> hash32) set \<times> ((vote_type \<times> height \<times> round_no) \<times> hash32 option) set"

definition on_record :: "(byte list \<Rightarrow> string) \<Rightarrow> guard \<Rightarrow> signed_log \<Rightarrow> bool" where
  "on_record hex g log \<longleftrightarrow>
     (\<forall>(k, v) \<in> fst log. proposal_lookup g k = Some (hex v)) \<and>
     (\<forall>(k, v) \<in> snd log. vote_lookup g k = Some (vote_value hex v))"

lemma on_record_covers:
  assumes "inj hex" "''nil'' \<notin> range hex"
  shows "on_record hex g log \<longleftrightarrow> sign_once.covers proposal_lookup hex g (fst log) \<and>
    sign_once.covers vote_lookup (vote_value hex) g (snd log)"
  by (simp add: on_record_def sign_once.covers_def [OF proposal_sign_once [OF assms(1)]]
      sign_once.covers_def [OF vote_sign_once [OF assms]])

lemma on_record_same:
  assumes "\<And>k. proposal_lookup g' k = proposal_lookup g k" "\<And>k. vote_lookup g' k = vote_lookup g k"
  shows "on_record hex g' log = on_record hex g log"
  by (simp add: on_record_def assms)

lemma propose_on_record:
  assumes hex: "inj hex" "''nil'' \<notin> range hex" and log: "on_record hex g log"
    and c: "check_proposal hex g h r b = (g1, c)" "is_ok c" and d: "record_proposal hex G io now g1 h r b = (g2, d)"
  shows "on_record hex g2 (if is_ok d then (insert ((h, r), b) (fst log), snd log) else log)"
proof -
  note P = proposal_sign_once [OF hex(1), of G] and V = vote_sign_once [OF hex, of G]
  have g1: "g1 = fst (check_proposal_ok hex g (h, r) b)" "snd (check_proposal_ok hex g (h, r) b)"
    using c by (auto simp: check_proposal_ok_def)
  have g2: "g2 = fst (record_proposal_ok hex G (io, now) g1 (h, r) b)" "is_ok d = snd (record_proposal_ok hex G (io, now) g1 (h, r) b)"
    using d by (auto simp: record_proposal_ok_def)
  have "sign_once.covers proposal_lookup hex g1 (fst log)"
    unfolding g1(1) using sign_once.covers_check [OF P] log on_record_covers [OF hex] by blast
  note R = sign_once.covers_record [OF P this g1(2) sign_once.check_same [OF P, of g "(h, r)" b, folded g1(1)],
      of "(io, now)", folded g2]
  have "vote_lookup g2 k = vote_lookup g k" for k using c(1) d cross_lookup(1,2) by (metis fst_conv)
  then have "sign_once.covers vote_lookup (vote_value hex) g2 (snd log)"
    using log on_record_covers [OF hex] by (simp add: sign_once.covers_def [OF V])
  then show ?thesis using R on_record_covers [OF hex] by auto
qed

lemma vote_on_record:
  assumes hex: "inj hex" "''nil'' \<notin> range hex" and log: "on_record hex g log"
    and c: "check_vote hex g vt h r b = (g1, c)" "is_ok c" and d: "record_vote hex G io now g1 vt h r b = (g2, d)"
  shows "on_record hex g2 (if is_ok d then (fst log, insert ((vt, h, r), b) (snd log)) else log)"
proof -
  note P = proposal_sign_once [OF hex(1), of G] and V = vote_sign_once [OF hex, of G]
  have g1: "g1 = fst (check_vote_ok hex g (vt, h, r) b)" "snd (check_vote_ok hex g (vt, h, r) b)"
    using c by (auto simp: check_vote_ok_def)
  have g2: "g2 = fst (record_vote_ok hex G (io, now) g1 (vt, h, r) b)" "is_ok d = snd (record_vote_ok hex G (io, now) g1 (vt, h, r) b)"
    using d by (auto simp: record_vote_ok_def)
  have "sign_once.covers vote_lookup (vote_value hex) g1 (snd log)"
    unfolding g1(1) using sign_once.covers_check [OF V] log on_record_covers [OF hex] by blast
  note R = sign_once.covers_record [OF V this g1(2) sign_once.check_same [OF V, of g "(vt, h, r)" b, folded g1(1)],
      of "(io, now)", folded g2]
  have "proposal_lookup g2 k = proposal_lookup g k" for k using c(1) d cross_lookup(3,4) by (metis fst_conv)
  then have "sign_once.covers proposal_lookup hex g2 (fst log)"
    using log on_record_covers [OF hex] by (simp add: sign_once.covers_def [OF P])
  then show ?thesis using R on_record_covers [OF hex] by auto
qed

lemma check_on_record:
  "on_record hex (fst (check_proposal hex' g h r b)) log = on_record hex g log"
  "on_record hex (fst (check_vote hex' g vt h r c)) log = on_record hex g log"
  by (rule on_record_same; auto simp: guard_iface_defs check_proposal_def check_vote_def split: option.splits prod.splits)+

subsection \<open>Loading what was saved\<close>

definition same_records :: "guard_state \<Rightarrow> guard_state \<Rightarrow> bool" where
  "same_records st st' \<longleftrightarrow> gs_proposals st = gs_proposals st' \<and> gs_votes st = gs_votes st'"

lemma stamp_verifies: "verify_chain G (stamp G now st) = Ok ()"
  by (simp add: verify_chain_def stamp_def compute_hash_def Let_def)

lemma persisted_fields:
  "gs_version (build_persisted_state G cfg now st) = gs_version st" "same_records (build_persisted_state G cfg now st) st"
  by (simp_all add: build_persisted_state_def stamp_def guard_apply_decoherence_def same_records_def Let_def)

text \<open>A load that succeeds returns the records in the file: only the two numbers may differ from what was written.\<close>

lemma load_records:
  assumes "load_state G io now (Some (Versioned v st)) = Ok st'"
  shows "same_records st' st"
  using assms by (auto simp: load_state_def reread_state_def same_records_def split: if_splits option.splits result.splits)

text \<open>
  When the guard comes back with its history: the file is read, its numbers parse, and the state with these
  numbers still has the hash that was computed over the numbers before they were written.
\<close>

lemma load_saved_iff:
  assumes "gs_version st = GUARD_VERSION"
  shows "is_ok (load_state G io now' (Some (Versioned (gs_version st) (build_persisted_state G cfg now st)))) \<longleftrightarrow>
    io \<and> (\<exists>p e. ge_reread G (purity (build_persisted_state G cfg now st)) = Some p \<and>
      ge_reread G (entropy (build_persisted_state G cfg now st)) = Some e \<and>
      verify_chain G (build_persisted_state G cfg now st\<lparr>purity := p, entropy := e\<rparr>) = Ok ())"
  using assms
  by (auto simp: load_state_def reread_state_def verify_chain_def split: option.splits result.splits)

lemma on_record_state: "same_records (g_inner g') (g_inner g) \<Longrightarrow> on_record hex g' log = on_record hex g log"
  by (rule on_record_same) (auto simp: same_records_def proposal_lookup_def vote_lookup_def)

subsection \<open>Signing under the guard\<close>

text \<open>
  The use the engine makes of the guard, for one validator over the life of its guard file. A process that runs
  signs what it checks and records; it may stop at any time and a new one may be started, which loads the
  file. Every event says which of its file accesses succeed. A start that fails leaves no process. \<open>gl_log\<close> is
  what has been signed. \<open>gl_forgot\<close> says that, after something had been signed, a process was started although the
  file could not be loaded.
\<close>

datatype guard_event =
    Sign_Proposal bool u64 height round_no hash32
  | Sign_Vote bool u64 vote_type height round_no "hash32 option"
  | Start bool bool bool u64

record guard_life =
  gl_guard :: "guard option"
  gl_disk :: "guard_file option"
  gl_log :: signed_log
  gl_forgot :: bool

definition guard_life_new :: "guard_file option \<Rightarrow> guard_life" where
  "guard_life_new disk = \<lparr>gl_guard = None, gl_disk = disk, gl_log = ({}, {}), gl_forgot = False\<rparr>"

fun guard_event_step :: "(byte list \<Rightarrow> string) \<Rightarrow> guard_env \<Rightarrow> guard_config \<Rightarrow> guard_life \<Rightarrow> guard_event \<Rightarrow> guard_life" where
  "guard_event_step hex G cfg l (Sign_Proposal io now h r b) =
     (case gl_guard l of
        None \<Rightarrow> l
      | Some g \<Rightarrow>
          (let (g1, c) = check_proposal hex g h r b in
           if \<not> is_ok c then l\<lparr>gl_guard := Some g1\<rparr>
           else let (g2, d) = record_proposal hex G io now g1 h r b
             in l\<lparr>gl_guard := Some g2, gl_disk := g_disk g2,
                  gl_log := (if is_ok d then (insert ((h, r), b) (fst (gl_log l)), snd (gl_log l)) else gl_log l)\<rparr>))"
| "guard_event_step hex G cfg l (Sign_Vote io now vt h r b) =
     (case gl_guard l of
        None \<Rightarrow> l
      | Some g \<Rightarrow>
          (let (g1, c) = check_vote hex g vt h r b in
           if \<not> is_ok c then l\<lparr>gl_guard := Some g1\<rparr>
           else let (g2, d) = record_vote hex G io now g1 vt h r b
             in l\<lparr>gl_guard := Some g2, gl_disk := g_disk g2,
                  gl_log := (if is_ok d then (fst (gl_log l), insert ((vt, h, r), b) (snd (gl_log l))) else gl_log l)\<rparr>))"
| "guard_event_step hex G cfg l (Start io_dir io_load io_save now) =
     (let (d, r) = guard_with_config G cfg io_dir io_load io_save now (gl_disk l)
      in l\<lparr>gl_guard := (case r of Ok g \<Rightarrow> Some g | _ \<Rightarrow> None), gl_disk := d,
           gl_forgot := (gl_forgot l \<or> gl_log l \<noteq> ({}, {}) \<and> is_ok r \<and> \<not> is_ok (load_state G io_load now (gl_disk l)))\<rparr>)"

definition guard_run :: "(byte list \<Rightarrow> string) \<Rightarrow> guard_env \<Rightarrow> guard_config \<Rightarrow> guard_life \<Rightarrow> guard_event list \<Rightarrow> guard_life" where
  "guard_run hex G cfg l es = foldl (guard_event_step hex G cfg) l es"

text \<open>
  The invariant: some record covers all that was signed; it is on record in memory while a process runs, and in
  whatever a load of the file can return.
\<close>

definition disk_covers :: "(byte list \<Rightarrow> string) \<Rightarrow> guard_env \<Rightarrow> guard_file option \<Rightarrow> signed_log \<Rightarrow> bool" where
  "disk_covers hex G disk log \<longleftrightarrow>
     (\<forall>io now st g. load_state G io now disk = Ok st \<longrightarrow> g_inner g = st \<longrightarrow> on_record hex g log)"

definition life_ok :: "(byte list \<Rightarrow> string) \<Rightarrow> guard_env \<Rightarrow> guard_life \<Rightarrow> bool" where
  "life_ok hex G l \<longleftrightarrow> gl_forgot l \<or>
     (\<exists>g. on_record hex g (gl_log l)) \<and> disk_covers hex G (gl_disk l) (gl_log l) \<and>
     (\<forall>g. gl_guard l = Some g \<longrightarrow> g_disk g = gl_disk l \<and> on_record hex g (gl_log l))"

lemma disk_covers_saved:
  assumes "on_record hex g log" "same_records st (g_inner g)"
  shows "disk_covers hex G (Some (Versioned v st)) log"
  unfolding disk_covers_def
proof (intro allI impI)
  fix io now st' and g' :: guard
  assume l: "load_state G io now (Some (Versioned v st)) = Ok st'" and g': "g_inner g' = st'"
  have "same_records (g_inner g') (g_inner g)" using load_records [OF l] assms(2) g' by (simp add: same_records_def)
  then show "on_record hex g' log" using assms(1) on_record_state by blast
qed

lemma persist_disk:
  assumes "persist_or_roll_back G io now g st = (g2, d)" and "disk_covers hex G (g_disk g) log"
    and "on_record hex g2 log'" and "\<not> is_ok d \<Longrightarrow> log' = log"
  shows "disk_covers hex G (g_disk g2) log'"
proof (cases io)
  case True
  then have "g_disk g2 = Some (Versioned (gs_version (g_inner g2)) (g_inner g2))"
    using assms(1) by (auto simp: persist_or_roll_back_def save_state_def Let_def)
  then show ?thesis using disk_covers_saved [OF assms(3)] by (simp add: same_records_def)
next
  case False
  then have "g_disk g2 = g_disk g" "\<not> is_ok d" using assms(1) by (auto simp: persist_or_roll_back_def save_state_def)
  then show ?thesis using assms(2,4) by simp
qed

lemma check_disk:
  "g_disk (fst (check_proposal hex g h r b)) = g_disk g" "g_disk (fst (check_vote hex g vt h r c)) = g_disk g"
  by (simp_all add: check_proposal_def check_vote_def split: option.splits)

lemma sign_proposal_ok:
  assumes hex: "inj hex" "''nil'' \<notin> range hex" and l: "life_ok hex G l"
  shows "life_ok hex G (guard_event_step hex G cfg l (Sign_Proposal io now h r b))"
proof (cases "gl_guard l")
  case (Some g)
  obtain g1 c where c: "check_proposal hex g h r b = (g1, c)" by fastforce
  obtain g2 d where d: "record_proposal hex G io now g1 h r b = (g2, d)" by fastforce
  have g1: "g_disk g1 = g_disk g" "on_record hex g1 log = on_record hex g log" for log
    using c check_disk(1) [of hex g h r b] check_on_record(1) [of hex hex g h r b] by simp_all
  show ?thesis
  proof (cases "gl_forgot l \<or> \<not> is_ok c")
    case True
    then show ?thesis using l Some c g1 by (auto simp: life_ok_def split: prod.splits)
  next
    case False
    let ?log = "if is_ok d then (insert ((h, r), b) (fst (gl_log l)), snd (gl_log l)) else gl_log l"
    have g: "g_disk g = gl_disk l" "on_record hex g (gl_log l)" "disk_covers hex G (gl_disk l) (gl_log l)"
      using l Some False by (auto simp: life_ok_def)
    have R: "on_record hex g2 ?log" by (rule propose_on_record [OF hex g(2) c _ d]) (use False in simp)
    have "disk_covers hex G (g_disk g2) ?log"
      by (rule persist_disk [OF d [unfolded record_proposal_def] _ R]) (use g g1 in auto)
    then show ?thesis using R Some c d False by (auto simp: life_ok_def)
  qed
qed (use l in simp)

lemma sign_vote_ok:
  assumes hex: "inj hex" "''nil'' \<notin> range hex" and l: "life_ok hex G l"
  shows "life_ok hex G (guard_event_step hex G cfg l (Sign_Vote io now vt h r b))"
proof (cases "gl_guard l")
  case (Some g)
  obtain g1 c where c: "check_vote hex g vt h r b = (g1, c)" by fastforce
  obtain g2 d where d: "record_vote hex G io now g1 vt h r b = (g2, d)" by fastforce
  have g1: "g_disk g1 = g_disk g" "on_record hex g1 log = on_record hex g log" for log
    using c check_disk(2) [of hex g vt h r b] check_on_record(2) [of hex hex g vt h r b] by simp_all
  show ?thesis
  proof (cases "gl_forgot l \<or> \<not> is_ok c")
    case True
    then show ?thesis using l Some c g1 by (auto simp: life_ok_def split: prod.splits)
  next
    case False
    let ?log = "if is_ok d then (fst (gl_log l), insert ((vt, h, r), b) (snd (gl_log l))) else gl_log l"
    have g: "g_disk g = gl_disk l" "on_record hex g (gl_log l)" "disk_covers hex G (gl_disk l) (gl_log l)"
      using l Some False by (auto simp: life_ok_def)
    have R: "on_record hex g2 ?log" by (rule vote_on_record [OF hex g(2) c _ d]) (use False in simp)
    have "disk_covers hex G (g_disk g2) ?log"
      by (rule persist_disk [OF d [unfolded record_vote_def] _ R]) (use g g1 in auto)
    then show ?thesis using R Some c d False by (auto simp: life_ok_def)
  qed
qed (use l in simp)

text \<open>A start: the file stays as it is and memory holds what the load returned, or a state without records is saved.\<close>

lemma start_cases:
  assumes "guard_with_config G cfg io_dir io_load io_save now disk = (d, r)"
  obtains (kept) st where "load_state G io_load now disk = Ok st" "d = disk" "\<And>g. r = Ok g \<Longrightarrow> g_disk g = disk \<and> g_inner g = st"
  | (failed) "d = disk" "\<not> is_ok r"
  | (fresh) st where "disk = None \<or> \<not> is_ok (load_state G io_load now disk)" "is_ok r" "d = Some (Versioned GUARD_VERSION st)"
      "same_records st (guard_state_default now)" "\<And>g. r = Ok g \<Longrightarrow> g_disk g = d \<and> g_inner g = st"
proof (cases "is_ok (guard_config_validate cfg) \<and> io_dir")
  case False
  then show ?thesis
    using assms failed by (cases "guard_config_validate cfg") (auto simp: guard_with_config_def)
next
  case True
  then have v: "guard_config_validate cfg = Ok ()" "io_dir" by (cases "guard_config_validate cfg"; simp)+
  show ?thesis
  proof (cases "disk \<noteq> None \<and> is_ok (load_state G io_load now disk)")
    case True
    then obtain st where st: "load_state G io_load now disk = Ok st" by (cases "load_state G io_load now disk") auto
    show ?thesis
      by (rule kept [OF st]) (use assms v True st in \<open>auto simp: guard_with_config_def Let_def split: result.splits\<close>)
  next
    case False
    let ?st = "build_persisted_state G cfg now (guard_state_default now)"
    have ld: "fst (case load_state G io_load now disk of Ok st \<Rightarrow> (st, False) | _ \<Rightarrow> (guard_state_default now, True)) = guard_state_default now"
      "disk = None \<or> snd (case load_state G io_load now disk of Ok st \<Rightarrow> (st, False) | _ \<Rightarrow> (guard_state_default now, True))"
      using False by (cases "load_state G io_load now disk"; auto simp: load_state_def)+
    have p: "gs_version ?st = GUARD_VERSION" "same_records ?st (guard_state_default now)" "verify_chain G ?st = Ok ()"
      using persisted_fields stamp_verifies by (simp_all add: guard_state_default_def build_persisted_state_def)
    show ?thesis
    proof (cases io_save)
      case True
      show ?thesis
        by (rule fresh [of ?st])
          (use assms v False ld p True in \<open>auto simp: guard_with_config_def flush_def save_state_def verify_integrity_def case_prod_beta Let_def\<close>)
    next
      case False
      show ?thesis
        by (rule failed) (use assms v ld False in \<open>auto simp: guard_with_config_def flush_def save_state_def case_prod_beta Let_def\<close>)
    qed
  qed
qed

lemma on_record_none:
  assumes "same_records (g_inner g) (guard_state_default now)"
  shows "on_record hex g log \<longleftrightarrow> log = ({}, {})"
  using assms by (cases log) (auto simp: on_record_def same_records_def proposal_lookup_def vote_lookup_def guard_state_default_def)

lemma start_ok:
  assumes l: "life_ok hex G l"
  shows "life_ok hex G (guard_event_step hex G cfg l (Start io_dir io_load io_save now))"
proof (cases "gl_forgot l")
  case False
  then have cov: "disk_covers hex G (gl_disk l) (gl_log l)" "\<exists>g. on_record hex g (gl_log l)" using l by (simp_all add: life_ok_def)
  obtain d r where dr: "guard_with_config G cfg io_dir io_load io_save now (gl_disk l) = (d, r)" by fastforce
  from dr show ?thesis
  proof (cases rule: start_cases)
    case (kept st)
    then show ?thesis using cov dr by (auto simp: life_ok_def disk_covers_def split: result.splits)
  next
    case failed
    then show ?thesis using cov dr by (cases r) (simp_all add: life_ok_def)
  next
    case (fresh st)
    obtain g where r: "r = Ok g" using fresh(2) by (cases r) simp_all
    have g: "g_disk g = d" "same_records (g_inner g) (guard_state_default now)" using fresh(4,5) r by auto
    have "gl_log l = ({}, {}) \<or> \<not> is_ok (load_state G io_load now (gl_disk l))"
    proof (cases "gl_disk l = None")
      case True
      then have "on_record hex (g\<lparr>g_inner := guard_state_default now\<rparr>) (gl_log l)"
        using cov(1) by (simp add: disk_covers_def load_state_def)
      then show ?thesis using on_record_none [of "g\<lparr>g_inner := guard_state_default now\<rparr>" now] by (simp add: same_records_def)
    qed (use fresh(1) in auto)
    moreover have "on_record hex g ({}, {})" using on_record_none [OF g(2)] by simp
    moreover from this have "disk_covers hex G d ({}, {})"
      unfolding fresh(3) by (rule disk_covers_saved) (use fresh(5) r in \<open>simp add: same_records_def\<close>)
    ultimately show ?thesis using dr r g(1) cov(2) by (auto simp: life_ok_def)
  qed
qed (simp add: life_ok_def case_prod_beta)

lemma guard_run_ok:
  assumes "inj hex" "''nil'' \<notin> range hex" "life_ok hex G l"
  shows "life_ok hex G (guard_run hex G cfg l es)"
  using assms(3)
proof (induction es arbitrary: l)
  case (Cons e es)
  have "life_ok hex G (guard_event_step hex G cfg l e)"
    using sign_proposal_ok [OF assms(1,2) Cons.prems] sign_vote_ok [OF assms(1,2) Cons.prems] start_ok [OF Cons.prems] by (cases e) blast+
  from Cons.IH [OF this] show ?case by (simp add: guard_run_def)
qed (simp add: guard_run_def)

lemma life_new_ok: "life_ok hex G (guard_life_new disk)"
  by (simp add: life_ok_def guard_life_new_def disk_covers_def on_record_def)


text \<open>C5: A validator that signs only what the guard lets through never signs two blocks in one round, unless its guard
  file was discarded in between. Take any file at the beginning and any sequence of attempts to propose or
  to vote and of starts of the process, in which any of the file accesses may fail and the numbers in the
  file may be read back differently from what was written. If, after the first signature, no process
  was started with a file that it could not load, then for each height and round at most one block was
  proposed, and for each vote type, height and round at most one value was voted for.\<close>

theorem guard_no_equivocation:
  assumes "inj hex" "''nil'' \<notin> range hex" "guard_run hex G cfg (guard_life_new disk) es = l" "\<not> gl_forgot l"
  shows "(((h, r), b) \<in> fst (gl_log l) \<and> ((h, r), b') \<in> fst (gl_log l) \<longrightarrow> b = b') \<and>
    (((vt, h, r), c) \<in> snd (gl_log l) \<and> ((vt, h, r), c') \<in> snd (gl_log l) \<longrightarrow> c = c')"
proof -
  have "life_ok hex G l" using guard_run_ok [OF assms(1,2) life_new_ok] assms(3) by blast
  then obtain g where "on_record hex g (gl_log l)" using assms(4) by (auto simp: life_ok_def)
  then have "sign_once.covers proposal_lookup hex g (fst (gl_log l))" "sign_once.covers vote_lookup (vote_value hex) g (snd (gl_log l))"
    using on_record_covers [OF assms(1,2)] by simp_all
  then show ?thesis
    using sign_once.covers_functional [OF proposal_sign_once [OF assms(1)]]
      sign_once.covers_functional [OF vote_sign_once [OF assms(1,2)]] by blast
qed


definition demo_guard_env :: guard_env where
  \<comment> \<open>numbers are read back as zero\<close>
  "demo_guard_env = \<lparr>ge_hash = (\<lambda>_. ''h''), ge_reread = (\<lambda>_. Some F64_ZERO), ge_exp = (\<lambda>x. x), ge_ln = (\<lambda>x. x), ge_mul = (\<lambda>x _. x)\<rparr>"

definition demo_guard :: guard where
  "demo_guard =
     (let st = guard_state_default 0 in
      \<lparr>g_disk = Some (Versioned GUARD_VERSION st), g_inner = st, g_config = guard_config_default, checks_passed = 0, detections = 0,
       g_records = 0\<rparr>)"

lemma guard_config_default_valid: "guard_config_validate guard_config_default = Ok ()"
  by (simp add: guard_config_validate_def guard_config_default_def DEFAULT_WRITE_DECOHERENCE_RATE_def F64_HALF_def F64_ZERO_def F64_ONE_def
      f64_is_finite_def f64_in_unit_def f64_leq_def f64_is_nan_def f64_rank_def f64_magnitude_def take_bit_eq_mod bit_iff_odd)

lemmas guard_life_defs = guard_run_def guard_life_new_def check_vote_def record_vote_def save_defs guard_with_config_def
  guard_config_default_valid load_state_def reread_state_def verify_chain_def compute_hash_def flush_def verify_integrity_def
  guard_state_default_def demo_guard_env_def bt_get_insert vote_value_def Let_def

theorem guard_no_equivocation_witness:
  "let l = guard_run hex_lower demo_guard_env guard_config_default (guard_life_new None)
     [Start True True True 0, Sign_Vote True 1 Prevote 5 0 (Some [1]), Start True True True 2, Sign_Vote True 3 Prevote 5 0 (Some [2]),
      Sign_Vote True 4 Precommit 5 0 None]
   in \<not> gl_forgot l \<and> ((Prevote, 5, 0), Some [1]) \<in> snd (gl_log l) \<and> ((Precommit, 5, 0), None) \<in> snd (gl_log l) \<and>
     ((Prevote, 5, 0), Some [2]) \<notin> snd (gl_log l)"
proof -
  let ?es = "[Start True True True 0, Sign_Vote True 1 Prevote 5 0 (Some [1]), Start True True True 2, Sign_Vote True 3 Prevote 5 0 (Some [2]),
      Sign_Vote True 4 Precommit 5 0 None]"
  let ?l = "guard_run hex_lower demo_guard_env guard_config_default (guard_life_new None) ?es"
  have run: "\<not> gl_forgot ?l" "((Prevote, 5, 0), Some [1]) \<in> snd (gl_log ?l)" "((Precommit, 5, 0), None) \<in> snd (gl_log ?l)"
    by (simp_all add: guard_life_defs)
  show ?thesis
    using guard_no_equivocation [OF hex_lower_inj hex_lower_not_nil refl run(1), of 5 0 "[]" "[]" Prevote "Some [1]" "Some [2]"] run
    by (auto simp: Let_def)
qed

text \<open>C35: A guard file that cannot be loaded is discarded: whatever it holds, when reading it fails (a lock that
  is not obtained in time, an unparsable file, an unsupported version, a wrong chain hash) and the
  configuration is valid and the directory and the file can be written, the guard starts with an empty
  history, overwrites the file, and lets every vote and every proposal through.\<close>

theorem guard_load_failure_forgets:
  assumes "\<not> is_ok (load_state G io now (Some f))" and "guard_config_validate cfg = Ok ()"
  shows "\<exists>g st. guard_with_config G cfg True io True now (Some f) = (Some (Versioned GUARD_VERSION st), Ok g) \<and>
    record_count g = (0, 0) \<and>
    (\<forall>vt h r b. is_ok (snd (check_vote hex g vt h r b))) \<and> (\<forall>h r b. is_ok (snd (check_proposal hex g h r b)))"
proof -
  obtain d r where dr: "guard_with_config G cfg True io True now (Some f) = (d, r)" by fastforce
  from dr show ?thesis
  proof (cases rule: start_cases)
    case (fresh st)
    obtain g where g: "r = Ok g" using fresh(2) by (cases r) simp_all
    have "gs_votes (g_inner g) = []" "gs_proposals (g_inner g) = []"
      using fresh(4,5) g by (auto simp: same_records_def guard_state_default_def)
    then show ?thesis using dr g fresh(3) by (auto simp: record_count_def check_vote_def check_proposal_def)
  next
    case failed
    have "(case load_state G io now (Some f) of Ok st \<Rightarrow> (st, False) | _ \<Rightarrow> (guard_state_default now, True)) = (guard_state_default now, True)"
      using assms(1) by (cases "load_state G io now (Some f)") simp_all
    then have "is_ok r"
      using dr assms(2) stamp_verifies
      by (auto simp: guard_with_config_def flush_def save_state_def verify_integrity_def build_persisted_state_def Let_def)
    then show ?thesis using failed by simp
  qed (use assms(1) in simp)
qed

theorem guard_load_failure_forgets_witness:
  "\<exists>g d. guard_with_config demo_guard_env guard_config_default True False True 9
       (Some (Versioned 1 ((guard_state_default 0)\<lparr>gs_votes := [(vote_guard_key Prevote 5 0, hex_lower [1])]\<rparr>))) = (d, Ok g) \<and>
     is_ok (snd (check_vote hex_lower g Prevote 5 0 (Some [2])))"
  using guard_load_failure_forgets [OF _ guard_config_default_valid, of demo_guard_env False 9
      "Versioned 1 ((guard_state_default 0)\<lparr>gs_votes := [(vote_guard_key Prevote 5 0, hex_lower [1])]\<rparr>)" hex_lower]
  by (force simp: load_state_def)

end
