(* ===== verification/Chain_Types.thy ===== *)
theory Chain_Types
  imports Messages Lru_Cache
begin

text \<open>
  The data types of \<open>src/types/mod.rs\<close>: transactions, receipts, headers and blocks, the bytes that are
  hashed for each of them, and the cache of hashes in front of \<open>hash_bytes\<close>. The hash function \<open>blake3\<close>
  is third-party code and the argument \<open>H\<close>; the algorithm of \<open>DefaultHasher\<close>, which the standard
  library leaves unspecified, is the argument \<open>sip\<close>; the clock of the cache is an argument. A
  \<open>String\<close> is the sequence of its bytes. The floating-point scoreboard and the metrics are left out.

  Every hash of the sources is taken through \<open>hash_bytes\<close>. The definitions below take it as the plain
  function \<open>H\<close>, which is what it is as long as no two inputs share a cache key.
\<close>

subsection \<open>Transactions, receipts and blocks\<close>

record tx =
  tx_pubkey :: "byte list"
  tx_from :: string
  tx_nonce :: u64
  max_fee_per_gas :: u64
  max_priority_fee_per_gas :: u64
  tx_gas_limit :: u64
  payload :: string
  tx_signature :: "byte list"
  tx_chain_id :: u64

definition PUBKEY_LEN :: usize where "PUBKEY_LEN = 32"

definition SIGNATURE_LEN :: usize where "SIGNATURE_LEN = 64"

definition valid_pubkey_len :: "tx \<Rightarrow> bool" where
  "valid_pubkey_len t = (length (tx_pubkey t) = PUBKEY_LEN)"

definition valid_signature_len :: "tx \<Rightarrow> bool" where
  "valid_signature_len t = (length (tx_signature t) = SIGNATURE_LEN)"

record receipt =
  rc_tx_hash :: hash32
  success :: bool
  rc_gas_used :: u64
  rc_intrinsic_gas :: u64
  rc_exec_gas :: u64
  rc_vm_gas :: u64
  rc_evm_gas :: u64
  effective_gas_price :: u64
  rc_burned :: u64
  rc_tip :: u64
  rc_error :: "string option"
  rc_data :: "string option"

record block_header =
  hd_height :: height
  hd_round :: round_no
  hd_prev :: hash32
  hd_proposer_pk :: "byte list"
  hd_tx_root :: hash32
  hd_receipts_root :: hash32
  hd_state_root :: hash32
  hd_base_fee :: u64
  hd_gas_used :: u64
  hd_intrinsic_gas :: u64
  hd_exec_gas :: u64
  hd_vm_gas :: u64
  hd_evm_gas :: u64
  hd_chain_id :: u64
  hd_timestamp :: u64
  hd_protocol_version :: u32

record block =
  blk_header :: block_header
  blk_txs :: "tx list"

subsection \<open>Hashed bytes\<close>

definition header_bytes :: "block_header \<Rightarrow> byte list" where
  "header_bytes h =
     str_bytes ''IONA_BLK'' @ to_le_bytes 8 (hd_height h) @ to_le_bytes 4 (hd_round h) @ hd_prev h @
     as_bytes 2 (length (hd_proposer_pk h)) @ hd_proposer_pk h @
     hd_tx_root h @ hd_receipts_root h @ hd_state_root h @
     to_le_bytes 8 (hd_base_fee h) @ to_le_bytes 8 (hd_gas_used h) @ to_le_bytes 8 (hd_intrinsic_gas h) @
     to_le_bytes 8 (hd_exec_gas h) @ to_le_bytes 8 (hd_vm_gas h) @ to_le_bytes 8 (hd_evm_gas h) @
     to_le_bytes 8 (hd_chain_id h) @ to_le_bytes 8 (hd_timestamp h) @ to_le_bytes 4 (hd_protocol_version h)"

definition block_id :: "(byte list \<Rightarrow> hash32) \<Rightarrow> block \<Rightarrow> hash32" where
  "block_id H b = H (header_bytes (blk_header b))"

definition tx_bytes :: "tx \<Rightarrow> byte list" where
  "tx_bytes t =
     str_bytes ''IONA_TX'' @ as_bytes 2 (length (tx_pubkey t)) @ tx_pubkey t @
     as_bytes 2 (length (tx_from t)) @ str_bytes (tx_from t) @
     to_le_bytes 8 (tx_nonce t) @ to_le_bytes 8 (max_fee_per_gas t) @ to_le_bytes 8 (max_priority_fee_per_gas t) @
     to_le_bytes 8 (tx_gas_limit t) @ to_le_bytes 8 (tx_chain_id t) @
     as_bytes 4 (length (payload t)) @ str_bytes (payload t)"

definition tx_hash :: "(byte list \<Rightarrow> hash32) \<Rightarrow> tx \<Rightarrow> hash32" where
  "tx_hash H t = H (tx_bytes t)"

definition tx_root_bytes :: "(byte list \<Rightarrow> hash32) \<Rightarrow> tx list \<Rightarrow> byte list" where
  "tx_root_bytes H txs = str_bytes ''IONA_TXROOT'' @ as_bytes 4 (length txs) @ concat (map (tx_hash H) txs)"

definition tx_root :: "(byte list \<Rightarrow> hash32) \<Rightarrow> tx list \<Rightarrow> hash32" where
  "tx_root H txs = H (tx_root_bytes H txs)"

definition receipt_bytes :: "receipt \<Rightarrow> byte list" where
  "receipt_bytes r =
     rc_tx_hash r @ [of_bool (success r)] @ to_le_bytes 8 (rc_gas_used r) @ to_le_bytes 8 (effective_gas_price r) @
     to_le_bytes 8 (rc_burned r) @ to_le_bytes 8 (rc_tip r)"

definition receipts_root :: "(byte list \<Rightarrow> hash32) \<Rightarrow> receipt list \<Rightarrow> hash32" where
  "receipts_root H rs = H (str_bytes ''IONA_RCPROOT'' @ as_bytes 4 (length rs) @ concat (map receipt_bytes rs))"

subsection \<open>The hash cache\<close>

record types_config =
  enable_hash_cache :: bool
  tc_cache_size :: usize
  cache_ttl_secs :: u64
  track_quantum_metrics :: bool
  tc_enable_metrics :: bool
  log_hash_ops :: bool

definition types_config_default :: types_config where
  "types_config_default =
     \<lparr>enable_hash_cache = True, tc_cache_size = 1024, cache_ttl_secs = 300, track_quantum_metrics = True,
      tc_enable_metrics = True, log_hash_ops = False\<rparr>"

definition types_config_validate :: "types_config \<Rightarrow> (string, unit) result" where
  "types_config_validate c =
     (if tc_cache_size c = 0 then Err ''cache_size must be > 0''
      else if cache_ttl_secs c = 0 then Err ''cache_ttl_secs must be > 0''
      else Ok ())"

type_synonym hash_entry = "hash32 \<times> nat" \<comment> \<open>the hash and the instant it expires\<close>

type_synonym 'c hash_lru = "('c, u64, hash_entry) lru_ops"

record 'c hash_cache =
  hc_inner :: "'c option"
  hc_enabled :: bool
  hc_ttl :: nat

definition hash_cache_new :: "'c hash_lru \<Rightarrow> types_config \<Rightarrow> (string, 'c hash_cache) result" where
  "hash_cache_new L c =
     (case types_config_validate c of
        Err e \<Rightarrow> Err e
      | Panic \<Rightarrow> Panic
      | Ok _ \<Rightarrow>
          Ok \<lparr>hc_inner = (if enable_hash_cache c then Some (lru_new L (tc_cache_size c)) else None),
              hc_enabled = enable_hash_cache c, hc_ttl = cache_ttl_secs c\<rparr>)"

definition get_or_compute ::
  "'c hash_lru \<Rightarrow> (byte list \<Rightarrow> u64) \<Rightarrow> nat \<Rightarrow> 'c hash_cache \<Rightarrow> byte list \<Rightarrow> hash32 \<Rightarrow> 'c hash_cache \<times> hash32" where
  "get_or_compute L sip now c bs computed =
     (if \<not> hc_enabled c then (c, computed)
      else case hc_inner c of
        None \<Rightarrow> (c, computed)
      | Some m \<Rightarrow>
          (let key = sip bs; (m1, e) = lru_get L m key in
           case e of
             Some (h, expires) \<Rightarrow>
               (if now < expires then (c\<lparr>hc_inner := Some m1\<rparr>, h)
                else (c\<lparr>hc_inner := Some (lru_put L (lru_pop L m1 key) key (computed, now + hc_ttl c))\<rparr>, computed))
           | None \<Rightarrow> (c\<lparr>hc_inner := Some (lru_put L m1 key (computed, now + hc_ttl c))\<rparr>, computed)))"

definition hash_cache_clear :: "'c hash_lru \<Rightarrow> 'c hash_cache \<Rightarrow> 'c hash_cache" where
  "hash_cache_clear L c = c\<lparr>hc_inner := map_option (lru_clear L) (hc_inner c)\<rparr>"

definition hash_bytes ::
  "'c hash_lru \<Rightarrow> (byte list \<Rightarrow> u64) \<Rightarrow> (byte list \<Rightarrow> hash32) \<Rightarrow> nat \<Rightarrow> 'c hash_cache option \<Rightarrow> byte list
    \<Rightarrow> 'c hash_cache option \<times> hash32" where
  "hash_bytes L sip H now global bs =
     (case global of
        Some c \<Rightarrow>
          (if hc_enabled c then let (c', h) = get_or_compute L sip now c bs (H bs) in (Some c', h)
           else (global, H bs))
      | None \<Rightarrow> (global, H bs))"

subsection \<open>What the hashed bytes determine\<close>

definition header_in_range :: "block_header \<Rightarrow> bool" where
  \<comment> \<open>the ranges of the field types, and a proposer key whose length fits \<open>u16\<close>\<close>
  "header_in_range h \<longleftrightarrow>
     hd_height h < 2 ^ 64 \<and> hd_round h < 2 ^ 32 \<and> length (hd_prev h) = 32 \<and> length (hd_proposer_pk h) < 2 ^ 16 \<and>
     length (hd_tx_root h) = 32 \<and> length (hd_receipts_root h) = 32 \<and> length (hd_state_root h) = 32 \<and>
     hd_base_fee h < 2 ^ 64 \<and> hd_gas_used h < 2 ^ 64 \<and> hd_intrinsic_gas h < 2 ^ 64 \<and> hd_exec_gas h < 2 ^ 64 \<and>
     hd_vm_gas h < 2 ^ 64 \<and> hd_evm_gas h < 2 ^ 64 \<and> hd_chain_id h < 2 ^ 64 \<and> hd_timestamp h < 2 ^ 64 \<and>
     hd_protocol_version h < 2 ^ 32"

definition tx_in_range :: "tx \<Rightarrow> bool" where
  "tx_in_range t \<longleftrightarrow>
     length (tx_pubkey t) < 2 ^ 16 \<and> length (tx_from t) < 2 ^ 16 \<and> length (payload t) < 2 ^ 32 \<and>
     tx_nonce t < 2 ^ 64 \<and> max_fee_per_gas t < 2 ^ 64 \<and> max_priority_fee_per_gas t < 2 ^ 64 \<and>
     tx_gas_limit t < 2 ^ 64 \<and> tx_chain_id t < 2 ^ 64"

lemma header_bytes_inj:
  assumes "header_in_range h" "header_in_range h'" "header_bytes h = header_bytes h'"
  shows "h = h'"
proof -
  note R = assms(1,2) [unfolded header_in_range_def]
  note eq = assms(3) [unfolded header_bytes_def]
  have "hd_height h = hd_height h' \<and> hd_round h = hd_round h' \<and> hd_prev h = hd_prev h' \<and>
      hd_proposer_pk h = hd_proposer_pk h' \<and> hd_tx_root h = hd_tx_root h' \<and> hd_receipts_root h = hd_receipts_root h' \<and>
      hd_state_root h = hd_state_root h' \<and> hd_base_fee h = hd_base_fee h' \<and> hd_gas_used h = hd_gas_used h' \<and>
      hd_intrinsic_gas h = hd_intrinsic_gas h' \<and> hd_exec_gas h = hd_exec_gas h' \<and> hd_vm_gas h = hd_vm_gas h' \<and>
      hd_evm_gas h = hd_evm_gas h' \<and> hd_chain_id h = hd_chain_id h' \<and> hd_timestamp h = hd_timestamp h' \<and>
      hd_protocol_version h = hd_protocol_version h'"
    using eq by (simp only: take_off_u64 take_off_u32 take_off_u16_prefixed u32_bytes_eq_iff take_off_field R simp_thms)
  then show ?thesis by simp
qed

lemma tx_bytes_inj:
  assumes "tx_in_range t" "tx_in_range t'" "tx_bytes t = tx_bytes t'"
  shows "t\<lparr>tx_signature := []\<rparr> = t'\<lparr>tx_signature := []\<rparr>"
proof -
  note R = assms(1,2) [unfolded tx_in_range_def]
  note eq = assms(3) [unfolded tx_bytes_def]
  have "tx_pubkey t = tx_pubkey t' \<and> tx_from t = tx_from t' \<and> tx_nonce t = tx_nonce t' \<and>
      max_fee_per_gas t = max_fee_per_gas t' \<and> max_priority_fee_per_gas t = max_priority_fee_per_gas t' \<and>
      tx_gas_limit t = tx_gas_limit t' \<and> tx_chain_id t = tx_chain_id t' \<and> payload t = payload t'"
    using eq by (simp only: take_off_u64 take_off_u16_prefixed take_off_u16_string u32_string_eq_iff take_off_field R simp_thms)
  then show ?thesis by simp
qed

definition strip_signature :: "tx \<Rightarrow> tx" where
  "strip_signature t = t\<lparr>tx_signature := []\<rparr>"

lemma tx_bytes_strip [simp]: "tx_bytes (strip_signature t) = tx_bytes t"
  by (simp add: tx_bytes_def strip_signature_def)

lemma concat_blocks_eq:
  assumes "length xs = length ys" "\<And>x. x \<in> set xs \<union> set ys \<Longrightarrow> length (f x) = n" "concat (map f xs) = concat (map f ys)"
  shows "map f xs = map f ys"
  using assms by (induction xs ys rule: list_induct2) auto

definition id_preimages :: "(byte list \<Rightarrow> hash32) \<Rightarrow> block \<Rightarrow> byte list set" where
  \<comment> \<open>everything that is hashed on the way to the id of a block\<close>
  "id_preimages H b =
     {header_bytes (blk_header b), tx_root_bytes H (blk_txs b)} \<union> tx_bytes ` set (blk_txs b)"

definition block_in_range :: "(byte list \<Rightarrow> hash32) \<Rightarrow> block \<Rightarrow> bool" where
  "block_in_range H b \<longleftrightarrow> header_in_range (blk_header b) \<and> (\<forall>t \<in> set (blk_txs b). tx_in_range t) \<and>
     length (blk_txs b) < 2 ^ 32 \<and> hd_tx_root (blk_header b) = tx_root H (blk_txs b)"

lemma tx_root_binding:
  assumes inj: "inj_on H ({tx_root_bytes H xs, tx_root_bytes H ys} \<union> tx_bytes ` (set xs \<union> set ys))"
    and r: "\<forall>t \<in> set xs \<union> set ys. tx_in_range t" "length xs < 2 ^ 32" "length ys < 2 ^ 32"
    and H: "\<And>x. length (H x) = 32" and eq: "tx_root H xs = tx_root H ys"
  shows "map strip_signature xs = map strip_signature ys"
proof -
  have "tx_root_bytes H xs = tx_root_bytes H ys" using inj_onD [OF inj eq [unfolded tx_root_def]] by blast
  then have "as_bytes 4 (length xs) @ concat (map (tx_hash H) xs) = as_bytes 4 (length ys) @ concat (map (tx_hash H) ys)"
    by (simp add: tx_root_bytes_def)
  then have c: "as_bytes 4 (length xs) = as_bytes 4 (length ys)" "concat (map (tx_hash H) xs) = concat (map (tx_hash H) ys)"
    by (auto dest: append_eq_append_conv [THEN iffD1, rotated])
  then have l: "length xs = length ys" using as_bytes_eq_iff [of "length xs" 4 "length ys"] r(2,3) by simp
  have "map (tx_hash H) xs = map (tx_hash H) ys"
    by (rule concat_blocks_eq [OF l _ c(2), of 32]) (simp add: tx_hash_def H)
  then have "tx_hash H (xs ! i) = tx_hash H (ys ! i)" if "i < length xs" for i
    using that l by (metis nth_map)
  then have "tx_bytes (xs ! i) = tx_bytes (ys ! i)" if "i < length xs" for i
    using that l inj_onD [OF inj, of "tx_bytes (xs ! i)" "tx_bytes (ys ! i)"] by (simp add: tx_hash_def)
  then have "strip_signature (xs ! i) = strip_signature (ys ! i)" if "i < length xs" for i
    using that l r(1) tx_bytes_inj [of "xs ! i" "ys ! i"] by (simp add: strip_signature_def)
  then show ?thesis using l by (simp add: list_eq_iff_nth_eq)
qed

subsection \<open>The hash cache\<close>

text \<open>\<open>hashes_ok\<close>: every cached entry is the hash of the inputs that have its key.\<close>

definition hashes_ok :: "('c \<Rightarrow> u64 \<Rightarrow> hash_entry option) \<Rightarrow> (byte list \<Rightarrow> u64) \<Rightarrow> (byte list \<Rightarrow> hash32) \<Rightarrow> byte list set \<Rightarrow> 'c hash_cache option \<Rightarrow> bool" where
  "hashes_ok view sip H B g \<longleftrightarrow>
     (\<forall>c m h x. g = Some c \<and> hc_inner c = Some m \<longrightarrow> (\<forall>b \<in> B. view m (sip b) = Some (h, x) \<longrightarrow> h = H b))"

datatype hash_call = Hash_Call nat "byte list" | Clear_Call

fun run_hashes ::
  "'c hash_lru \<Rightarrow> (byte list \<Rightarrow> u64) \<Rightarrow> (byte list \<Rightarrow> hash32) \<Rightarrow> 'c hash_cache option \<Rightarrow> hash_call list \<Rightarrow> hash32 list" where
  "run_hashes L sip H g [] = []"
| "run_hashes L sip H g (Hash_Call now b # cs) =
     (let (g', h) = hash_bytes L sip H now g b in h # run_hashes L sip H g' cs)"
| "run_hashes L sip H g (Clear_Call # cs) = run_hashes L sip H (map_option (hash_cache_clear L) g) cs"

fun hashed :: "hash_call list \<Rightarrow> byte list list" where
  "hashed [] = []"
| "hashed (Hash_Call now b # cs) = b # hashed cs"
| "hashed (Clear_Call # cs) = hashed cs"

context lru_cache
begin

lemma view_get_pair: "lru_get L c k = (c', e) \<Longrightarrow> e = view c k \<and> view c' = view c"
  using get_view [of c k] view_get [of c k] by (auto simp: fun_eq_iff)

end

lemma hash_bytes_ok:
  assumes lru: "lru_cache L view" and inj: "inj_on sip B" and b: "b \<in> B" and ok: "hashes_ok view sip H B g"
    and r: "hash_bytes L sip H now g b = (g', h)"
  shows "h = H b \<and> hashes_ok view sip H B g'"
proof (cases "\<exists>c m. g = Some c \<and> hc_enabled c \<and> hc_inner c = Some m")
  case False
  then show ?thesis using r ok by (auto simp: hash_bytes_def get_or_compute_def split: option.splits if_splits)
next
  case True
  then obtain c m where g: "g = Some c" "hc_enabled c" "hc_inner c = Some m" by blast
  obtain m1 e where get: "lru_get L m (sip b) = (m1, e)" by fastforce
  have e: "e = view m (sip b)" "view m1 = view m" using lru_cache.view_get_pair [OF lru get] by auto
  have key: "sip b' = sip b \<longleftrightarrow> b' = b" if "b' \<in> B" for b' using that b inj by (auto simp: inj_on_def)
  have put: "hashes_ok view sip H B (Some (c\<lparr>hc_inner := Some (lru_put L m2 (sip b) (H b, x))\<rparr>))"
    if "\<And>k. view m2 k = view m k \<or> view m2 k = None" for m2 x
    unfolding hashes_ok_def
  proof (intro allI impI ballI)
    fix c' m' h' x' b'
    assume *: "Some (c\<lparr>hc_inner := Some (lru_put L m2 (sip b) (H b, x))\<rparr>) = Some c' \<and> hc_inner c' = Some m'"
      and b': "b' \<in> B" and v: "view m' (sip b') = Some (h', x')"
    then have m': "m' = lru_put L m2 (sip b) (H b, x)" by auto
    show "h' = H b'"
    proof (cases "b' = b")
      case True
      then show ?thesis using v m' lru_cache.view_put [OF lru] by simp
    next
      case False
      then have "view m (sip b') = Some (h', x')"
        using v m' key [OF b'] lru_cache.view_put_other [OF lru, of "sip b'" "sip b" m2 "(H b, x)"] that [of "sip b'"] by auto
      then show ?thesis using ok g b' unfolding hashes_ok_def by blast
    qed
  qed
  have keep: "hashes_ok view sip H B (Some (c\<lparr>hc_inner := Some m1\<rparr>))"
    using ok g e(2) by (simp add: hashes_ok_def)
  show ?thesis
  proof (cases e)
    case None
    then show ?thesis using r g get e(2) put [of m1] by (auto simp: hash_bytes_def get_or_compute_def Let_def)
  next
    case (Some hx)
    obtain h0 x where hx: "hx = (h0, x)" by fastforce
    have "h0 = H b" using ok g b e Some hx unfolding hashes_ok_def by blast
    moreover have "view (lru_pop L m1 (sip b)) k = view m k \<or> view (lru_pop L m1 (sip b)) k = None" for k
      using lru_cache.view_pop [OF lru] e(2) by simp
    ultimately show ?thesis
      using r g get Some hx keep put [of "lru_pop L m1 (sip b)"]
      by (auto simp: hash_bytes_def get_or_compute_def Let_def split: if_splits)
  qed
qed

lemma hash_clear_ok: "lru_cache L view \<Longrightarrow> hashes_ok view sip H B (map_option (hash_cache_clear L) g)"
  by (auto simp: hashes_ok_def hash_cache_clear_def lru_cache.view_clear)

lemma run_hashes_eq:
  assumes "lru_cache L view" "inj_on sip B" "set (hashed cs) \<subseteq> B" "hashes_ok view sip H B g"
  shows "run_hashes L sip H g cs = map H (hashed cs)"
  using assms(3,4)
proof (induction cs arbitrary: g rule: hashed.induct)
  case (2 now b cs)
  obtain g' h where r: "hash_bytes L sip H now g b = (g', h)" by fastforce
  have "h = H b \<and> hashes_ok view sip H B g'" using hash_bytes_ok [OF assms(1,2) _ "2.prems"(2) r] "2.prems"(1) by simp
  then show ?case using "2.IH" [of g'] "2.prems"(1) r by simp
next
  case (3 cs)
  then show ?case using hash_clear_ok [OF assms(1)] by simp
qed simp

lemma hash_cache_new_ok:
  assumes "lru_cache L view" "hash_cache_new L cfg = Ok c"
  shows "hashes_ok view sip H B (Some c)"
  using assms lru_cache.view_new [OF assms(1)]
  by (auto simp: hash_cache_new_def hashes_ok_def split: result.splits if_splits)

text \<open>C13: The id of a block determines the block up to the signatures of its transactions, as far as the hash
  does not collide on what is hashed: two well-formed blocks with the same id have the same header
  field by field (chain id, timestamp, protocol version and gas figures included) and the same
  transactions in the same order.\<close>

theorem block_id_binding:
  assumes "block_in_range H b" "block_in_range H b'" "\<And>x. length (H x) = 32"
    and "inj_on H (id_preimages H b \<union> id_preimages H b')" and "block_id H b = block_id H b'"
  shows "blk_header b = blk_header b' \<and> map strip_signature (blk_txs b) = map strip_signature (blk_txs b')"
proof -
  have "header_bytes (blk_header b) = header_bytes (blk_header b')"
    using inj_onD [OF assms(4) assms(5) [unfolded block_id_def]] by (simp add: id_preimages_def)
  then have h: "blk_header b = blk_header b'" using header_bytes_inj assms(1,2) by (auto simp: block_in_range_def)
  moreover have "inj_on H ({tx_root_bytes H (blk_txs b), tx_root_bytes H (blk_txs b')} \<union> tx_bytes ` (set (blk_txs b) \<union> set (blk_txs b')))"
    using assms(4) by (rule inj_on_subset) (auto simp: id_preimages_def)
  then have "map strip_signature (blk_txs b) = map strip_signature (blk_txs b')"
    by (rule tx_root_binding) (use assms(1-3) h in \<open>auto simp: block_in_range_def\<close>)
  ultimately show ?thesis by simp
qed

definition demo_hash :: "byte list \<Rightarrow> hash32" where
  "demo_hash x = replicate 32 (of_nat (length x))"

definition demo_tx :: tx where
  "demo_tx = \<lparr>tx_pubkey = replicate 32 1, tx_from = ''abc'', tx_nonce = 0, max_fee_per_gas = 2, max_priority_fee_per_gas = 1,
     tx_gas_limit = 30000, payload = ''set a b'', tx_signature = replicate 64 2, tx_chain_id = 7\<rparr>"

definition demo_block :: "tx \<Rightarrow> block" where
  "demo_block t =
     \<lparr>blk_header = \<lparr>hd_height = 5, hd_round = 1, hd_prev = replicate 32 0, hd_proposer_pk = replicate 32 3,
        hd_tx_root = tx_root demo_hash [t], hd_receipts_root = replicate 32 0, hd_state_root = replicate 32 0,
        hd_base_fee = 1, hd_gas_used = 0, hd_intrinsic_gas = 0, hd_exec_gas = 0, hd_vm_gas = 0, hd_evm_gas = 0,
        hd_chain_id = 7, hd_timestamp = 9, hd_protocol_version = 1\<rparr>, blk_txs = [t]\<rparr>"

theorem block_id_binding_witness:
  "map strip_signature (blk_txs (demo_block demo_tx)) =
     map strip_signature (blk_txs (demo_block (demo_tx\<lparr>tx_signature := []\<rparr>)))"
proof -
  let ?t = "demo_tx\<lparr>tx_signature := []\<rparr>"
  have tb: "tx_bytes ?t = tx_bytes demo_tx" by (simp add: tx_bytes_def)
  then have rb: "tx_root_bytes demo_hash [?t] = tx_root_bytes demo_hash [demo_tx]" by (simp add: tx_root_bytes_def tx_hash_def)
  then have h: "blk_header (demo_block ?t) = blk_header (demo_block demo_tx)" by (simp add: demo_block_def tx_root_def)
  have l: "length (tx_bytes demo_tx) = 97" "length (tx_root_bytes demo_hash [demo_tx]) = 47"
    "length (header_bytes (blk_header (demo_block demo_tx))) = 250"
    by (simp_all add: tx_bytes_def demo_tx_def tx_root_bytes_def tx_hash_def header_bytes_def demo_block_def demo_hash_def tx_root_def)
  have "inj_on demo_hash {header_bytes (blk_header (demo_block demo_tx)), tx_root_bytes demo_hash [demo_tx], tx_bytes demo_tx}"
    using l by (auto simp: inj_on_def demo_hash_def replicate_eq_iff)
  moreover have "id_preimages demo_hash (demo_block demo_tx) \<union> id_preimages demo_hash (demo_block ?t)
      = {header_bytes (blk_header (demo_block demo_tx)), tx_root_bytes demo_hash [demo_tx], tx_bytes demo_tx}"
    using tb rb h by (auto simp: id_preimages_def demo_block_def)
  ultimately show ?thesis
    using block_id_binding [of demo_hash "demo_block demo_tx" "demo_block ?t"] h
    by (simp add: block_id_def block_in_range_def header_in_range_def tx_in_range_def demo_block_def demo_tx_def demo_hash_def tx_root_def)
qed

text \<open>C27: The hash cache is transparent as long as no two of the hashed inputs share a 64-bit key: from a new
  cache, whatever the capacity, the evictions, the expiry times and the clock readings, every call of
  \<open>hash_bytes\<close> returns the hash of its input.\<close>

theorem hash_cache_transparent:
  assumes "lru_cache L view" "hash_cache_new L cfg = Ok c" "inj_on sip (set (hashed cs))"
  shows "run_hashes L sip H (Some c) cs = map H (hashed cs)"
  using run_hashes_eq [OF assms(1,3) order_refl] hash_cache_new_ok [OF assms(1,2)] by blast

theorem hash_cache_transparent_witness:
  "\<exists>c. hash_cache_new (lru_list_ops :: (u64, hash_entry) lru_list hash_lru) types_config_default = Ok c \<and>
     run_hashes lru_list_ops length demo_hash (Some c)
       [Hash_Call 0 [1], Hash_Call 1 [1, 2], Clear_Call, Hash_Call 500 [1]] = [replicate 32 1, replicate 32 2, replicate 32 1]"
proof -
  obtain c where c: "hash_cache_new (lru_list_ops :: (u64, hash_entry) lru_list hash_lru) types_config_default = Ok c"
    by (simp add: hash_cache_new_def types_config_default_def types_config_validate_def)
  have "inj_on length (set (hashed [Hash_Call 0 [1], Hash_Call 1 [1, 2], Clear_Call, Hash_Call 500 [1]]))"
    by (auto simp: inj_on_def)
  from hash_cache_transparent [OF lc.lru_cache_axioms c this, of demo_hash] c show ?thesis
    by (auto simp: demo_hash_def)
qed

text \<open>C37: Nothing is compared on a cache hit: when two different inputs share a 64-bit key, hashing the second within
  the time to live of the first returns the hash of the first.\<close>

theorem hash_cache_confuses:
  assumes "lru_cache L view" "hash_cache_new L cfg = Ok c" "enable_hash_cache cfg"
    and "sip b = sip a" "now' < now + cache_ttl_secs cfg"
  shows "run_hashes L sip H (Some c) [Hash_Call now a, Hash_Call now' b] = [H a, H a]"
proof -
  let ?m = "lru_new L (tc_cache_size cfg)"
  have c: "c = \<lparr>hc_inner = Some ?m, hc_enabled = True, hc_ttl = cache_ttl_secs cfg\<rparr>"
    using assms(2,3) by (auto simp: hash_cache_new_def split: result.splits)
  obtain m1 e where get: "lru_get L ?m (sip a) = (m1, e)" by fastforce
  have e: "e = None" using lru_cache.view_get_pair [OF assms(1) get] lru_cache.view_new [OF assms(1)] by simp
  let ?m2 = "lru_put L m1 (sip a) (H a, now + cache_ttl_secs cfg)"
  obtain m3 e' where get': "lru_get L ?m2 (sip a) = (m3, e')" by fastforce
  have "e' = Some (H a, now + cache_ttl_secs cfg)"
    using lru_cache.view_get_pair [OF assms(1) get'] lru_cache.view_put [OF assms(1)] by simp
  then show ?thesis using c get e get' assms(4,5) by (simp add: hash_bytes_def get_or_compute_def Let_def)
qed

theorem hash_cache_confuses_witness:
  "\<exists>c. hash_cache_new (lru_list_ops :: (u64, hash_entry) lru_list hash_lru) types_config_default = Ok c \<and>
     run_hashes lru_list_ops length (\<lambda>x. replicate 32 (hd x)) (Some c) [Hash_Call 0 [1], Hash_Call 299 [2]]
       = [replicate 32 1, replicate 32 1]"
proof -
  obtain c where c: "hash_cache_new (lru_list_ops :: (u64, hash_entry) lru_list hash_lru) types_config_default = Ok c"
    by (simp add: hash_cache_new_def types_config_default_def types_config_validate_def)
  from hash_cache_confuses [OF lc.lru_cache_axioms c, of length "[2]" "[1]" 299 0 "\<lambda>x. replicate 32 (hd x)"] c show ?thesis
    by (simp add: types_config_default_def)
qed

end
