(* ===== verification/Merkle.thy ===== *)
theory Merkle
  imports Bytes Btree_Map Lru_Cache F64
begin

text \<open>
  The Merkle root of the key-value state, \<open>src/merkle.rs\<close>: hashing of leaves and nodes, the recursion over
  the leaves, the process-wide cache of roots and batches of updates. SHA-256 is third-party code and
  the argument \<open>S\<close>; the algorithm of \<open>DefaultHasher\<close>, which the standard library leaves unspecified, is
  the argument \<open>sip\<close>, a function of the values written to it. Collecting a parallel iterator keeps the
  order, so the parallel and the sequential computation of the leaves are one \<open>map\<close>. The code is
  read as the release profile compiles it, without \<open>debug_assert\<close>. The computation of the floating-point
  coherence and the metrics are left out.
\<close>

type_synonym digest = "byte list"

subsection \<open>Nodes\<close>

definition LEAF_DOMAIN :: "byte list" where "LEAF_DOMAIN = [0]"

definition INTERNAL_DOMAIN :: "byte list" where "INTERNAL_DOMAIN = [1]"

definition HASH_LEN :: usize where "HASH_LEN = 32"

definition EMPTY_TREE_ROOT :: digest where
  "EMPTY_TREE_ROOT =
     [0x88, 0xbd, 0x0e, 0x82, 0x6b, 0xc2, 0xac, 0x62, 0xd8, 0xe5, 0xcc, 0xc2, 0x5c, 0x09, 0x50, 0x68,
      0xbe, 0x83, 0x35, 0x16, 0xe9, 0x78, 0x54, 0x9c, 0xd1, 0xfa, 0xed, 0xdd, 0xf4, 0x1c, 0x11, 0x47]"

definition leaf_bytes :: "string \<times> string \<Rightarrow> byte list" where
  "leaf_bytes = (\<lambda>(k, v).
     LEAF_DOMAIN @ as_bytes 4 (length k) @ str_bytes k @ as_bytes 4 (length v) @ str_bytes v)"

definition leaf_hash :: "(byte list \<Rightarrow> digest) \<Rightarrow> string \<times> string \<Rightarrow> digest" where
  "leaf_hash S e = S (leaf_bytes e)"

definition node_bytes :: "digest \<Rightarrow> digest \<Rightarrow> byte list" where
  "node_bytes l r = INTERNAL_DOMAIN @ l @ r"

definition node_hash :: "(byte list \<Rightarrow> digest) \<Rightarrow> digest \<Rightarrow> digest \<Rightarrow> digest" where
  "node_hash S l r = S (node_bytes l r)"

subsection \<open>The root of a list of leaves\<close>

function double_until :: "nat \<Rightarrow> nat \<Rightarrow> nat" where
  "double_until p n = (if n \<le> p \<or> p = 0 then p else double_until (2 * p) n)"
  by pat_completeness auto
termination by (relation "measure (\<lambda>(p, n). n - p)") auto

declare double_until.simps [simp del]

definition next_power_of_two :: "usize \<Rightarrow> usize" where
  "next_power_of_two n = double_until 1 n"

text \<open>
  The recursion is written as the code has it, with no case for the empty list; \<open>None\<close> is a
  recursion that does not end.
\<close>

partial_function (option) merkle_root_of :: "(byte list \<Rightarrow> digest) \<Rightarrow> digest list \<Rightarrow> digest option" where
  "merkle_root_of S leaves =
     (if length leaves = 1 then Some (leaves ! 0)
      else let mid = next_power_of_two (length leaves) div 2;
               left_leaves = (if mid < length leaves then take mid leaves else leaves);
               right_leaves = (if mid < length leaves then drop mid leaves else [])
           in Option.bind (merkle_root_of S left_leaves) (\<lambda>left.
              Option.bind (if right_leaves = [] then Some left else merkle_root_of S right_leaves) (\<lambda>right.
              Some (node_hash S left right))))"

declare merkle_root_of.simps [code]

definition compute_tree_depth :: "usize \<Rightarrow> usize" where
  \<comment> \<open>\<open>trailing_zeros\<close> of the power of two\<close>
  "compute_tree_depth n = (if n = 0 then 0 else length (takeWhile (\<lambda>i. 2 ^ i < next_power_of_two n) [0..<64]))"

subsection \<open>Roots of a state, through the cache\<close>

record merkle_config =
  mk_cache_size :: usize
  batch_size :: usize
  parallel_enabled :: bool
  min_coherence :: f64
  mk_enable_metrics :: bool

definition merkle_config_default :: merkle_config where
  "merkle_config_default = \<lparr>mk_cache_size = 1024, batch_size = 4096, parallel_enabled = True, min_coherence = F64_HALF, mk_enable_metrics = True\<rparr>"

definition merkle_config_validate :: "merkle_config \<Rightarrow> (string, unit) result" where
  "merkle_config_validate c =
     (if mk_cache_size c = 0 then Err ''cache_size must be > 0''
      else if batch_size c = 0 then Err ''batch_size must be > 0''
      else if \<not> f64_in_unit (min_coherence c) then Err ''min_coherence must be between 0.0 and 1.0''
      else Ok ())"

type_synonym 'c root_lru = "('c, u64, digest) lru_ops"

type_synonym state_hasher = "usize \<times> (string \<times> string) option \<times> (string \<times> string) option \<Rightarrow> u64"

record 'c merkle_cache =
  mc_inner :: 'c
  mc_enabled :: bool

definition merkle_cache_new :: "'c root_lru \<Rightarrow> usize \<Rightarrow> bool \<Rightarrow> 'c merkle_cache" where
  "merkle_cache_new L capacity on = \<lparr>mc_inner = lru_new L (if capacity = 0 then 1024 else capacity), mc_enabled = on\<rparr>"

definition mc_get :: "'c root_lru \<Rightarrow> 'c merkle_cache \<Rightarrow> u64 \<Rightarrow> 'c merkle_cache \<times> digest option" where
  "mc_get L c key =
     (if \<not> mc_enabled c then (c, None)
      else let (m, r) = lru_get L (mc_inner c) key in (c\<lparr>mc_inner := m\<rparr>, r))"

definition mc_put :: "'c root_lru \<Rightarrow> 'c merkle_cache \<Rightarrow> u64 \<Rightarrow> digest \<Rightarrow> 'c merkle_cache" where
  "mc_put L c key root = (if \<not> mc_enabled c then c else c\<lparr>mc_inner := lru_put L (mc_inner c) key root\<rparr>)"

definition clear_merkle_cache :: "'c root_lru \<Rightarrow> 'c merkle_cache \<Rightarrow> 'c merkle_cache" where
  "clear_merkle_cache L c = (if \<not> mc_enabled c then c else c\<lparr>mc_inner := lru_clear L (mc_inner c)\<rparr>)"

definition compute_cache_key :: "state_hasher \<Rightarrow> (string, string) btree \<Rightarrow> u64" where
  "compute_cache_key sip m =
     sip (length m, if m = [] then None else Some (hd m), if m = [] then None else Some (last m))"

definition state_merkle_root_with_config ::
  "'c root_lru \<Rightarrow> state_hasher \<Rightarrow> (byte list \<Rightarrow> digest) \<Rightarrow> merkle_config \<Rightarrow> 'c merkle_cache \<Rightarrow> (string, string) btree
    \<Rightarrow> 'c merkle_cache \<times> digest option" where
  "state_merkle_root_with_config L sip S config c m =
     (if m = [] then (c, Some EMPTY_TREE_ROOT)
      else let cache_key = compute_cache_key sip m; (c1, hit) = mc_get L c cache_key in
        case hit of
          Some root \<Rightarrow> (c1, Some root)
        | None \<Rightarrow>
            (case merkle_root_of S (map (leaf_hash S) m) of
               None \<Rightarrow> (c1, None)
             | Some root \<Rightarrow> (mc_put L c1 cache_key root, Some root)))"

definition state_merkle_root ::
  "'c root_lru \<Rightarrow> state_hasher \<Rightarrow> (byte list \<Rightarrow> digest) \<Rightarrow> 'c merkle_cache \<Rightarrow> (string, string) btree
    \<Rightarrow> 'c merkle_cache \<times> digest option" where
  "state_merkle_root L sip S c m = state_merkle_root_with_config L sip S merkle_config_default c m"

definition verify_merkle_root ::
  "'c root_lru \<Rightarrow> state_hasher \<Rightarrow> (byte list \<Rightarrow> digest) \<Rightarrow> 'c merkle_cache \<Rightarrow> (string, string) btree \<Rightarrow> digest
    \<Rightarrow> 'c merkle_cache \<times> bool option" where
  "verify_merkle_root L sip S c m expected =
     (let (c1, r) = state_merkle_root L sip S c m in (c1, map_option (\<lambda>computed. computed = expected) r))"

definition apply_batch :: "(string, string) btree \<Rightarrow> (string, string option) btree \<Rightarrow> (string, string) btree" where
  "apply_batch m updates =
     foldl (\<lambda>m' (k, v). case v of Some val \<Rightarrow> bt_insert k val m' | None \<Rightarrow> bt_remove k m') m updates"

definition compute_root_after_batch ::
  "'c root_lru \<Rightarrow> state_hasher \<Rightarrow> (byte list \<Rightarrow> digest) \<Rightarrow> merkle_config \<Rightarrow> 'c merkle_cache \<Rightarrow> (string, string) btree
    \<Rightarrow> (string, string option) btree \<Rightarrow> 'c merkle_cache \<times> digest option" where
  "compute_root_after_batch L sip S config c m updates =
     state_merkle_root_with_config L sip S config c (apply_batch m updates)"

subsection \<open>Powers of two\<close>

lemma double_until_bounds: "0 < p \<Longrightarrow> n \<le> double_until p n \<and> p \<le> double_until p n \<and> (p < n \<longrightarrow> double_until p n < 2 * n)"
proof (induction p n rule: double_until.induct)
  case (1 p n)
  show ?case
  proof (cases "n \<le> p")
    case False
    then have "double_until p n = double_until (2 * p) n" using "1.prems" double_until.simps [of p n] by simp
    moreover have "n \<le> double_until (2 * p) n \<and> 2 * p \<le> double_until (2 * p) n \<and> (2 * p < n \<longrightarrow> double_until (2 * p) n < 2 * n)"
      using "1.IH" "1.prems" False by simp
    moreover have "double_until (2 * p) n = 2 * p" if "n \<le> 2 * p" using that double_until.simps [of "2 * p" n] by simp
    ultimately show ?thesis using False by (cases "2 * p < n") auto
  qed (use double_until.simps [of p n] in simp)
qed

lemma next_power_of_two_bounds: "2 \<le> n \<Longrightarrow> n \<le> next_power_of_two n \<and> next_power_of_two n < 2 * n"
  using double_until_bounds [of 1 n] by (simp add: next_power_of_two_def)

lemma mid_bounds:
  assumes "2 \<le> n"
  shows "0 < next_power_of_two n div 2" "next_power_of_two n div 2 < n"
  using next_power_of_two_bounds [OF assms] assms by auto

subsection \<open>The recursion ends\<close>

text \<open>
  The reference: the root as a total function on a non-empty list of entries, the left subtree the
  largest power of two below the number of entries.
\<close>

function kv_root :: "(byte list \<Rightarrow> digest) \<Rightarrow> (string \<times> string) list \<Rightarrow> digest" where
  "kv_root S m =
     (if length m \<le> 1 then S (leaf_bytes (hd m))
      else let mid = next_power_of_two (length m) div 2 in S (node_bytes (kv_root S (take mid m)) (kv_root S (drop mid m))))"
  by pat_completeness auto
termination
proof (relation "measure (\<lambda>(S, m). length m)")
  fix S :: "byte list \<Rightarrow> digest" and m :: "(string \<times> string) list" and mid
  assume "\<not> length m \<le> 1" and mid: "mid = next_power_of_two (length m) div 2"
  then have "2 \<le> length m" by simp
  note B = mid_bounds [OF this, folded mid]
  show "((S, take mid m), S, m) \<in> measure (\<lambda>(S, m). length m)" "((S, drop mid m), S, m) \<in> measure (\<lambda>(S, m). length m)"
    using B by auto
qed simp

declare kv_root.simps [simp del]

lemma merkle_root_of_entries: "m \<noteq> [] \<Longrightarrow> merkle_root_of S (map (leaf_hash S) m) = Some (kv_root S m)"
proof (induction S m rule: kv_root.induct)
  case (1 S m)
  show ?case
  proof (cases "length m \<le> 1")
    case True
    then obtain e where "m = [e]" using "1.prems" by (cases m) auto
    then show ?thesis by (simp add: merkle_root_of.simps kv_root.simps leaf_hash_def)
  next
    case False
    define mid where "mid = next_power_of_two (length m) div 2"
    have "2 \<le> length m" using False by simp
    note B = mid_bounds [OF this, folded mid_def]
    have "merkle_root_of S (map (leaf_hash S) (take mid m)) = Some (kv_root S (take mid m))"
      "merkle_root_of S (map (leaf_hash S) (drop mid m)) = Some (kv_root S (drop mid m))"
      using "1.IH" [OF False mid_def] B "1.prems" by auto
    then show ?thesis
      using False B merkle_root_of.simps [of S "map (leaf_hash S) m"] kv_root.simps [of S m]
      by (simp add: mid_def [symmetric] take_map drop_map node_hash_def Let_def)
  qed
qed

lemma merkle_root_of_empty: "merkle_root_of S [] = None"
proof -
  have "xs \<noteq> []" if "merkle_root_of S xs = Some y" for xs y
  proof (rule merkle_root_of.raw_induct [where P = "\<lambda>S xs y. xs \<noteq> []", OF _ that])
    fix f :: "(byte list \<Rightarrow> digest) \<Rightarrow> digest list \<Rightarrow> digest option" and S xs y
    assume IH: "\<And>S xs y. f S xs = Some y \<Longrightarrow> xs \<noteq> []"
      and y: "(if length xs = 1 then Some (xs ! 0)
        else let mid = next_power_of_two (length xs) div 2;
                 left_leaves = (if mid < length xs then take mid xs else xs);
                 right_leaves = (if mid < length xs then drop mid xs else [])
             in Option.bind (f S left_leaves) (\<lambda>left.
                Option.bind (if right_leaves = [] then Some left else f S right_leaves) (\<lambda>right.
                Some (node_hash S left right)))) = Some y"
    show "xs \<noteq> []"
    proof
      assume "xs = []"
      then have "\<exists>l. f S [] = Some l" using y by (cases "f S []") (simp_all add: Let_def)
      then show False using IH by blast
    qed
  qed
  then show ?thesis by (metis option.exhaust)
qed

subsection \<open>What a root determines\<close>

function kv_preimages :: "(byte list \<Rightarrow> digest) \<Rightarrow> (string \<times> string) list \<Rightarrow> byte list set" where
  \<comment> \<open>everything that is hashed on the way to the root\<close>
  "kv_preimages S m =
     (if length m \<le> 1 then {leaf_bytes (hd m)}
      else let mid = next_power_of_two (length m) div 2
           in {node_bytes (kv_root S (take mid m)) (kv_root S (drop mid m))} \<union> kv_preimages S (take mid m) \<union> kv_preimages S (drop mid m))"
  by pat_completeness auto
termination
proof (relation "measure (\<lambda>(S, m). length m)")
  fix S :: "byte list \<Rightarrow> digest" and m :: "(string \<times> string) list" and mid
  assume "\<not> length m \<le> 1" and mid: "mid = next_power_of_two (length m) div 2"
  then have "2 \<le> length m" by simp
  note B = mid_bounds [OF this, folded mid]
  show "((S, take mid m), S, m) \<in> measure (\<lambda>(S, m). length m)" "((S, drop mid m), S, m) \<in> measure (\<lambda>(S, m). length m)"
    using B by auto
qed simp

declare kv_preimages.simps [simp del]

definition entries_in_range :: "(string \<times> string) list \<Rightarrow> bool" where
  "entries_in_range m \<longleftrightarrow> (\<forall>(k, v) \<in> set m. length k < 2 ^ 32 \<and> length v < 2 ^ 32)"

lemma leaf_bytes_inj:
  assumes "length (fst e) < 2 ^ 32" "length (snd e) < 2 ^ 32" "length (fst e') < 2 ^ 32" "length (snd e') < 2 ^ 32"
    and "leaf_bytes e = leaf_bytes e'"
  shows "e = e'"
  using assms take_off_prefixed [of "str_bytes (fst e)" 4 "str_bytes (fst e')"] u32_string_eq_iff [of "snd e" "snd e'"]
  by (auto simp: leaf_bytes_def split: prod.splits)

lemma domains_differ: "leaf_bytes e \<noteq> node_bytes l r"
  by (simp add: leaf_bytes_def node_bytes_def LEAF_DOMAIN_def INTERNAL_DOMAIN_def split: prod.split)

lemma node_bytes_inj: "length l = length l' \<Longrightarrow> node_bytes l r = node_bytes l' r' \<longleftrightarrow> l = l' \<and> r = r'"
  by (simp add: node_bytes_def)

lemma kv_root_length: "(\<And>x. length (S x) = 32) \<Longrightarrow> length (kv_root S m) = 32"
  by (simp add: kv_root.simps Let_def)

lemma kv_root_binding:
  assumes "m \<noteq> []" "m' \<noteq> []" "entries_in_range m" "entries_in_range m'" "\<And>x. length (S x) = 32"
    "inj_on S (kv_preimages S m \<union> kv_preimages S m')" "kv_root S m = kv_root S m'"
  shows "m = m'"
  using assms
proof (induction S m arbitrary: m' rule: kv_root.induct)
  case (1 S m)
  note inj = inj_onD [OF "1.prems"(6)]
  let ?mid = "\<lambda>m. next_power_of_two (length m) div 2"
  let ?node = "\<lambda>m. node_bytes (kv_root S (take (?mid m) m)) (kv_root S (drop (?mid m) m))"
  have small: "\<exists>e. x = [e]" if "length x \<le> 1" "x \<noteq> []" for x :: "(string \<times> string) list" using that by (cases x) auto
  have root1: "kv_root S x = S (leaf_bytes (hd x))" "leaf_bytes (hd x) \<in> kv_preimages S x" if "length x \<le> 1" for x
    using that kv_root.simps [of S x] kv_preimages.simps [of S x] by simp_all
  have root2: "kv_root S x = S (?node x)" "?node x \<in> kv_preimages S x"
    "kv_preimages S (take (?mid x) x) \<subseteq> kv_preimages S x" "kv_preimages S (drop (?mid x) x) \<subseteq> kv_preimages S x" if "\<not> length x \<le> 1" for x
    using that kv_root.simps [of S x] kv_preimages.simps [of S x] by (auto simp: Let_def)
  consider (leaves) "length m \<le> 1" "length m' \<le> 1" | (mixed) "length m \<le> 1 \<longleftrightarrow> \<not> length m' \<le> 1"
    | (nodes) "\<not> length m \<le> 1" "\<not> length m' \<le> 1" by blast
  then show ?case
  proof cases
    case leaves
    obtain e e' where e: "m = [e]" "m' = [e']" using small leaves "1.prems"(1,2) by blast
    have "leaf_bytes (hd m) = leaf_bytes (hd m')"
      by (rule inj) (use root1 leaves "1.prems"(7) in auto)
    then show ?thesis using e leaf_bytes_inj [of e e'] "1.prems"(3,4) by (auto simp: entries_in_range_def split: prod.splits)
  next
    case mixed
    have "leaf_bytes (hd m) = ?node m'" if "length m \<le> 1" "\<not> length m' \<le> 1"
      by (rule inj) (use root1 [OF that(1)] root2(1,2) [OF that(2)] "1.prems"(7) in auto)
    moreover have "?node m = leaf_bytes (hd m')" if "\<not> length m \<le> 1" "length m' \<le> 1"
      by (rule inj) (use root2(1,2) [OF that(1)] root1 [OF that(2)] "1.prems"(7) in auto)
    ultimately show ?thesis using mixed domains_differ by metis
  next
    case nodes
    have B: "0 < ?mid m" "?mid m < length m" "0 < ?mid m'" "?mid m' < length m'"
      using mid_bounds nodes by auto
    have "?node m = ?node m'" by (rule inj) (use root2(1,2) nodes "1.prems"(7) in auto)
    then have r: "kv_root S (take (?mid m) m) = kv_root S (take (?mid m') m')" "kv_root S (drop (?mid m) m) = kv_root S (drop (?mid m') m')"
      by (simp_all add: node_bytes_inj kv_root_length [OF "1.prems"(5)])
    have range: "entries_in_range (take n x)" "entries_in_range (drop n x)" if "entries_in_range x" for n x
      using that by (auto simp: entries_in_range_def dest!: in_set_takeD in_set_dropD)
    have "inj_on S (kv_preimages S (take (?mid m) m) \<union> kv_preimages S (take (?mid m') m'))"
      "inj_on S (kv_preimages S (drop (?mid m) m) \<union> kv_preimages S (drop (?mid m') m'))"
      using root2(3,4) nodes by (auto intro!: inj_on_subset [OF "1.prems"(6)])
    note IH = "1.IH"(1) [OF nodes(1) refl _ _ _ _ "1.prems"(5) this(1) r(1)] "1.IH"(2) [OF nodes(1) refl _ _ _ _ "1.prems"(5) this(2) r(2)]
    have "take (?mid m) m = take (?mid m') m'"
      by (rule IH(1)) (use B range [OF "1.prems"(3)] range [OF "1.prems"(4)] "1.prems"(1,2) in simp_all)
    moreover have "drop (?mid m) m = drop (?mid m') m'"
      by (rule IH(2)) (use B range [OF "1.prems"(3)] range [OF "1.prems"(4)] "1.prems"(1,2) in simp_all)
    ultimately show ?thesis by (metis append_take_drop_id)
  qed
qed

lemma merkle_root_of_total: "leaves \<noteq> [] \<Longrightarrow> merkle_root_of S leaves \<noteq> None"
proof (induction "length leaves" arbitrary: leaves rule: less_induct)
  case less
  show ?case
  proof (cases "length leaves = 1")
    case False
    define mid where "mid = next_power_of_two (length leaves) div 2"
    have "2 \<le> length leaves" using False less.prems by (cases leaves) (auto simp: Suc_le_eq)
    note B = mid_bounds [OF this, folded mid_def]
    have "merkle_root_of S (take mid leaves) \<noteq> None" "merkle_root_of S (drop mid leaves) \<noteq> None"
      using B less.prems less.hyps [of "take mid leaves"] less.hyps [of "drop mid leaves"] by simp_all
    then show ?thesis using False B merkle_root_of.simps [of S leaves] by (auto simp: mid_def [symmetric])
  qed (simp add: merkle_root_of.simps)
qed

lemma root_lookup:
  assumes "lru_cache L view" "mc_get L c k = (c', r)" "mc_enabled c"
  shows "r = view (mc_inner c) k \<and> mc_enabled c' \<and> view (mc_inner c') = view (mc_inner c)"
proof -
  obtain m e where get: "lru_get L (mc_inner c) k = (m, e)" by fastforce
  have "e = view (mc_inner c) k" using lru_cache.get_view [OF assms(1), of "mc_inner c" k] get by simp
  moreover have "view m = view (mc_inner c)"
    using lru_cache.view_get [OF assms(1), of "mc_inner c" k] get by (auto simp: fun_eq_iff)
  ultimately show ?thesis using assms(2,3) get by (auto simp: mc_get_def)
qed

text \<open>C31: The computation of the root ends exactly on non-empty lists of leaves: splitting at half the next power
  of two always leaves two shorter non-empty parts, and on no leaves at all the recursion calls
  itself with the same list for ever.\<close>

theorem merkle_root_ends_iff: "merkle_root_of S leaves \<noteq> None \<longleftrightarrow> leaves \<noteq> []"
  using merkle_root_of_total merkle_root_of_empty by metis

text \<open>C38: The cache of roots confuses states. Its key looks only at the number of entries and at the first and the
  last entry, so after the root of one state has been computed, the root of every other state with the
  same number of entries and the same first and last entry is reported to be that of the first state,
  whatever the entries in between hold.\<close>

theorem merkle_cache_stale:
  assumes "lru_cache L view" "m \<noteq> []" "m' \<noteq> []" "length m' = length m" "hd m' = hd m" "last m' = last m"
    and "state_merkle_root L sip S (merkle_cache_new L n True) m = (c1, r)" and "state_merkle_root L sip S c1 m' = (c2, r')"
  shows "r = Some (kv_root S m) \<and> r' = Some (kv_root S m)"
proof -
  let ?c = "merkle_cache_new L n True" and ?k = "compute_cache_key sip m"
  have key: "compute_cache_key sip m' = ?k" using assms(2-6) by (simp add: compute_cache_key_def)
  obtain c0 e where g: "mc_get L ?c ?k = (c0, e)" by fastforce
  have e: "e = None" "mc_enabled c0"
    using root_lookup [OF assms(1) g] lru_cache.view_new [OF assms(1)] by (simp_all add: merkle_cache_new_def)
  have r: "r = Some (kv_root S m)" "c1 = mc_put L c0 ?k (kv_root S m)"
    using assms(2,7) g e(1) merkle_root_of_entries [OF assms(2), of S]
    by (auto simp: state_merkle_root_def state_merkle_root_with_config_def Let_def)
  obtain c1' e' where g': "mc_get L c1 ?k = (c1', e')" by fastforce
  have "mc_enabled c1" "mc_inner c1 = lru_put L (mc_inner c0) ?k (kv_root S m)" using r(2) e(2) by (simp_all add: mc_put_def)
  then have "e' = Some (kv_root S m)" using root_lookup [OF assms(1) g'] lru_cache.view_put [OF assms(1)] by simp
  then show ?thesis
    using assms(3,8) g' key r(1) by (auto simp: state_merkle_root_def state_merkle_root_with_config_def Let_def)
qed

theorem merkle_cache_stale_witness:
  "let L = (lru_list_ops :: (u64, digest) lru_list root_lru); S = (\<lambda>x. x);
       m = [(''a'', ''1''), (''b'', ''10''), (''c'', ''3'')]; m' = [(''a'', ''1''), (''b'', ''99''), (''c'', ''3'')];
       (c1, r) = state_merkle_root L (\<lambda>_. 7) S (merkle_cache_new L 8 True) m; (c2, r') = state_merkle_root L (\<lambda>_. 7) S c1 m'
   in r' = r \<and> kv_root S m' \<noteq> kv_root S m"
proof -
  let ?L = "lru_list_ops :: (u64, digest) lru_list root_lru" and ?S = "\<lambda>x. x :: digest"
  let ?m = "[(''a'', ''1''), (''b'', ''10''), (''c'', ''3'')]" and ?m' = "[(''a'', ''1''), (''b'', ''99''), (''c'', ''3'')]"
  obtain c1 r where 1: "state_merkle_root ?L (\<lambda>_. 7) ?S (merkle_cache_new ?L 8 True) ?m = (c1, r)"
    by (metis prod.exhaust)
  obtain c2 r' where 2: "state_merkle_root ?L (\<lambda>_. 7) ?S c1 ?m' = (c2, r')" by (metis prod.exhaust)
  have "r = r'" using merkle_cache_stale [OF lc.lru_cache_axioms _ _ _ _ _ 1 2] by simp
  moreover have "kv_root ?S ?m' \<noteq> kv_root ?S ?m"
    by (simp add: kv_root.simps Let_def next_power_of_two_def double_until.simps leaf_bytes_def node_bytes_def)
  ultimately show ?thesis unfolding Let_def 1 prod.case 2 by simp
qed

end
