(* ===== verification/Execution.thy ===== *)
theory Execution
  imports Chain_Types Merkle Kv_State Vm_State Rust_Str Econ_Params
begin

text \<open>
  Transaction and block execution, \<open>src/execution.rs\<close>: fees, key-value payloads, the application of one
  transaction, the executor with its sequential and its parallel batch, the state root, and building
  and verifying blocks.

  Third-party code (blake3, SHA-256, hex, ed25519, serde_json) is a field of \<open>exec_env\<close>. So are the three
  calls whose arguments fit no function of the sources: the staking call (the key-value map, a payload
  and a sender), the parser of VM payloads and the two VM calls (the VM storage and the parsed parts); the
  fields have the types of the calls. A panic ends the process and is \<open>None\<close>, or \<open>Panic\<close> where there is
  an error. The floating-point coherence of a state and the metrics are left out; rayon's parallel
  iterators keep the order of their input.
\<close>

type_synonym 'c app_state = "'c vm_storage kv_state"

declare decimal.simps [simp del]

subsection \<open>Configuration, errors, environment\<close>

record exec_config =
  default_max_gas_per_block :: u64
  quantum_parallel_threshold :: usize
  entanglement_threshold :: f64
  tx_coherence_time :: u64
  verify_signatures :: bool
  ec_collect_metrics :: bool
  ec_log_operations :: bool
  ec_economics_params :: economics_params

definition DEFAULT_MAX_GAS_PER_BLOCK :: u64 where "DEFAULT_MAX_GAS_PER_BLOCK = 30000000"

definition QUANTUM_PARALLEL_THRESHOLD :: usize where "QUANTUM_PARALLEL_THRESHOLD = 16"

definition ENTANGLEMENT_THRESHOLD :: f64 where "ENTANGLEMENT_THRESHOLD = F64_HALF"

definition TX_COHERENCE_TIME :: u64 where "TX_COHERENCE_TIME = 1000"

definition INTRINSIC_GAS_BASE :: u64 where "INTRINSIC_GAS_BASE = 21000"

definition GAS_PER_BYTE :: u64 where "GAS_PER_BYTE = 10"

definition ELASTICITY_DENOM :: u64 where "ELASTICITY_DENOM = 4"

definition DEFAULT_CHAIN_ID :: u64 where "DEFAULT_CHAIN_ID = 6126151"

definition exec_config_default :: exec_config where
  "exec_config_default =
     \<lparr>default_max_gas_per_block = DEFAULT_MAX_GAS_PER_BLOCK, quantum_parallel_threshold = QUANTUM_PARALLEL_THRESHOLD,
      entanglement_threshold = ENTANGLEMENT_THRESHOLD, tx_coherence_time = TX_COHERENCE_TIME, verify_signatures = True, ec_collect_metrics = True, ec_log_operations = False,
      ec_economics_params = economics_default\<rparr>"

definition exec_config_validate :: "exec_config \<Rightarrow> (string, unit) result" where
  "exec_config_validate c =
     (if default_max_gas_per_block c = 0 then Err ''default_max_gas_per_block must be > 0''
      else if quantum_parallel_threshold c = 0 then Err ''quantum_parallel_threshold must be > 0''
      else if f64_less (entanglement_threshold c) F64_ZERO \<or> f64_less F64_ONE (entanglement_threshold c)
      then Err ''entanglement_threshold must be between 0 and 1''
      else if tx_coherence_time c = 0 then Err ''tx_coherence_time must be > 0''
      else Ok ())"

datatype execution_error =
    InvalidTx string
  | BadNonce u64 u64
  | Exec_InsufficientBalance u64 u64
  | GasLimitTooLow u64 u64
  | FeeTooLow u64 u64
  | InvalidSignature
  | PayloadFailed string
  | BlockVerification string
  | VmError string
  | EvmError string
  | Exec_StakingError string
  | Decoherence
  | EntanglementBroken
  | DuplicateTx string
  | GasOverflow u64
  | InvalidProposer string

datatype vm_tx_payload = Deploy_Payload "byte list" "byte list" | Call_Payload "byte list" string "byte list"

record 'c exec_env =
  ex_protocol_version :: u32 \<comment> \<open>\<open>CURRENT_PROTOCOL_VERSION\<close>, which the sources use and do not define\<close>
  ex_hash :: "byte list \<Rightarrow> hash32"
  ex_sha :: "byte list \<Rightarrow> digest"
  ex_hex :: "byte list \<Rightarrow> string"
  ex_derive :: "byte list \<Rightarrow> string"
  ex_sign_bytes :: "tx \<Rightarrow> byte list"
  ex_verify :: "byte list \<Rightarrow> byte list \<Rightarrow> byte list \<Rightarrow> bool"
  ex_staking :: "(string, string) btree \<Rightarrow> string \<Rightarrow> string \<Rightarrow> (string, string) btree \<times> (string, unit) result"
  ex_parse_vm :: "string \<Rightarrow> (string, vm_tx_payload) result"
  ex_deploy :: "'c vm_storage \<Rightarrow> byte list \<Rightarrow> byte list \<Rightarrow> 'c vm_storage \<times> (string, byte list) result \<times> u64"
  ex_call :: "'c vm_storage \<Rightarrow> byte list \<Rightarrow> string \<Rightarrow> byte list \<Rightarrow> 'c vm_storage \<times> (string, byte list) result \<times> u64"

subsection \<open>State root and merge\<close>

definition bt_extend :: "('k::linorder, 'v) btree \<Rightarrow> ('k \<times> 'v) list \<Rightarrow> ('k, 'v) btree" where
  "bt_extend m xs = foldl (\<lambda>m' (k, v). bt_insert k v m') m xs"

definition root_entries :: "(byte list \<Rightarrow> string) \<Rightarrow> (byte list \<Rightarrow> digest) \<Rightarrow> 'c app_state \<Rightarrow> (string \<times> string) list" where
  "root_entries hex S st =
     map (\<lambda>(k, v). (''kv:'' @ k, v)) (kv st) @
     map (\<lambda>(addr, bal). (''bal:'' @ addr, decimal bal)) (balances st) @
     map (\<lambda>(addr, nonce). (''nonce:'' @ addr, decimal nonce)) (nonces st) @
     [(''burned'', decimal (burned st))] @
     map (\<lambda>((contract, slot), v). (''vm_storage:'' @ hex contract @ '':'' @ hex slot, hex v)) (storage (vm st)) @
     map (\<lambda>(contract, cd). (''vm_code:'' @ hex contract, hex (S cd))) (code (vm st))"

definition combined :: "(byte list \<Rightarrow> string) \<Rightarrow> (byte list \<Rightarrow> digest) \<Rightarrow> 'c app_state \<Rightarrow> (string, string) btree" where
  "combined hex S st = bt_extend [] (root_entries hex S st)"

type_synonym ('c, 'm) root_fn = "'m merkle_cache \<Rightarrow> 'c app_state \<Rightarrow> 'm merkle_cache \<times> hash32 option"

definition state_root :: "'m root_lru \<Rightarrow> state_hasher \<Rightarrow> 'c exec_env \<Rightarrow> ('c, 'm) root_fn" where
  "state_root L sip env mc st = state_merkle_root L sip (ex_sha env) mc (combined (ex_hex env) (ex_sha env) st)"

definition bt_agrees :: "('k::linorder, 'v) btree \<Rightarrow> ('k, 'v) btree \<Rightarrow> bool" where
  \<comment> \<open>no key of the second map has another value in the first\<close>
  "bt_agrees m other = list_all (\<lambda>(k, v). case bt_get m k of Some existing \<Rightarrow> existing = v | None \<Rightarrow> True) other"

definition merge_state :: "'c app_state \<Rightarrow> 'c app_state \<Rightarrow> 'c app_state \<times> (execution_error, unit) result" where
  "merge_state st other =
     (if \<not> bt_agrees (kv st) (kv other) then (st, Err EntanglementBroken)
      else if \<not> bt_agrees (balances st) (balances other) then (st, Err EntanglementBroken)
      else if \<not> bt_agrees (nonces st) (nonces other) then (st, Err EntanglementBroken)
      else if \<not> bt_agrees (storage (vm st)) (storage (vm other)) then (st, Err EntanglementBroken)
      else if \<not> bt_agrees (code (vm st)) (code (vm other)) then (st, Err EntanglementBroken)
      else
        (st\<lparr>kv := bt_extend (kv st) (kv other), balances := bt_extend (balances st) (balances other),
            nonces := bt_extend (nonces st) (nonces other), burned := max (burned st) (burned other),
            vm := (vm st)\<lparr>storage := bt_extend (storage (vm st)) (storage (vm other)),
              code := bt_extend (code (vm st)) (code (vm other))\<rparr>\<rparr>, Ok ()))"

subsection \<open>Fees\<close>

definition next_base_fee :: "u64 \<Rightarrow> u64 \<Rightarrow> u64 \<Rightarrow> u64 option" where
  "next_base_fee prev gas_used gas_target =
     (if gas_target = 0 then Some (max prev 1)
      else let prev_base = max prev 1 in
        if gas_target < gas_used then
          (case checked_mul 64 prev_base (gas_used - gas_target) of
             None \<Rightarrow> None
           | Some x \<Rightarrow> map_option (\<lambda>y. max y 1) (checked_add 64 prev_base (max (x div gas_target div ELASTICITY_DENOM) 1)))
        else
          (case checked_mul 64 prev_base (gas_target - gas_used) of
             None \<Rightarrow> None
           | Some x \<Rightarrow> Some (max (saturating_sub prev_base (max (x div gas_target div ELASTICITY_DENOM) 1)) 1)))"

definition intrinsic_gas :: "string \<Rightarrow> u64 option" where
  "intrinsic_gas pl = checked_add 64 INTRINSIC_GAS_BASE (saturating_mul 64 (length pl) GAS_PER_BYTE)"

subsection \<open>Key-value payloads\<close>

definition i64_to_string :: "int \<Rightarrow> string" where
  "i64_to_string n = (if n < 0 then ''-'' @ decimal (nat (- n)) else decimal (nat n))"

definition parse_i64 :: "string \<Rightarrow> int option" where
  \<comment> \<open>\<open>str::parse::<i64>\<close>\<close>
  "parse_i64 s =
     (case s of
        [] \<Rightarrow> None
      | c # cs \<Rightarrow>
          (if cs = [] \<and> (c = CHR ''+'' \<or> c = CHR ''-'') then None
           else if c = CHR ''-'' then
             (case parse_digits 64 0 cs of None \<Rightarrow> None | Some n \<Rightarrow> if n \<le> 2 ^ 63 then Some (- int n) else None)
           else
             (case parse_digits 64 0 (if c = CHR ''+'' then cs else s) of
                None \<Rightarrow> None
              | Some n \<Rightarrow> if n < 2 ^ 63 then Some (int n) else None)))"

fun join_words :: "string list \<Rightarrow> string" where
  "join_words [] = []"
| "join_words [w] = w"
| "join_words (w # ws) = w @ '' '' @ join_words ws"

definition apply_kv_payload :: "(string, string) btree \<Rightarrow> string \<Rightarrow> (string, string) btree \<times> (execution_error, unit) result" where
  "apply_kv_payload m pl =
     (let parts = split_whitespace pl in
      if parts = [] then (m, Err (InvalidTx ''empty payload''))
      else if parts ! 0 = ''set'' \<and> 3 \<le> length parts then
        (bt_insert (parts ! 1) (join_words (drop 2 parts)) m, Ok ())
      else if parts ! 0 = ''del'' \<and> length parts = 2 then (bt_remove (parts ! 1) m, Ok ())
      else if parts ! 0 = ''inc'' \<and> length parts = 2 then
        (let cur = (case bt_get m (parts ! 1) of Some v \<Rightarrow> v | None \<Rightarrow> ''0'');
             n = (case parse_i64 cur of Some n \<Rightarrow> n | None \<Rightarrow> 0)
         in if n + 1 < 2 ^ 63 then (bt_insert (parts ! 1) (i64_to_string (n + 1)) m, Ok ()) else (m, Panic))
      else (m, Err (InvalidTx ''unknown KV command'')))"

subsection \<open>One transaction\<close>

definition verify_tx_signature :: "'c exec_env \<Rightarrow> tx \<Rightarrow> (execution_error, string) result" where
  "verify_tx_signature env t =
     (let addr = ex_derive env (tx_pubkey t) in
      if tx_from t \<noteq> addr then Err (InvalidTx ''from != derived address'')
      else if ex_verify env (tx_pubkey t) (ex_sign_bytes env t) (tx_signature t) then Ok addr
      else Err InvalidSignature)"

fun error_text :: "execution_error \<Rightarrow> string" where
  \<comment> \<open>\<open>Display\<close> of the errors that reach a receipt\<close>
  "error_text (InvalidTx s) = ''invalid transaction quantum state: '' @ s"
| "error_text InvalidSignature = ''signature quantum state verification failed''"
| "error_text _ = []"

definition empty_receipt :: "hash32 \<Rightarrow> receipt" where
  "empty_receipt h =
     \<lparr>rc_tx_hash = h, success = False, rc_gas_used = 0, rc_intrinsic_gas = 0, rc_exec_gas = 0, rc_vm_gas = 0, rc_evm_gas = 0,
      effective_gas_price = 0, rc_burned = 0, rc_tip = 0, rc_error = None, rc_data = None\<rparr>"

definition add_gas :: "receipt \<Rightarrow> u64 \<Rightarrow> receipt" where
  "add_gas r g = r\<lparr>rc_gas_used := saturating_add 64 (rc_gas_used r) g\<rparr>"

definition vm_receipt :: "'c exec_env \<Rightarrow> string \<Rightarrow> receipt \<Rightarrow> (string, byte list) result \<Rightarrow> u64 \<Rightarrow> receipt option" where
  "vm_receipt env what r res gas =
     (let r1 = add_gas (r\<lparr>rc_vm_gas := gas\<rparr>) gas in
      case res of
        Ok bytes \<Rightarrow> Some (r1\<lparr>success := True, rc_data := Some (ex_hex env bytes)\<rparr>)
      | Err e \<Rightarrow> Some (r1\<lparr>rc_error := Some (what @ e)\<rparr>)
      | Panic \<Rightarrow> None)"

definition apply_payload ::
  "'c exec_env \<Rightarrow> receipt \<Rightarrow> 'c app_state \<Rightarrow> string \<Rightarrow> string \<Rightarrow> (receipt \<times> 'c app_state) option" where
  \<comment> \<open>the second half of \<open>apply_tx\<close>, after the fee\<close>
  "apply_payload env r working pl from =
     (case strip_prefix ''staking:'' pl of
        Some staking_payload \<Rightarrow>
          (case ex_staking env (kv working) staking_payload from of
             (m, Ok _) \<Rightarrow> Some ((add_gas r 1000)\<lparr>success := True, rc_exec_gas := 1000\<rparr>, working\<lparr>kv := m\<rparr>)
           | (m, Err e) \<Rightarrow> Some (r\<lparr>rc_error := Some (''staking error: '' @ e)\<rparr>, working\<lparr>kv := m\<rparr>)
           | (m, Panic) \<Rightarrow> None)
      | None \<Rightarrow>
          (case strip_prefix ''vm '' (dropWhile is_whitespace pl) of
             Some vm_payload \<Rightarrow>
               (case ex_parse_vm env vm_payload of
                  Ok (Deploy_Payload cd params) \<Rightarrow>
                    (let (v, res, gas) = ex_deploy env (vm working) cd params in
                     map_option (\<lambda>r'. (r', working\<lparr>vm := v\<rparr>)) (vm_receipt env ''vm deploy error: '' r res gas))
                | Ok (Call_Payload contract meth args) \<Rightarrow>
                    (let (v, res, gas) = ex_call env (vm working) contract meth args in
                     map_option (\<lambda>r'. (r', working\<lparr>vm := v\<rparr>)) (vm_receipt env ''vm call error: '' r res gas))
                | Err e \<Rightarrow> Some (r\<lparr>rc_error := Some (''vm payload parse error: '' @ e)\<rparr>, working)
                | Panic \<Rightarrow> None)
           | None \<Rightarrow>
               (case apply_kv_payload (kv working) pl of
                  (m, Ok _) \<Rightarrow> Some (r\<lparr>success := True\<rparr>, working\<lparr>kv := m\<rparr>)
                | (m, Err e) \<Rightarrow> Some (r\<lparr>rc_error := Some (error_text e)\<rparr>, working)
                | (m, Panic) \<Rightarrow> None)))"

definition charge_fee :: "'c app_state \<Rightarrow> string \<Rightarrow> string \<Rightarrow> u64 \<Rightarrow> u64 \<Rightarrow> u64 \<Rightarrow> 'c app_state option" where
  \<comment> \<open>"Charge fee + increment nonce" of \<open>apply_tx\<close>\<close>
  "charge_fee st from prop burn tip expected =
     (let b1 = bt_insert from (balance_or_zero (balances st) from - saturating_add 64 burn tip) (balances st);
          pb = balance_or_zero b1 prop
      in map_option (\<lambda>n.
           st\<lparr>balances := bt_insert prop (saturating_add 64 pb tip) b1, burned := saturating_add 64 (burned st) burn,
              nonces := bt_insert from n (nonces st)\<rparr>) (checked_add 64 expected 1))"

definition apply_tx ::
  "'c exec_env \<Rightarrow> 'c app_state \<Rightarrow> tx \<Rightarrow> u64 \<Rightarrow> string \<Rightarrow> (receipt \<times> 'c app_state) option" where
  "apply_tx env st t base_fee prop =
     (let r = empty_receipt (tx_hash (ex_hash env) t) in
      case verify_tx_signature env t of
        Err e \<Rightarrow> Some (r\<lparr>rc_error := Some (error_text e)\<rparr>, st)
      | Panic \<Rightarrow> None
      | Ok from \<Rightarrow>
          (let expected = (case bt_get (nonces st) from of Some n \<Rightarrow> n | None \<Rightarrow> 0) in
           if tx_nonce t \<noteq> expected then
             Some (r\<lparr>rc_error := Some (''bad nonce: expected '' @ decimal expected @ '', got '' @ decimal (tx_nonce t))\<rparr>, st)
           else case intrinsic_gas (payload t) of
             None \<Rightarrow> None
           | Some intrinsic \<Rightarrow>
               (let r = r\<lparr>rc_intrinsic_gas := intrinsic, rc_gas_used := intrinsic\<rparr> in
                if tx_gas_limit t < intrinsic then
                  Some (r\<lparr>rc_error := Some (''gas limit '' @ decimal (tx_gas_limit t) @ '' < intrinsic '' @ decimal intrinsic)\<rparr>, st)
                else if max_fee_per_gas t < base_fee then
                  Some (r\<lparr>rc_error := Some (''max fee '' @ decimal (max_fee_per_gas t) @ '' < base fee '' @ decimal base_fee)\<rparr>, st)
                else let max_tip = saturating_sub (max_fee_per_gas t) base_fee;
                         prio = min (max_priority_fee_per_gas t) max_tip;
                         burn = saturating_mul 64 base_fee intrinsic;
                         tip = saturating_mul 64 prio intrinsic;
                         tot = saturating_add 64 burn tip;
                         r = r\<lparr>effective_gas_price := saturating_add 64 base_fee prio, rc_burned := burn, rc_tip := tip\<rparr>;
                         bal = balance_or_zero (balances st) from
                     in if bal < tot then
                          Some (r\<lparr>rc_error := Some (''insufficient balance: need '' @ decimal tot @ '', have '' @ decimal bal)\<rparr>, st)
                        else case charge_fee st from prop burn tip expected of
                          None \<Rightarrow> None
                        | Some working \<Rightarrow> apply_payload env r working (payload t) from)))"

subsection \<open>The executor\<close>

record 'c executor =
  xe_state :: "'c app_state"
  xe_proposer :: string
  max_gas_per_block :: u64
  xe_base_fee :: u64
  executed_hashes :: "hash32 list"
  xe_gas_used :: u64
  xe_receipts :: "receipt list"
  xe_config :: exec_config

definition executor_new :: "'c app_state \<Rightarrow> string \<Rightarrow> u64 \<Rightarrow> u64 \<Rightarrow> exec_config \<Rightarrow> 'c executor" where
  "executor_new st prop base_fee max_gas config =
     \<lparr>xe_state = st, xe_proposer = prop,
      max_gas_per_block = (if max_gas = 0 then default_max_gas_per_block config else max_gas),
      xe_base_fee = base_fee, executed_hashes = [], xe_gas_used = 0, xe_receipts = [], xe_config = config\<rparr>"

definition execute_tx :: "'c exec_env \<Rightarrow> 'c executor \<Rightarrow> tx \<Rightarrow> 'c executor \<times> (execution_error, receipt) result" where
  "execute_tx env x t =
     (let txh = tx_hash (ex_hash env) t in
      if txh \<in> set (executed_hashes x) then (x, Err (DuplicateTx (ex_hex env txh)))
      else let x1 = x\<lparr>executed_hashes := txh # executed_hashes x\<rparr> in
        case apply_tx env (xe_state x) t (xe_base_fee x) (xe_proposer x) of
          None \<Rightarrow> (x1, Panic)
        | Some (r, st) \<Rightarrow>
            (let x2 = x1\<lparr>xe_gas_used := saturating_add 64 (xe_gas_used x) (rc_gas_used r)\<rparr> in
             if max_gas_per_block x < xe_gas_used x2 then (x2, Err (GasOverflow (max_gas_per_block x)))
             else (x2\<lparr>xe_state := st, xe_receipts := xe_receipts x @ [r]\<rparr>, Ok r)))"

fun execute_batch :: "'c exec_env \<Rightarrow> 'c executor \<Rightarrow> tx list \<Rightarrow> 'c executor \<times> (execution_error, receipt list) result" where
  "execute_batch env x [] = (x, Ok [])"
| "execute_batch env x (t # ts) =
     (case execute_tx env x t of
        (x1, Ok r) \<Rightarrow>
          (case execute_batch env x1 ts of
             (x2, Ok rs) \<Rightarrow> (x2, Ok (r # rs))
           | (x2, Err e) \<Rightarrow> (x2, Err e)
           | (x2, Panic) \<Rightarrow> (x2, Panic))
      | (x1, Err e) \<Rightarrow> (x1, Err e)
      | (x1, Panic) \<Rightarrow> (x1, Panic))"

fun merge_results ::
  "'c app_state \<Rightarrow> u64 \<Rightarrow> receipt list \<Rightarrow> (receipt \<times> 'c app_state) option list \<Rightarrow> (execution_error, 'c app_state \<times> u64 \<times> receipt list) result" where
  \<comment> \<open>the merge loop of \<open>execute_batch_parallel\<close>\<close>
  "merge_results st gas rs [] = Ok (st, gas, rs)"
| "merge_results st gas rs (None # xs) = Panic"
| "merge_results st gas rs (Some (r, partial) # xs) =
     (if \<not> success r then Err (InvalidTx (case rc_error r of Some e \<Rightarrow> e | None \<Rightarrow> ''unknown''))
      else case merge_state st partial of
          (st', Ok _) \<Rightarrow> merge_results st' (saturating_add 64 gas (rc_gas_used r)) (rs @ [r]) xs
        | (st', Err e) \<Rightarrow> Err e
        | (st', Panic) \<Rightarrow> Panic)"

definition execute_batch_parallel ::
  "'c exec_env \<Rightarrow> 'c executor \<Rightarrow> tx list \<Rightarrow> 'c executor \<times> (execution_error, receipt list) result" where
  "execute_batch_parallel env x txs =
     (if length txs \<le> QUANTUM_PARALLEL_THRESHOLD \<or> \<not> verify_signatures (xe_config x) then execute_batch env x txs
      else let failed = filter (\<lambda>t. \<not> is_ok (verify_tx_signature env t)) txs in
        if failed \<noteq> [] then (x, Err (InvalidTx (decimal (length failed) @ '' transactions have invalid signatures'')))
        else let results = map (\<lambda>t. apply_tx env (xe_state x) t (xe_base_fee x) (xe_proposer x)) txs in
          if None \<in> set results then (x, Panic)
          else case merge_results (xe_state x) 0 [] results of
              Err e \<Rightarrow> (x, Err e)
            | Panic \<Rightarrow> (x, Panic)
            | Ok (st, gas, rs) \<Rightarrow>
                (if max_gas_per_block x < gas then (x, Err (GasOverflow (max_gas_per_block x)))
                 else (x\<lparr>xe_state := st, xe_gas_used := gas, xe_receipts := xe_receipts x @ rs\<rparr>, Ok (xe_receipts x @ rs))))"

definition run_txs :: "'c exec_env \<Rightarrow> exec_config \<Rightarrow> 'c executor \<Rightarrow> tx list \<Rightarrow> 'c executor \<times> (execution_error, receipt list) result" where
  \<comment> \<open>the choice \<open>build_block\<close>, \<open>verify_block\<close> and \<open>execute_block\<close> make\<close>
  "run_txs env config x txs =
     (if quantum_parallel_threshold config < length txs then execute_batch_parallel env x txs else execute_batch env x txs)"

definition execute_block ::
  "'c exec_env \<Rightarrow> exec_config \<Rightarrow> 'c app_state \<Rightarrow> tx list \<Rightarrow> u64 \<Rightarrow> string \<Rightarrow> u64 \<Rightarrow> ('c app_state \<times> u64 \<times> receipt list) option" where
  "execute_block env config st txs base_fee prop max_gas =
     (case run_txs env config (executor_new st prop base_fee max_gas config) txs of
        (x, Panic) \<Rightarrow> None
      | (x, _) \<Rightarrow> Some (xe_state x, xe_gas_used x, xe_receipts x))"

subsection \<open>Blocks\<close>

definition build_block ::
  "'m root_lru \<Rightarrow> state_hasher \<Rightarrow> 'c exec_env \<Rightarrow> u64 \<Rightarrow> 'm merkle_cache \<Rightarrow> height \<Rightarrow> round_no \<Rightarrow> hash32 \<Rightarrow> byte list \<Rightarrow> string
    \<Rightarrow> 'c app_state \<Rightarrow> u64 \<Rightarrow> tx list \<Rightarrow> u64 \<Rightarrow> exec_config \<Rightarrow> ('m merkle_cache \<times> block \<times> 'c app_state \<times> receipt list) option" where
  "build_block L sip env now mc h r prev pk prop st base_fee txs max_gas config =
     (let (x, res) = run_txs env config (executor_new st prop base_fee max_gas config) txs in
      if res = Panic then None
      else case state_root L sip env mc (xe_state x) of
          (mc', None) \<Rightarrow> None
        | (mc', Some sroot) \<Rightarrow>
            Some (mc',
              \<lparr>blk_header =
                 \<lparr>hd_height = h, hd_round = r, hd_prev = prev, hd_proposer_pk = pk, hd_tx_root = tx_root (ex_hash env) txs,
                  hd_receipts_root = receipts_root (ex_hash env) (xe_receipts x), hd_state_root = sroot,
                  hd_base_fee = base_fee, hd_gas_used = xe_gas_used x, hd_intrinsic_gas = 0, hd_exec_gas = xe_gas_used x,
                  hd_vm_gas = 0, hd_evm_gas = 0, hd_chain_id = DEFAULT_CHAIN_ID, hd_timestamp = now,
                  hd_protocol_version = ex_protocol_version env\<rparr>,
               blk_txs = txs\<rparr>,
              xe_state x, xe_receipts x))"

definition verify_block ::
  "'m root_lru \<Rightarrow> state_hasher \<Rightarrow> 'c exec_env \<Rightarrow> 'm merkle_cache \<Rightarrow> 'c app_state \<Rightarrow> block \<Rightarrow> string \<Rightarrow> u64 \<Rightarrow> exec_config
    \<Rightarrow> ('m merkle_cache \<times> ('c app_state \<times> receipt list) option) option" where
  "verify_block L sip env mc st b prop max_gas config =
     (let hd = blk_header b in
      if length (hd_proposer_pk hd) \<noteq> 32 then Some (mc, None)
      else if tx_root (ex_hash env) (blk_txs b) \<noteq> hd_tx_root hd then Some (mc, None)
      else let (x, res) = run_txs env config (executor_new st prop (hd_base_fee hd) max_gas config) (blk_txs b) in
        case res of
          Panic \<Rightarrow> None
        | Err _ \<Rightarrow> Some (mc, None)
        | Ok _ \<Rightarrow>
            (if xe_gas_used x \<noteq> hd_gas_used hd then Some (mc, None)
             else if receipts_root (ex_hash env) (xe_receipts x) \<noteq> hd_receipts_root hd then Some (mc, None)
             else case state_root L sip env mc (xe_state x) of
                 (mc', None) \<Rightarrow> None
               | (mc', Some sroot) \<Rightarrow>
                   (if sroot \<noteq> hd_state_root hd then Some (mc', None) else Some (mc', Some (xe_state x, xe_receipts x)))))"

definition verify_block_with_vset ::
  "'m root_lru \<Rightarrow> state_hasher \<Rightarrow> 'c exec_env \<Rightarrow> 'm merkle_cache \<Rightarrow> 'c app_state \<Rightarrow> block \<Rightarrow> string \<Rightarrow> byte list \<Rightarrow> u64 \<Rightarrow> exec_config
    \<Rightarrow> ('m merkle_cache \<times> ('c app_state \<times> receipt list) option) option" where
  "verify_block_with_vset L sip env mc st b prop expected_pk max_gas config =
     (if hd_proposer_pk (blk_header b) \<noteq> expected_pk then Some (mc, None)
      else verify_block L sip env mc st b prop max_gas config)"

subsection \<open>Fees and balances\<close>

definition exec_wealth :: "'c app_state \<Rightarrow> nat" where
  "exec_wealth st = total_supply (balances st) + burned st"

definition nonce_of :: "'c app_state \<Rightarrow> string \<Rightarrow> u64" where
  "nonce_of st a = (case bt_get (nonces st) a of Some n \<Rightarrow> n | None \<Rightarrow> 0)"

lemma apply_payload_frame:
  assumes "apply_payload env r st pl from = Some (r', st')"
  shows "balances st' = balances st" "burned st' = burned st" "nonces st' = nonces st"
  using assms
  by (auto simp: apply_payload_def Let_def split: option.splits prod.splits result.splits vm_tx_payload.splits)

lemma charge_fee_exact:
  assumes ok: "balances_ok (balances st)" and small: "exec_wealth st < 2 ^ 64 - 1"
    and pay: "saturating_add 64 burn tip \<le> balance_or_zero (balances st) from"
    and w: "charge_fee st from prop burn tip n = Some st'"
  shows "balances_ok (balances st')" "exec_wealth st' = exec_wealth st" "burned st' = burned st + burn"
    "balance_or_zero (balances st') from + burn + tip = balance_or_zero (balances st) from + (if prop = from then tip else 0)"
    "nonces st' = bt_insert from (n + 1) (nonces st)" "n + 1 < 2 ^ 64"
proof -
  let ?b = "balances st" let ?bal = "balance_or_zero ?b from"
  have wf: "bt_wf ?b" using ok by (simp add: balances_ok_def)
  have le: "?bal \<le> total_supply ?b" using balance_le_supply [OF wf] .
  have sum: "saturating_add 64 burn tip = burn + tip"
    using pay le small by (auto simp: saturating_add_def exec_wealth_def min_def split: if_splits)
  define b1 where "b1 = bt_insert from (?bal - (burn + tip)) ?b"
  have s1: "total_supply b1 + (burn + tip) = total_supply ?b"
    using total_supply_insert [OF wf, of "from" "?bal - (burn + tip)"] pay sum unfolding b1_def by linarith
  have ok1: "balances_ok b1" unfolding b1_def
    using balances_ok_get [OF ok, of "from"] by (intro balances_ok_insert [OF ok]) linarith
  then have wf1: "bt_wf b1" by (simp add: balances_ok_def)
  let ?pb = "balance_or_zero b1 prop"
  have "?pb + tip < 2 ^ 64 - 1" using balance_le_supply [OF wf1, of "prop"] s1 small unfolding exec_wealth_def by linarith
  then have credit: "saturating_add 64 ?pb tip = ?pb + tip" by (simp add: saturating_add_def)
  have burn: "saturating_add 64 (burned st) burn = burned st + burn"
    using s1 small by (simp add: saturating_add_def exec_wealth_def)
  have st': "st' = st\<lparr>balances := bt_insert prop (?pb + tip) b1, burned := burned st + burn, nonces := bt_insert from (n + 1) (nonces st)\<rparr>"
    and n: "n + 1 < 2 ^ 64"
    using w sum credit burn unfolding charge_fee_def Let_def b1_def [symmetric]
    by (auto simp: checked_add_def b1_def [symmetric] split: if_splits)
  show "balances_ok (balances st')" using st' ok1 \<open>?pb + tip < 2 ^ 64 - 1\<close> by (simp add: balances_ok_insert)
  show "exec_wealth st' = exec_wealth st"
    using total_supply_insert [OF wf1, of "prop" "?pb + tip"] s1 st' unfolding exec_wealth_def by simp
  show "burned st' = burned st + burn" "nonces st' = bt_insert from (n + 1) (nonces st)" using st' by simp_all
  show "balance_or_zero (balances st') from + burn + tip = ?bal + (if prop = from then tip else 0)"
    using st' pay sum unfolding b1_def by auto
  show "n + 1 < 2 ^ 64" by (rule n)
qed

text \<open>The two outcomes of a transaction: rejected before the fee, or charged.\<close>

lemma apply_tx_cases:
  assumes "apply_tx env st t base_fee prop = Some (r, st')"
  obtains (rejected) "st' = st" "\<not> success r"
  | (charged) g w r0 where "intrinsic_gas (payload t) = Some g" "verify_tx_signature env t = Ok (tx_from t)"
      "tx_nonce t = nonce_of st (tx_from t)" "g \<le> tx_gas_limit t" "base_fee \<le> max_fee_per_gas t"
      "saturating_add 64 (saturating_mul 64 base_fee g) (saturating_mul 64 (min (max_priority_fee_per_gas t) (max_fee_per_gas t - base_fee)) g)
        \<le> balance_or_zero (balances st) (tx_from t)"
      "charge_fee st (tx_from t) prop (saturating_mul 64 base_fee g)
        (saturating_mul 64 (min (max_priority_fee_per_gas t) (max_fee_per_gas t - base_fee)) g) (tx_nonce t) = Some w"
      "apply_payload env r0 w (payload t) (tx_from t) = Some (r, st')"
proof (cases "verify_tx_signature env t")
  case (Ok a)
  have a: "a = tx_from t" using Ok by (auto simp: verify_tx_signature_def Let_def split: if_splits)
  define prio where "prio = min (max_priority_fee_per_gas t) (max_fee_per_gas t - base_fee)"
  show ?thesis
  proof (cases "tx_nonce t = nonce_of st a")
    case False
    then show ?thesis using assms Ok rejected by (auto simp: apply_tx_def nonce_of_def empty_receipt_def Let_def)
  next
    case nonce: True
    show ?thesis
    proof (cases "intrinsic_gas (payload t)")
      case None
      then show ?thesis using assms Ok nonce by (simp add: apply_tx_def nonce_of_def Let_def)
    next
      case (Some g)
      let ?burn = "saturating_mul 64 base_fee g" and ?tip = "saturating_mul 64 prio g"
      show ?thesis
      proof (cases "g \<le> tx_gas_limit t \<and> base_fee \<le> max_fee_per_gas t \<and> saturating_add 64 ?burn ?tip \<le> balance_or_zero (balances st) a")
        case False
        then have "st' = st \<and> \<not> success r" using assms Ok nonce Some
          by (auto simp: apply_tx_def nonce_of_def empty_receipt_def Let_def saturating_sub_def prio_def split: if_splits)
        then show ?thesis using rejected by simp
      next
        case True
        then obtain w r0 where w: "charge_fee st a prop ?burn ?tip (tx_nonce t) = Some w" "apply_payload env r0 w (payload t) a = Some (r, st')"
          using assms Ok nonce Some
          by (auto simp: apply_tx_def nonce_of_def Let_def saturating_sub_def prio_def [symmetric] split: option.splits)
        show ?thesis by (rule charged [OF Some _ _ _ _ _ w [unfolded a prio_def]]) (use Ok a nonce True prio_def in simp_all)
      qed
    qed
  qed
qed (use assms rejected in \<open>auto simp: apply_tx_def empty_receipt_def Let_def\<close>)

lemma apply_tx_bad_nonce:
  assumes "tx_nonce t \<noteq> nonce_of st (tx_from t)"
  shows "\<exists>r. apply_tx env st t base_fee prop = Some (r, st) \<and> \<not> success r"
proof -
  have "a = tx_from t" if "verify_tx_signature env t = Ok a" for a
    using that by (auto simp: verify_tx_signature_def Let_def split: if_splits)
  moreover have "verify_tx_signature env t \<noteq> Panic" by (simp add: verify_tx_signature_def Let_def)
  ultimately show ?thesis using assms
    by (cases "verify_tx_signature env t") (auto simp: apply_tx_def nonce_of_def empty_receipt_def Let_def)
qed

lemma saturating_mul_exact: "saturating_mul 64 a b < 2 ^ 64 - 1 \<Longrightarrow> saturating_mul 64 a b = a * b"
  by (simp add: saturating_mul_def min_def split: if_splits)

text \<open>C10: A transaction never creates or destroys tokens. What it pays is the intrinsic gas of its payload, at the
  base fee (burned) plus the tip (to the proposer), whatever gas a VM call goes on to use; when it is
  rejected before the fee the state is unchanged. Once charged, the same transaction is rejected at
  every later attempt on that state.\<close>

theorem apply_tx_exact_fee:
  assumes "balances_ok (balances st)" "exec_wealth st < 2 ^ 64 - 1" "apply_tx env st t base_fee prop = Some (r, st')"
  shows "balances_ok (balances st') \<and> exec_wealth st' = exec_wealth st \<and>
    (st' = st \<and> \<not> success r \<or>
     (\<exists>g prio. intrinsic_gas (payload t) = Some g \<and> prio = min (max_priority_fee_per_gas t) (max_fee_per_gas t - base_fee) \<and>
        burned st' = burned st + base_fee * g \<and>
        balance_or_zero (balances st') (tx_from t) + (base_fee + prio) * g
          = balance_or_zero (balances st) (tx_from t) + (if prop = tx_from t then prio * g else 0) \<and>
        nonce_of st' (tx_from t) = tx_nonce t + 1 \<and>
        (\<forall>base_fee' prop'. \<exists>r'. apply_tx env st' t base_fee' prop' = Some (r', st') \<and> \<not> success r')))"
  using assms(3)
proof (cases rule: apply_tx_cases)
  case rejected
  then show ?thesis using assms(1) by simp
next
  case (charged g w r0)
  define prio where "prio = min (max_priority_fee_per_gas t) (max_fee_per_gas t - base_fee)"
  note c = charged(6,7) [folded prio_def]
  note fee = charge_fee_exact [OF assms(1,2) c] and frame = apply_payload_frame [OF charged(8)]
  have "balance_or_zero (balances st) (tx_from t) < 2 ^ 64 - 1"
    using balance_le_supply [of "balances st" "tx_from t"] assms(1,2) unfolding balances_ok_def exec_wealth_def by linarith
  then have sum: "saturating_add 64 (saturating_mul 64 base_fee g) (saturating_mul 64 prio g) < 2 ^ 64 - 1" using c(1) by linarith
  then have "saturating_mul 64 base_fee g < 2 ^ 64 - 1" "saturating_mul 64 prio g < 2 ^ 64 - 1"
    unfolding saturating_add_def by linarith+
  then have m: "saturating_mul 64 base_fee g = base_fee * g" "saturating_mul 64 prio g = prio * g"
    using saturating_mul_exact by blast+
  have n: "nonce_of st' (tx_from t) = tx_nonce t + 1" using fee(5) frame(3) by (simp add: nonce_of_def bt_get_insert)
  then have "\<exists>r'. apply_tx env st' t bf p = Some (r', st') \<and> \<not> success r'" for bf p
    by (intro apply_tx_bad_nonce) simp
  then show ?thesis
    using fee m n frame charged(1) prio_def unfolding exec_wealth_def by (auto simp: algebra_simps)
qed

definition demo_env :: "'c exec_env" where
  "demo_env =
     \<lparr>ex_protocol_version = 1, ex_hash = demo_hash, ex_sha = (\<lambda>x. x), ex_hex = hex_lower, ex_derive = (\<lambda>_. ''abc''),
      ex_sign_bytes = tx_bytes, ex_verify = (\<lambda>_ _ s. s \<noteq> []), ex_staking = (\<lambda>m _ _. (m, Err ''none'')),
      ex_parse_vm = (\<lambda>_. Err ''none''), ex_deploy = (\<lambda>v _ _. (v, Err ''none'', 0)), ex_call = (\<lambda>v _ _ _. (v, Err ''none'', 0))\<rparr>"

definition demo_app :: "unit app_state" where
  "demo_app =
     \<lparr>kv = [(''x'', decimal (2 ^ 63 - 1))], balances = [(''abc'', 1000000)], nonces = [], burned = 5,
      vm = \<lparr>storage = [], code = [], vm_nonces = [], vm_balances = [], logs = [], origin_addr = [], gas_price_value = 0,
        vm_config = state_config_default, cache = None\<rparr>\<rparr>"

lemma demo_app_ok: "balances_ok (balances demo_app)" "exec_wealth demo_app = 1000005"
  by (simp_all add: demo_app_def balances_ok_def exec_wealth_def total_supply_def)

lemma demo_sig: "verify_tx_signature demo_env demo_tx = Ok ''abc''"
  by (simp add: verify_tx_signature_def demo_env_def demo_tx_def)

lemma demo_gas: "intrinsic_gas (payload demo_tx) = Some 21070"
  by (simp add: intrinsic_gas_def demo_tx_def checked_add_def saturating_mul_def INTRINSIC_GAS_BASE_def GAS_PER_BYTE_def)

lemma demo_tx_fields: "tx_from demo_tx = ''abc''" "tx_nonce demo_tx = 0" "max_fee_per_gas demo_tx = 2" "max_priority_fee_per_gas demo_tx = 1"
    "tx_gas_limit demo_tx = 30000" "payload demo_tx = ''set a b''"
  by (simp_all add: demo_tx_def)

lemma demo_apply:
  obtains r st' where "apply_tx demo_env demo_app demo_tx 1 ''p'' = Some (r, st')" "success r" "rc_gas_used r = 21070"
proof -
  have "apply_tx demo_env demo_app demo_tx 1 ''p'' \<noteq> None"
    "\<forall>r st'. apply_tx demo_env demo_app demo_tx 1 ''p'' = Some (r, st') \<longrightarrow> success r \<and> rc_gas_used r = 21070"
    by (auto simp: demo_sig demo_gas [unfolded demo_tx_fields] apply_tx_def apply_payload_def Let_def demo_app_def demo_tx_fields
        balance_or_zero_def charge_fee_def rust_arith apply_kv_payload_def split_whitespace_def is_whitespace_def)
  then show ?thesis using that by auto
qed

theorem apply_tx_exact_fee_witness:
  "\<exists>r st'. apply_tx demo_env demo_app demo_tx 1 ''p'' = Some (r, st') \<and> success r \<and>
     exec_wealth st' = 1000005 \<and> balance_or_zero (balances st') ''abc'' = 1000000 - 42140"
proof -
  obtain r st' where a: "apply_tx demo_env demo_app demo_tx 1 ''p'' = Some (r, st')" "success r" using demo_apply by blast
  have "balance_or_zero (balances demo_app) (tx_from demo_tx) = 1000000" by (simp add: demo_app_def demo_tx_def balance_or_zero_def)
  then show ?thesis
    using apply_tx_exact_fee [OF demo_app_ok(1) _ a(1)] demo_app_ok(2) demo_gas a by (auto simp: demo_tx_fields)
qed

lemma parse_i64_decimal:
  assumes "n < 2 ^ 63"
  shows "parse_i64 (decimal n) = Some (int n)"
proof -
  obtain c cs where d: "decimal n = c # cs" using decimal_not_Nil [of n] by (cases "decimal n") auto
  obtain e where "e < 10" "c = digit_char e" using decimal_hd [of n] d by (metis list.sel(1))
  then have c: "c \<noteq> CHR ''+''" "c \<noteq> CHR ''-''" using digit_char_not_sign [of e] by simp_all
  have "n < 2 ^ 64" using assms by simp
  from parse_digits_decimal [OF this] have "parse_digits 64 0 (c # cs) = Some n" unfolding d .
  then show ?thesis using c assms unfolding d parse_i64_def by (simp del: parse_digits.simps)
qed

text \<open>C40: A node can be stopped by a transaction. When a key of the key-value store holds the largest 64-bit integer, the
  payload \<open>inc\<close> on that key overflows; the release profile checks overflow and aborts on panic, so the
  application of any such transaction that can pay its fee ends the process.\<close>

theorem inc_payload_aborts:
  assumes "bt_get (kv st) k = Some (decimal (2 ^ 63 - 1))" "k \<noteq> []" "\<forall>c \<in> set k. \<not> is_whitespace c"
    and "payload t = ''inc '' @ k" "verify_tx_signature env t = Ok (tx_from t)" "tx_nonce t = nonce_of st (tx_from t)"
    and "intrinsic_gas (payload t) = Some g" "g \<le> tx_gas_limit t" "base_fee \<le> max_fee_per_gas t"
    and "saturating_add 64 (saturating_mul 64 base_fee g) (saturating_mul 64 (min (max_priority_fee_per_gas t) (max_fee_per_gas t - base_fee)) g)
      \<le> balance_or_zero (balances st) (tx_from t)"
  shows "apply_tx env st t base_fee prop = None"
proof -
  have "split_on is_whitespace (''inc'' @ CHR '' '' # k) = [''inc'', k]"
    by (subst split_on_sep) (use assms(3) in \<open>simp_all add: split_on_none is_whitespace_def\<close>)
  then have parts: "split_whitespace (payload t) = [''inc'', k]" using assms(2,4) by (simp add: split_whitespace_def)
  have max: "parse_i64 (decimal (2 ^ 63 - 1)) = Some (int (2 ^ 63 - 1))" by (rule parse_i64_decimal) simp
  have kv: "apply_kv_payload (kv w) (payload t) = (kv w, Panic)" if "kv w = kv st" for w :: "'a app_state"
    using that parts assms(1) max by (simp add: apply_kv_payload_def)
  have pre: "strip_prefix ''staking:'' (payload t) = None" "strip_prefix ''vm '' (dropWhile is_whitespace (payload t)) = None"
    using assms(4) by (simp_all add: is_whitespace_def)
  have "apply_payload env r w (payload t) a = None" if "kv w = kv st" for r w a
    using pre kv [OF that] by (simp add: apply_payload_def)
  moreover have "kv w = kv st" if "charge_fee st a prop b c n = Some w" for w a b c n
    using that by (auto simp: charge_fee_def Let_def)
  moreover have "nonce_of st (tx_from t) = (case bt_get (nonces st) (tx_from t) of Some n \<Rightarrow> n | None \<Rightarrow> 0)" by (simp add: nonce_of_def)
  ultimately show ?thesis
    using assms(5-10) by (simp add: apply_tx_def Let_def saturating_sub_def not_less split: option.split)
qed

theorem inc_payload_aborts_witness:
  "apply_tx demo_env demo_app (demo_tx\<lparr>payload := ''inc x''\<rparr>) 1 ''p'' = None"
  by (rule inc_payload_aborts [where k = "''x''" and g = 21050])
    (simp_all add: demo_app_def demo_tx_def demo_env_def verify_tx_signature_def nonce_of_def intrinsic_gas_def rust_arith
      INTRINSIC_GAS_BASE_def GAS_PER_BYTE_def balance_or_zero_def is_whitespace_def)

end
