(* ===== verification/Block_Verify.thy ===== *)
theory Block_Verify
  imports Execution
begin

text \<open>
  Properties of building and verifying blocks (\<open>src/execution.rs\<close>, module \<open>block\<close>): when the block a
  proposer builds is accepted, what becomes of batches above the parallel threshold, and what a state
  root determines.
\<close>

subsection \<open>The state root is always computed\<close>

lemma bt_extend_keys: "fst ` set (bt_extend m xs) = fst ` set m \<union> fst ` set xs"
  unfolding bt_extend_def by (induction xs arbitrary: m) (simp_all add: case_prod_beta)

lemma combined_not_Nil: "combined hex S st \<noteq> []"
proof -
  have "''burned'' \<in> fst ` set (combined hex S st)" by (simp add: combined_def bt_extend_keys root_entries_def)
  then show ?thesis by auto
qed

lemma state_root_total: "\<exists>mc' d. state_root L sip env mc st = (mc', Some d)"
  using merkle_root_of_entries [OF combined_not_Nil, of "ex_sha env" "ex_hex env" "ex_sha env" st]
  by (auto simp: state_root_def state_merkle_root_def state_merkle_root_with_config_def combined_not_Nil Let_def
      split: prod.split option.split)

subsection \<open>Building, then verifying\<close>

text \<open>C12: The block a proposer builds is accepted by a node with the same state exactly when the proposer's key has 32
  bytes, every transaction was executed without an execution error, and the two nodes compute the same
  root for the resulting state. Then the verifying node arrives at the state and the receipts of the
  proposer. In particular a duplicate transaction, an exceeded gas limit or a conflict of a parallel
  batch, which \<open>build_block\<close> only logs, yields a block that every node rejects, the proposer included.\<close>

theorem verify_built_block_iff:
  assumes "build_block L sip env now mc h r prev pk prop st base_fee txs max_gas config = Some (mc1, b, st1, rs)"
  shows "\<exists>mc2 v. verify_block L sip env mc' st b prop max_gas config = Some (mc2, v) \<and> (v = None \<or> v = Some (st1, rs)) \<and>
    (v \<noteq> None \<longleftrightarrow> length pk = 32 \<and> is_ok (snd (run_txs env config (executor_new st prop base_fee max_gas config) txs)) \<and>
      snd (state_root L sip env mc' st1) = snd (state_root L sip env mc st1))"
proof -
  obtain x res where run: "run_txs env config (executor_new st prop base_fee max_gas config) txs = (x, res)" by fastforce
  obtain m d where root: "state_root L sip env mc (xe_state x) = (m, Some d)" using state_root_total by blast
  obtain m' d' where root': "state_root L sip env mc' (xe_state x) = (m', Some d')" using state_root_total by blast
  show ?thesis
    using assms run root root' by (cases res) (auto simp: build_block_def verify_block_def Let_def)
qed

lemma build_block_some:
  assumes "snd (run_txs env config (executor_new st prop base_fee max_gas config) txs) \<noteq> Panic"
  obtains mc1 b st1 rs where "build_block L sip env now mc h r prev pk prop st base_fee txs max_gas config = Some (mc1, b, st1, rs)"
proof -
  obtain x res where run: "run_txs env config (executor_new st prop base_fee max_gas config) txs = (x, res)" by fastforce
  obtain m d where "state_root L sip env mc (xe_state x) = (m, Some d)" using state_root_total by blast
  then show ?thesis using assms run that by (auto simp: build_block_def)
qed

theorem verify_built_block_iff_witness:
  "let L = (lru_list_ops :: (u64, digest) lru_list root_lru); c = merkle_cache_new L 8 True
   in \<exists>mc1 b st1 rs mc2.
        build_block L (\<lambda>_. 0) demo_env 7 c 1 0 [] (replicate 32 3) ''p'' demo_app 1 [demo_tx] 0 exec_config_default = Some (mc1, b, st1, rs) \<and>
        verify_block L (\<lambda>_. 0) demo_env c demo_app b ''p'' 0 exec_config_default = Some (mc2, Some (st1, rs))"
proof -
  let ?L = "lru_list_ops :: (u64, digest) lru_list root_lru"
  let ?x = "executor_new demo_app ''p'' 1 0 exec_config_default"
  obtain r st' where a: "apply_tx demo_env demo_app demo_tx 1 ''p'' = Some (r, st')" "rc_gas_used r = 21070" using demo_apply by blast
  have ok: "is_ok (snd (run_txs demo_env exec_config_default ?x [demo_tx]))"
    using a by (simp add: run_txs_def execute_tx_def executor_new_def exec_config_default_def QUANTUM_PARALLEL_THRESHOLD_def
        DEFAULT_MAX_GAS_PER_BLOCK_def saturating_add_def Let_def)
  obtain mc1 b st1 rs where bb: "build_block ?L (\<lambda>_. 0) demo_env 7 (merkle_cache_new ?L 8 True) 1 0 [] (replicate 32 3) ''p'' demo_app 1
      [demo_tx] 0 exec_config_default = Some (mc1, b, st1, rs)"
    by (rule build_block_some [of demo_env exec_config_default demo_app "''p''" 1 0 "[demo_tx]"]) (use ok in auto)
  from verify_built_block_iff [OF this, of "merkle_cache_new ?L 8 True"] ok bb show ?thesis unfolding Let_def by fastforce
qed

subsection \<open>Batches above the parallel threshold\<close>

lemma charged_balance_conflicts:
  assumes ok: "balances_ok (balances st)" "exec_wealth st < 2 ^ 64 - 1" and fee: "0 < base_fee"
    and a: "apply_tx env st t base_fee prop = Some (r, st')" "success r"
  shows "\<not> bt_agrees (balances st) (balances st')"
  using a(1)
proof (cases rule: apply_tx_cases)
  case rejected
  then show ?thesis using a(2) by simp
next
  case (charged g w r0)
  let ?f = "tx_from t" let ?tip = "saturating_mul 64 (min (max_priority_fee_per_gas t) (max_fee_per_gas t - base_fee)) g"
  let ?burn = "saturating_mul 64 base_fee g"
  note c = charge_fee_exact [OF ok charged(6,7)]
  have "0 < g" using charged(1) by (auto simp: intrinsic_gas_def INTRINSIC_GAS_BASE_def checked_add_def split: if_splits)
  then have burn: "0 < ?burn" using fee by (simp add: saturating_mul_def)
  have bal: "balance_or_zero (balances st') ?f < balance_or_zero (balances st) ?f"
    using c(4) burn apply_payload_frame(1) [OF charged(8)] by (auto split: if_splits)
  then obtain v where v: "bt_get (balances st) ?f = Some v" "v = balance_or_zero (balances st) ?f"
    by (auto simp: balance_or_zero_def split: option.splits)
  have "?f \<in> fst ` set (balances w)" using charged(7) by (auto simp: charge_fee_def Let_def)
  then have "?f \<in> fst ` set (balances st')" using apply_payload_frame(1) [OF charged(8)] by simp
  then obtain v' where v': "bt_get (balances st') ?f = Some v'"
    using bt_get_None_iff [of "balances st'" ?f] by (cases "bt_get (balances st') ?f") auto
  have "(?f, v') \<in> set (balances st')" by (rule bt_get_in_set [OF v'])
  moreover have "v' \<noteq> v" using bal v(1) v' by (simp add: balance_or_zero_def)
  ultimately show ?thesis using v(1) unfolding bt_agrees_def list_all_iff by (intro notI) (drule (1) bspec, simp)
qed

lemma parallel_batch_fails:
  assumes "QUANTUM_PARALLEL_THRESHOLD < length txs" "verify_signatures (xe_config x)" "0 < xe_base_fee x"
    and "balances_ok (balances (xe_state x))" "exec_wealth (xe_state x) < 2 ^ 64 - 1"
  shows "\<exists>res. execute_batch_parallel env x txs = (x, res) \<and> \<not> is_ok res"
proof -
  let ?a = "\<lambda>t. apply_tx env (xe_state x) t (xe_base_fee x) (xe_proposer x)"
  obtain t ts where txs: "txs = t # ts" using assms(1) by (cases txs) auto
  have "\<not> is_ok (merge_results (xe_state x) 0 [] (map ?a txs))"
  proof (cases "?a t")
    case (Some p)
    obtain r st' where p: "p = (r, st')" by fastforce
    show ?thesis
    proof (cases "success r")
      case True
      have "\<not> bt_agrees (balances (xe_state x)) (balances st')"
        using charged_balance_conflicts [OF assms(4,5,3)] Some p True by blast
      then have "\<exists>s. merge_state (xe_state x) st' = (s, Err EntanglementBroken)" by (simp add: merge_state_def)
      then show ?thesis using Some p True txs by auto
    qed (use Some p txs in simp)
  qed (use txs in simp)
  then show ?thesis
    using assms(1,2) by (cases "merge_results (xe_state x) 0 [] (map ?a txs)") (auto simp: execute_batch_parallel_def Let_def)
qed

text \<open>C39: A node with signature checks on accepts no block with more transactions than the parallel thresholds and a
  base fee above zero, whoever built the block, whatever its header says and whatever state the node is in
  (with balances that fit in 64 bits together with what was burned): the parallel batch applies every
  transaction to the same state and merges the results, and the fee of the first transaction already
  conflicts with the unmerged balance of its sender. Verification rejects the block or the process aborts.
  A proposer that builds a block from so many transactions gets one that changes nothing and has no receipts.\<close>

theorem large_blocks_never_accepted:
  assumes "quantum_parallel_threshold config < length (blk_txs b)" "QUANTUM_PARALLEL_THRESHOLD < length (blk_txs b)"
    and "verify_signatures config" "0 < hd_base_fee (blk_header b)" "balances_ok (balances st)" "exec_wealth st < 2 ^ 64 - 1"
  shows "verify_block L sip env mc st b prop max_gas config \<in> {None, Some (mc, None)} \<and>
    verify_block_with_vset L sip env mc st b prop expected_pk max_gas config \<in> {None, Some (mc, None)} \<and>
    (\<forall>mc1 b1 st1 rs.
       build_block L sip env now mc h r prev pk prop st (hd_base_fee (blk_header b)) (blk_txs b) max_gas config = Some (mc1, b1, st1, rs)
       \<longrightarrow> st1 = st \<and> rs = [] \<and> hd_gas_used (blk_header b1) = 0 \<and> blk_txs b1 = blk_txs b)"
proof -
  let ?x = "executor_new st prop (hd_base_fee (blk_header b)) max_gas config"
  obtain res where res: "execute_batch_parallel env ?x (blk_txs b) = (?x, res)" "\<not> is_ok res"
    using parallel_batch_fails [of "blk_txs b" ?x env] assms(2-6) by (auto simp: executor_new_def)
  then have run: "run_txs env config ?x (blk_txs b) = (?x, res)" using assms(1) by (simp add: run_txs_def)
  have v: "verify_block L sip env mc st b prop max_gas config \<in> {None, Some (mc, None)}"
    using run res(2) by (cases res) (simp_all add: verify_block_def Let_def)
  moreover have "verify_block_with_vset L sip env mc st b prop expected_pk max_gas config \<in> {None, Some (mc, None)}"
    using v by (simp add: verify_block_with_vset_def)
  ultimately show ?thesis
    using run by (auto simp: build_block_def executor_new_def Let_def split: if_splits prod.splits option.splits)
qed

theorem large_blocks_never_accepted_witness:
  "\<exists>b. length (blk_txs b) = 17 \<and> hd_base_fee (blk_header b) = 1 \<and>
     verify_block (lru_list_ops :: (u64, digest) lru_list root_lru) (\<lambda>_. 0) demo_env (merkle_cache_new lru_list_ops 8 True) demo_app b ''p'' 0
       exec_config_default \<in> {None, Some (merkle_cache_new lru_list_ops 8 True, None)}"
proof -
  let ?L = "lru_list_ops :: (u64, digest) lru_list root_lru"
  let ?b = "\<lparr>blk_header = \<lparr>hd_height = 1, hd_round = 0, hd_prev = [], hd_proposer_pk = replicate 32 3,
      hd_tx_root = tx_root (ex_hash (demo_env :: unit exec_env)) (replicate 17 demo_tx), hd_receipts_root = [], hd_state_root = [], hd_base_fee = 1,
      hd_gas_used = 0, hd_intrinsic_gas = 0, hd_exec_gas = 0, hd_vm_gas = 0, hd_evm_gas = 0, hd_chain_id = DEFAULT_CHAIN_ID, hd_timestamp = 7,
      hd_protocol_version = 1\<rparr>, blk_txs = replicate 17 demo_tx\<rparr>"
  have len: "quantum_parallel_threshold exec_config_default < length (blk_txs ?b)" "QUANTUM_PARALLEL_THRESHOLD < length (blk_txs ?b)"
    "verify_signatures exec_config_default" "0 < hd_base_fee (blk_header ?b)"
    by (simp_all add: exec_config_default_def QUANTUM_PARALLEL_THRESHOLD_def)
  have w: "exec_wealth demo_app < 2 ^ 64 - 1" by (simp add: demo_app_ok)
  have "verify_block ?L (\<lambda>_. 0) demo_env (merkle_cache_new ?L 8 True) demo_app ?b ''p'' 0 exec_config_default
      \<in> {None, Some (merkle_cache_new ?L 8 True, None)}"
    by (rule large_blocks_never_accepted [OF len demo_app_ok(1) w, THEN conjunct1])
  then show ?thesis by (intro exI [of _ ?b]) simp
qed

subsection \<open>What a state root determines\<close>

lemma bt_extend_wf: "bt_wf m \<Longrightarrow> bt_wf (bt_extend m xs)"
  unfolding bt_extend_def by (induction xs arbitrary: m) (simp_all add: case_prod_beta bt_wf_insert)

lemma set_bt_extend:
  assumes "bt_wf m" "distinct (map fst xs)" "fst ` set m \<inter> fst ` set xs = {}"
  shows "set (bt_extend m xs) = set m \<union> set xs"
  using assms
proof (induction xs arbitrary: m)
  case (Cons x xs)
  obtain k v where x: "x = (k, v)" by fastforce
  have "{y \<in> set m. fst y \<noteq> k} = set m" using Cons.prems(3) x by auto
  then have s: "set (bt_insert k v m) = insert (k, v) (set m)" using set_bt_insert [OF Cons.prems(1)] by simp
  have "set (bt_extend (bt_insert k v m) xs) = set (bt_insert k v m) \<union> set xs"
    by (rule Cons.IH) (use Cons.prems x in \<open>auto simp: bt_wf_insert\<close>)
  then show ?case using s x by (simp add: bt_extend_def)
qed (simp add: bt_extend_def)

lemma bt_eq_by_set:
  assumes "bt_wf m" "bt_wf m'" "set m = set m'"
  shows "m = m'"
proof (rule map_sorted_distinct_set_unique [where f = fst])
  have d: "distinct (map fst x)" "sorted (map fst x)" if "bt_wf x" for x :: "('a, 'b) btree"
    using that by (auto simp: bt_wf_def strict_sorted_iff)
  show "distinct (map fst m)" "sorted (map fst m)" "distinct (map fst m')" "sorted (map fst m')" using d assms by auto
  show "inj_on fst (set m \<union> set m')" using d(1) [OF assms(1)] assms(3) by (simp add: distinct_map)
qed (rule assms(3))

definition state_wf :: "'c app_state \<Rightarrow> bool" where
  "state_wf st \<longleftrightarrow> bt_wf (kv st) \<and> bt_wf (balances st) \<and> bt_wf (nonces st) \<and> bt_wf (storage (vm st)) \<and> bt_wf (code (vm st))"

definition hex_ok :: "(byte list \<Rightarrow> string) \<Rightarrow> bool" where
  \<comment> \<open>\<open>hex::encode\<close> is injective and prints no colon\<close>
  "hex_ok hex \<longleftrightarrow> inj hex \<and> (\<forall>x. CHR '':'' \<notin> set (hex x))"

lemma storage_key_eq:
  assumes "hex_ok hex"
  shows "hex c @ CHR '':'' # hex s = hex c' @ CHR '':'' # hex s' \<longleftrightarrow> c = c' \<and> s = s'"
  using assms split_at_colon [of "CHR '':''" "hex c" "hex c'" "hex s" "hex s'"] by (auto simp: hex_ok_def inj_eq)

lemma root_entries_mem:
  assumes "hex_ok hex"
  shows "(''kv:'' @ k, v) \<in> set (root_entries hex S st) \<longleftrightarrow> (k, v) \<in> set (kv st)"
    and "(''bal:'' @ k, decimal n) \<in> set (root_entries hex S st) \<longleftrightarrow> (k, n) \<in> set (balances st)"
    and "(''nonce:'' @ k, decimal n) \<in> set (root_entries hex S st) \<longleftrightarrow> (k, n) \<in> set (nonces st)"
    and "(''burned'', decimal n) \<in> set (root_entries hex S st) \<longleftrightarrow> n = burned st"
    and "(''vm_storage:'' @ hex c @ '':'' @ hex s, hex w) \<in> set (root_entries hex S st) \<longleftrightarrow> ((c, s), w) \<in> set (storage (vm st))"
    and "(''vm_code:'' @ hex c, hex d) \<in> set (root_entries hex S st) \<longleftrightarrow> (\<exists>cd. (c, cd) \<in> set (code (vm st)) \<and> d = S cd)"
proof -
  have h: "hex x = hex y \<longleftrightarrow> x = y" for x y using assms by (simp add: hex_ok_def inj_eq)
  have d: "decimal m = decimal n \<longleftrightarrow> m = n" for m n using decimal_inj by blast
  note key = storage_key_eq [OF assms]
  show "(''kv:'' @ k, v) \<in> set (root_entries hex S st) \<longleftrightarrow> (k, v) \<in> set (kv st)"
    by (auto simp: root_entries_def image_iff split: prod.splits)
  show "(''bal:'' @ k, decimal n) \<in> set (root_entries hex S st) \<longleftrightarrow> (k, n) \<in> set (balances st)"
    by (auto simp: root_entries_def image_iff d split: prod.splits)
  show "(''nonce:'' @ k, decimal n) \<in> set (root_entries hex S st) \<longleftrightarrow> (k, n) \<in> set (nonces st)"
    by (auto simp: root_entries_def image_iff d split: prod.splits)
  show "(''burned'', decimal n) \<in> set (root_entries hex S st) \<longleftrightarrow> n = burned st"
    by (auto simp: root_entries_def image_iff d split: prod.splits)
  show "(''vm_storage:'' @ hex c @ '':'' @ hex s, hex w) \<in> set (root_entries hex S st) \<longleftrightarrow> ((c, s), w) \<in> set (storage (vm st))"
    by (auto simp: root_entries_def image_iff h key split: prod.splits) force
  show "(''vm_code:'' @ hex c, hex d) \<in> set (root_entries hex S st) \<longleftrightarrow> (\<exists>cd. (c, cd) \<in> set (code (vm st)) \<and> d = S cd)"
    by (auto simp: root_entries_def image_iff h split: prod.splits)
qed

lemma root_keys_disjoint:
  "set (map (\<lambda>k. ''kv:'' @ k) a) \<inter> set (map (\<lambda>k. ''bal:'' @ k) b @ map (\<lambda>k. ''nonce:'' @ k) n @ [''burned''] @
      map (\<lambda>(c, s). ''vm_storage:'' @ hex c @ '':'' @ hex s) e @ map (\<lambda>c. ''vm_code:'' @ hex c) f) = {}"
  "set (map (\<lambda>k. ''bal:'' @ k) b) \<inter> set (map (\<lambda>k. ''nonce:'' @ k) n @ [''burned''] @
      map (\<lambda>(c, s). ''vm_storage:'' @ hex c @ '':'' @ hex s) e @ map (\<lambda>c. ''vm_code:'' @ hex c) f) = {}"
  "set (map (\<lambda>k. ''nonce:'' @ k) n) \<inter> set ([''burned''] @
      map (\<lambda>(c, s). ''vm_storage:'' @ hex c @ '':'' @ hex s) e @ map (\<lambda>c. ''vm_code:'' @ hex c) f) = {}"
  "set [''burned''] \<inter> set (map (\<lambda>(c, s). ''vm_storage:'' @ hex c @ '':'' @ hex s) e @ map (\<lambda>c. ''vm_code:'' @ hex c) f) = {}"
  "set (map (\<lambda>(c, s). ''vm_storage:'' @ hex c @ '':'' @ hex s) e) \<inter> set (map (\<lambda>c. ''vm_code:'' @ hex c) f) = {}"
  by auto

lemma root_entries_distinct:
  assumes "state_wf st" "hex_ok hex"
  shows "distinct (map fst (root_entries hex S st))"
proof -
  have h: "hex x = hex y \<longleftrightarrow> x = y" for x y using assms(2) by (simp add: hex_ok_def inj_eq)
  note key = storage_key_eq [OF assms(2)]
  have keys: "map fst (root_entries hex S st) =
      map (\<lambda>k. ''kv:'' @ k) (map fst (kv st)) @ map (\<lambda>k. ''bal:'' @ k) (map fst (balances st)) @
      map (\<lambda>k. ''nonce:'' @ k) (map fst (nonces st)) @ [''burned''] @
      map (\<lambda>(c, s). ''vm_storage:'' @ hex c @ '':'' @ hex s) (map fst (storage (vm st))) @
      map (\<lambda>c. ''vm_code:'' @ hex c) (map fst (code (vm st)))"
    by (simp add: root_entries_def comp_def case_prod_beta)
  have d: "distinct (map fst (kv st))" "distinct (map fst (balances st))" "distinct (map fst (nonces st))"
    "distinct (map fst (storage (vm st)))" "distinct (map fst (code (vm st)))"
    using assms(1) bt_wf_distinct(2) unfolding state_wf_def by blast+
  have i: "inj_on (\<lambda>(c, s). ''vm_storage:'' @ hex c @ '':'' @ hex s) X" "inj_on (\<lambda>c. ''vm_code:'' @ hex c) Y" for X Y
    using key h by (auto simp: inj_on_def)
  have "distinct (map (\<lambda>k. ''kv:'' @ k) (map fst (kv st)))" "distinct (map (\<lambda>k. ''bal:'' @ k) (map fst (balances st)))"
    "distinct (map (\<lambda>k. ''nonce:'' @ k) (map fst (nonces st)))"
    "distinct (map (\<lambda>(c, s). ''vm_storage:'' @ hex c @ '':'' @ hex s) (map fst (storage (vm st))))"
    "distinct (map (\<lambda>c. ''vm_code:'' @ hex c) (map fst (code (vm st))))"
    using d i by (simp_all only: distinct_map) (simp_all add: inj_on_def)
  then show ?thesis unfolding keys distinct_append by (simp only: root_keys_disjoint) simp
qed

lemma set_combined:
  assumes "state_wf st" "hex_ok hex"
  shows "set (combined hex S st) = set (root_entries hex S st)"
  unfolding combined_def using set_bt_extend [of "[]" "root_entries hex S st"] root_entries_distinct [OF assms] by simp

definition root_preimages :: "'c exec_env \<Rightarrow> 'c app_state \<Rightarrow> byte list set" where
  \<comment> \<open>everything that is hashed on the way to the root of a state\<close>
  "root_preimages env st =
     kv_preimages (ex_sha env) (combined (ex_hex env) (ex_sha env) st) \<union> snd ` set (code (vm st))"

lemma root_uncached:
  assumes "\<not> mc_enabled mc"
  shows "snd (state_root L sip env mc st) = Some (kv_root (ex_sha env) (combined (ex_hex env) (ex_sha env) st))"
  using assms merkle_root_of_entries [OF combined_not_Nil, of "ex_sha env" "ex_hex env" "ex_sha env" st]
  by (simp add: state_root_def state_merkle_root_def state_merkle_root_with_config_def mc_get_def combined_not_Nil)

text \<open>C14: Computed without the cache of roots, a state root commits to the key-value store, the balances, the nonces,
  the burned fees, the contract storage and the contract code: two states with the same root agree on all
  of them, as far as SHA-256 does not collide on what is hashed. It says nothing of the nonces and
  balances of contracts, which are part of the VM storage and are not hashed.\<close>

theorem state_root_binding:
  assumes "state_wf st" "state_wf st'" "hex_ok (ex_hex env)" "\<And>x. length (ex_sha env x) = 32"
    and "entries_in_range (combined (ex_hex env) (ex_sha env) st)" "entries_in_range (combined (ex_hex env) (ex_sha env) st')"
    and "inj_on (ex_sha env) (root_preimages env st \<union> root_preimages env st')" "\<not> mc_enabled mc"
    and "snd (state_root L sip env mc st) = snd (state_root L sip env mc st')"
  shows "kv st = kv st' \<and> balances st = balances st' \<and> nonces st = nonces st' \<and> burned st = burned st' \<and>
    storage (vm st) = storage (vm st') \<and> code (vm st) = code (vm st')"
proof -
  let ?S = "ex_sha env" and ?hex = "ex_hex env"
  have "kv_root ?S (combined ?hex ?S st) = kv_root ?S (combined ?hex ?S st')"
    using assms(9) unfolding root_uncached [OF assms(8)] by simp
  then have "combined ?hex ?S st = combined ?hex ?S st'"
    by (rule kv_root_binding [OF combined_not_Nil combined_not_Nil assms(5,6,4)
        inj_on_subset [OF assms(7)], rotated 1]) (auto simp: root_preimages_def)
  then have E: "set (root_entries ?hex ?S st) = set (root_entries ?hex ?S st')"
    using set_combined [OF assms(1,3)] set_combined [OF assms(2,3)] by metis
  have wf: "bt_wf (kv st)" "bt_wf (balances st)" "bt_wf (nonces st)" "bt_wf (storage (vm st))" "bt_wf (code (vm st))"
    "bt_wf (kv st')" "bt_wf (balances st')" "bt_wf (nonces st')" "bt_wf (storage (vm st'))" "bt_wf (code (vm st'))"
    using assms(1,2) by (simp_all add: state_wf_def)
  have code_inj: "cd = cd'" if "(c, cd) \<in> set (code (vm st))" "(c', cd') \<in> set (code (vm st'))" "?S cd = ?S cd'" for c c' cd cd'
    using inj_onD [OF assms(7) that(3)] that(1,2) by (force simp: root_preimages_def)
  have C: "(\<exists>cd. (c, cd) \<in> set (code (vm st)) \<and> d = ?S cd) \<longleftrightarrow> (\<exists>cd. (c, cd) \<in> set (code (vm st')) \<and> d = ?S cd)" for c d
    using root_entries_mem(6) [OF assms(3), of c d ?S st] root_entries_mem(6) [OF assms(3), of c d ?S st'] E by simp
  have "set (code (vm st)) = set (code (vm st'))"
  proof (rule set_eqI)
    fix x :: "vm_word \<times> byte list"
    obtain c cd where x: "x = (c, cd)" by fastforce
    show "x \<in> set (code (vm st)) \<longleftrightarrow> x \<in> set (code (vm st'))"
      unfolding x using C [of c "?S cd"] code_inj [of c cd] code_inj [of c _ c cd] by metis
  qed
  moreover have "set (kv st) = set (kv st')" "set (balances st) = set (balances st')" "set (nonces st) = set (nonces st')"
    using root_entries_mem(1-3) [OF assms(3), of _ _ ?S st] root_entries_mem(1-3) [OF assms(3), of _ _ ?S st'] E by auto
  moreover have "set (storage (vm st)) = set (storage (vm st'))"
    using root_entries_mem(5) [OF assms(3), of _ _ _ ?S st] root_entries_mem(5) [OF assms(3), of _ _ _ ?S st'] E by auto
  moreover have "burned st = burned st'"
    using root_entries_mem(4) [OF assms(3), of _ ?S st] root_entries_mem(4) [OF assms(3), of _ ?S st'] E by auto
  ultimately show ?thesis using wf bt_eq_by_set by metis
qed

definition demo_bare :: "(vm_word, u128) btree \<Rightarrow> unit app_state" where
  "demo_bare vb = demo_app\<lparr>kv := [], balances := [], vm := (vm demo_app)\<lparr>vm_balances := vb\<rparr>\<rparr>"

theorem state_root_binding_witness:
  "let env = demo_env\<lparr>ex_sha := demo_hash\<rparr>; L = (lru_list_ops :: (u64, digest) lru_list root_lru); c = merkle_cache_new L 8 False
   in snd (state_root L (\<lambda>_. 0) env c (demo_bare [])) = snd (state_root L (\<lambda>_. 0) env c (demo_bare [([1], 9)])) \<and>
      burned (demo_bare []) = burned (demo_bare [([1], 9)])"
proof -
  let ?env = "demo_env\<lparr>ex_sha := demo_hash\<rparr> :: unit exec_env" and ?L = "lru_list_ops :: (u64, digest) lru_list root_lru"
  have e: "combined hex_lower demo_hash (demo_bare vb) = [(''burned'', decimal 5)]" for vb
    by (simp add: combined_def root_entries_def bt_extend_def demo_bare_def demo_app_def)
  have env: "ex_sha ?env = demo_hash" "ex_hex ?env = hex_lower" by (simp_all add: demo_env_def)
  have hex: "hex_ok (ex_hex ?env)" using hex_lower_inj hex_lower_no_colon by (simp add: env hex_ok_def)
  have r: "snd (state_root ?L (\<lambda>_. 0) ?env (merkle_cache_new ?L 8 False) (demo_bare vb))
      = Some (kv_root demo_hash [(''burned'', decimal 5)])" for vb
    using root_uncached [of "merkle_cache_new ?L 8 False" ?L "\<lambda>_. 0" ?env "demo_bare vb"] e [of vb] env by (simp add: merkle_cache_new_def)
  have p: "root_preimages ?env (demo_bare vb) = {leaf_bytes (''burned'', decimal 5)}" for vb
    using e [of vb] env by (simp add: root_preimages_def kv_preimages.simps demo_bare_def demo_app_def)
  have wf: "state_wf (demo_bare vb)" for vb by (simp add: state_wf_def demo_bare_def demo_app_def)
  have rng: "entries_in_range [(''burned'', decimal 5)]" by (simp add: entries_in_range_def decimal.simps)
  have "burned (demo_bare []) = burned (demo_bare [([1], 9)])"
    using state_root_binding [of "demo_bare []" "demo_bare [([1], 9)]" ?env "merkle_cache_new ?L 8 False" ?L "\<lambda>_. 0"]
      wf hex r p e rng env by (simp add: demo_hash_def merkle_cache_new_def)
  then show ?thesis using r unfolding Let_def by simp
qed

end
