(* ===== verification/Consensus_Engine.thy ===== *)
theory Consensus_Engine
  imports Execution Double_Sign
begin

text \<open>
  The consensus state machine of \<open>src/consensus/engine.rs\<close>: \<open>Engine\<close> with its timeouts, proposals, votes,
  locks and commits, composed with the validator set, the double-sign guard and block execution.

  One record holds the engine together with what its methods are handed: the block store, the outbox
  (the list of calls made on it, in order), the process-wide cache of state roots, and a sequence \<open>n_io\<close> of
  outcomes and clock readings, of which each write to the guard file, each write to the block store and
  each built block takes the next one. The signer and the verifier, the stake ledger, the three
  arguments that the engine's calls of \<open>build_block\<close> and \<open>verify_block_with_vset\<close> leave out (here: \<open>ee_max_gas\<close> and
  \<open>ee_exec_cfg\<close>) and \<open>VoteTally\<close>, a type the sources use and do not define, are the environment
  \<open>engine_env\<close>. A hash map is listed in the order of its keys. A panic ends the process and is the result
  \<open>Panic\<close>; the floating-point scoreboard is left out.
\<close>

instantiation vote_type :: linorder
begin

definition less_vote_type :: "vote_type \<Rightarrow> vote_type \<Rightarrow> bool" where
  "less_vote_type a b \<longleftrightarrow> a = Prevote \<and> b = Precommit"

definition less_eq_vote_type :: "vote_type \<Rightarrow> vote_type \<Rightarrow> bool" where
  "less_eq_vote_type a b \<longleftrightarrow> a = Prevote \<or> b = Precommit"

instance
proof
  fix x y z :: vote_type
  show "(x < y) = (x \<le> y \<and> \<not> y \<le> x)" "x \<le> x" "x \<le> y \<or> y \<le> x"
    by (cases x; cases y; simp add: less_vote_type_def less_eq_vote_type_def)+
  show "x \<le> y \<Longrightarrow> y \<le> z \<Longrightarrow> x \<le> z" "x \<le> y \<Longrightarrow> y \<le> x \<Longrightarrow> x = y"
    by (cases x; cases y; cases z; simp add: less_eq_vote_type_def)+
qed

end

subsection \<open>Configuration and state\<close>

datatype consensus_error = BadSig | UnknownValidator | BadStep | Exec_Failed | AlreadyDecided

datatype cstep = Step_Propose | Step_Prevote | Step_Precommit | Step_Commit

record commit_certificate =
  cc_height :: height
  cc_block_id :: hash32
  cc_precommits :: "vote list"

record engine_config =
  propose_timeout_ms :: u64
  prevote_timeout_ms :: u64
  precommit_timeout_ms :: u64
  max_rounds :: u32
  max_txs_per_block :: usize
  gas_target :: u64
  initial_base_fee_per_gas :: u64
  include_block_in_proposal :: bool
  fast_quorum :: bool

definition engine_config_default :: engine_config where
  "engine_config_default =
     \<lparr>propose_timeout_ms = 300, prevote_timeout_ms = 200, precommit_timeout_ms = 200, max_rounds = 50,
      max_txs_per_block = 4096, gas_target = 43000000, initial_base_fee_per_gas = 1,
      include_block_in_proposal = True, fast_quorum = True\<rparr>"

definition engine_config_validate :: "engine_config \<Rightarrow> (string, unit) result" where
  "engine_config_validate c =
     (if propose_timeout_ms c = 0 then Err ''propose_timeout_ms must be > 0''
      else if prevote_timeout_ms c = 0 then Err ''prevote_timeout_ms must be > 0''
      else if precommit_timeout_ms c = 0 then Err ''precommit_timeout_ms must be > 0''
      else if max_rounds c = 0 then Err ''max_rounds must be > 0''
      else if max_txs_per_block c = 0 then Err ''max_txs_per_block must be > 0''
      else if gas_target c = 0 then Err ''gas_target must be > 0''
      else if initial_base_fee_per_gas c = 0 then Err ''initial_base_fee_per_gas must be > 0''
      else Ok ())"

type_synonym vote_map = "(round_no, (vote_type, (pk, vote) btree) btree) btree"

record consensus_state =
  cs_height :: height
  cs_round :: round_no
  cs_step :: cstep
  locked_round :: "round_no option"
  locked_value :: "hash32 option"
  valid_round :: "round_no option"
  valid_value :: "hash32 option"
  cs_proposal :: "block proposal option"
  proposal_block :: "block option"
  cs_votes :: vote_map
  vote_index :: "(pk \<times> height \<times> round_no \<times> vote_type, hash32 option \<times> vote) btree"
  decided :: "commit_certificate option"

definition consensus_state_new :: "height \<Rightarrow> consensus_state" where
  "consensus_state_new h =
     \<lparr>cs_height = h, cs_round = 0, cs_step = Step_Propose, locked_round = None, locked_value = None, valid_round = None,
      valid_value = None, cs_proposal = None, proposal_block = None, cs_votes = [], vote_index = [], decided = None\<rparr>"

datatype 'c out_event =
    Broadcast "block consensus_msg"
  | Request_Block hash32
  | On_Commit commit_certificate block "'c app_state" u64 "receipt list"

record ('c, 'm, 's) node =
  en_cfg :: engine_config
  en_vset :: validator_set
  en_state :: consensus_state
  prev_block_id :: hash32
  en_app :: "'c app_state"
  en_stakes :: 's
  base_fee_per_gas :: u64
  ds_guard :: "guard option"
  step_elapsed_ms :: u64
  n_store :: "(hash32, block) btree"
  n_out :: "'c out_event list"
  n_merkle :: "'m merkle_cache"
  n_io :: "nat \<Rightarrow> bool \<times> u64"
  n_pos :: nat

record ('c, 'm, 's, 't) engine_env =
  ee_exec :: "'c exec_env"
  ee_lru :: "'m root_lru"
  ee_sip :: state_hasher
  ee_exec_cfg :: exec_config
  ee_max_gas :: u64
  ee_pk :: pk
  ee_sign :: "byte list \<Rightarrow> signature"
  ee_verify :: "pk \<Rightarrow> byte list \<Rightarrow> signature \<Rightarrow> bool"
  ee_guard_env :: guard_env
  ee_apply_evidence :: "'s \<Rightarrow> block evidence \<Rightarrow> height \<Rightarrow> 's"
  ee_tally_new :: 't
  ee_tally_add :: "'t \<Rightarrow> validator_set \<Rightarrow> pk \<Rightarrow> hash32 option \<Rightarrow> 't"
  ee_tally_best :: "'t \<Rightarrow> (hash32 option \<times> u64) option"

definition engine_new ::
  "engine_config \<Rightarrow> validator_set \<Rightarrow> height \<Rightarrow> hash32 \<Rightarrow> 'c app_state \<Rightarrow> 's \<Rightarrow> guard option
    \<Rightarrow> 'm merkle_cache \<Rightarrow> (nat \<Rightarrow> bool \<times> u64) \<Rightarrow> ('c, 'm, 's) node" where
  "engine_new cfg vset h prev app st g mc io =
     \<lparr>en_cfg = cfg, en_vset = vset, en_state = consensus_state_new h, prev_block_id = prev, en_app = app, en_stakes = st,
      base_fee_per_gas = initial_base_fee_per_gas cfg, ds_guard = g, step_elapsed_ms = 0,
      n_store = [], n_out = [], n_merkle = mc, n_io = io, n_pos = 0\<rparr>"

subsection \<open>Helpers\<close>

type_synonym ('c, 'm, 's) step_result = "('c, 'm, 's) node \<times> (consensus_error, unit) result"

definition is_decided :: "('c, 'm, 's) node \<Rightarrow> bool" where
  "is_decided n = (decided (en_state n) \<noteq> None)"

definition is_proposer :: "('c, 'm, 's) node \<Rightarrow> pk \<Rightarrow> bool option" where
  "is_proposer n k =
     (case proposer_for (en_vset n) (cs_height (en_state n)) (cs_round (en_state n)) of
        Ok v \<Rightarrow> Some (v_pk v = k)
      | _ \<Rightarrow> None)"

definition proposer_addr_string :: "('c, 'm, 's, 't) engine_env \<Rightarrow> pk \<Rightarrow> string" where
  "proposer_addr_string env k = ex_hex (ee_exec env) (take 20 (ex_hash (ee_exec env) k))"

definition eng_block_id :: "('c, 'm, 's, 't) engine_env \<Rightarrow> block \<Rightarrow> hash32" where
  "eng_block_id env b = block_id (ex_hash (ee_exec env)) b"

definition store_put :: "('c, 'm, 's, 't) engine_env \<Rightarrow> block \<Rightarrow> ('c, 'm, 's) node \<Rightarrow> ('c, 'm, 's) node" where
  \<comment> \<open>\<open>BlockStore::put\<close>, which returns nothing: \<open>FsBlockStore\<close> only logs a failure to write\<close>
  "store_put env b n =
     n\<lparr>n_store := (if fst (n_io n (n_pos n)) then bt_insert (eng_block_id env b) b (n_store n) else n_store n), n_pos := Suc (n_pos n)\<rparr>"

definition emit :: "'c out_event \<Rightarrow> ('c, 'm, 's) node \<Rightarrow> ('c, 'm, 's) node" where
  "emit e n = n\<lparr>n_out := n_out n @ [e]\<rparr>"

definition enter_step :: "cstep \<Rightarrow> ('c, 'm, 's) node \<Rightarrow> ('c, 'm, 's) node" where
  "enter_step s n = n\<lparr>en_state := (en_state n)\<lparr>cs_step := s\<rparr>, step_elapsed_ms := 0\<rparr>"

definition eng_build_block ::
  "('c, 'm, 's, 't) engine_env \<Rightarrow> ('c, 'm, 's) node \<Rightarrow> tx list \<Rightarrow> (block \<times> ('c, 'm, 's) node) option" where
  \<comment> \<open>the call of \<open>build_block\<close> in \<open>maybe_propose\<close>; it reads the clock\<close>
  "eng_build_block env n txs =
     (case build_block (ee_lru env) (ee_sip env) (ee_exec env) (snd (n_io n (n_pos n))) (n_merkle n)
        (cs_height (en_state n)) (cs_round (en_state n)) (prev_block_id n) (ee_pk env) (proposer_addr_string env (ee_pk env))
        (en_app n) (base_fee_per_gas n) txs (ee_max_gas env) (ee_exec_cfg env) of
        None \<Rightarrow> None
      | Some (mc, b, _) \<Rightarrow> Some (b, n\<lparr>n_merkle := mc, n_pos := Suc (n_pos n)\<rparr>))"

definition eng_verify_block ::
  "('c, 'm, 's, 't) engine_env \<Rightarrow> ('c, 'm, 's) node \<Rightarrow> block \<Rightarrow> pk \<Rightarrow> pk
    \<Rightarrow> (('c app_state \<times> receipt list) option \<times> ('c, 'm, 's) node) option" where
  "eng_verify_block env n b proposer_pk expected =
     (case verify_block_with_vset (ee_lru env) (ee_sip env) (ee_exec env) (n_merkle n) (en_app n) b
        (proposer_addr_string env proposer_pk) expected (ee_max_gas env) (ee_exec_cfg env) of
        None \<Rightarrow> None
      | Some (mc, v) \<Rightarrow> Some (v, n\<lparr>n_merkle := mc\<rparr>))"

subsection \<open>Signing under the guard\<close>

definition guard_vote ::
  "('c, 'm, 's, 't) engine_env \<Rightarrow> ('c, 'm, 's) node \<Rightarrow> vote_type \<Rightarrow> hash32 option \<Rightarrow> ('c, 'm, 's) node \<times> bool" where
  \<comment> \<open>check, then record; whether the vote may be signed\<close>
  "guard_vote env n vt bid =
     (case ds_guard n of
        None \<Rightarrow> (n, True)
      | Some g \<Rightarrow>
          (let hex = ex_hex (ee_exec env); h = cs_height (en_state n); r = cs_round (en_state n);
               (g1, c) = check_vote hex g vt h r bid
           in if \<not> is_ok c then (n\<lparr>ds_guard := Some g1\<rparr>, False)
              else let (io, now) = n_io n (n_pos n);
                       (g2, d) = record_vote hex (ee_guard_env env) io now g1 vt h r bid
                   in (n\<lparr>ds_guard := Some g2, n_pos := Suc (n_pos n)\<rparr>, is_ok d)))"

definition guard_proposal ::
  "('c, 'm, 's, 't) engine_env \<Rightarrow> ('c, 'm, 's) node \<Rightarrow> hash32 \<Rightarrow> ('c, 'm, 's) node \<times> bool" where
  "guard_proposal env n bid =
     (case ds_guard n of
        None \<Rightarrow> (n, True)
      | Some g \<Rightarrow>
          (let hex = ex_hex (ee_exec env); h = cs_height (en_state n); r = cs_round (en_state n);
               (g1, c) = check_proposal hex g h r bid
           in if \<not> is_ok c then (n\<lparr>ds_guard := Some g1\<rparr>, False)
              else let (io, now) = n_io n (n_pos n);
                       (g2, d) = record_proposal hex (ee_guard_env env) io now g1 h r bid
                   in (n\<lparr>ds_guard := Some g2, n_pos := Suc (n_pos n)\<rparr>, is_ok d)))"

definition broadcast_vote ::
  "('c, 'm, 's, 't) engine_env \<Rightarrow> ('c, 'm, 's) node \<Rightarrow> vote_type \<Rightarrow> hash32 option \<Rightarrow> ('c, 'm, 's) node" where
  "broadcast_vote env n vt bid =
     (if decided (en_state n) \<noteq> None then n
      else let (n1, ok) = guard_vote env n vt bid in
        if \<not> ok then n1
        else let h = cs_height (en_state n); r = cs_round (en_state n) in
          emit (Broadcast (Msg_Vote
            \<lparr>vote_type = vt, vote_height = h, vote_round = r, voter = ee_pk env, vote_block = bid,
             vote_signature = ee_sign env (vote_sign_bytes vt h r bid)\<rparr>)) n1)"

subsection \<open>Proposing\<close>

definition maybe_propose ::
  "('c, 'm, 's, 't) engine_env \<Rightarrow> (usize \<Rightarrow> tx list) \<Rightarrow> ('c, 'm, 's) node \<Rightarrow> ('c, 'm, 's) step_result" where
  "maybe_propose env mempool_drain n =
     (if cs_proposal (en_state n) \<noteq> None then (n, Ok ())
      else case is_proposer n (ee_pk env) of
        None \<Rightarrow> (n, Panic)
      | Some False \<Rightarrow> (n, Ok ())
      | Some True \<Rightarrow>
          (case eng_build_block env n (mempool_drain (max_txs_per_block (en_cfg n))) of
             None \<Rightarrow> (n, Panic)
           | Some (b, n1) \<Rightarrow>
               (let bid = eng_block_id env b; (n2, ok) = guard_proposal env n1 bid in
                if \<not> ok then (n2, Ok ())
                else let st = en_state n;
                         prop = \<lparr>prop_height = cs_height st, prop_round = cs_round st, proposer = ee_pk env, prop_block_id = bid,
                           prop_block = (if include_block_in_proposal (en_cfg n) then Some b else None),
                           pol_round = valid_round st,
                           prop_signature = ee_sign env (proposal_sign_bytes (cs_height st) (cs_round st) bid (valid_round st))\<rparr>;
                         n3 = store_put env b n2
                     in (emit (Broadcast (Msg_Proposal prop))
                           (n3\<lparr>en_state := (en_state n3)\<lparr>cs_proposal := Some prop, proposal_block := Some b\<rparr>\<rparr>), Ok ()))))"

definition advance_round :: "('c, 'm, 's, 't) engine_env \<Rightarrow> ('c, 'm, 's) node \<Rightarrow> ('c, 'm, 's) step_result" where
  "advance_round env n =
     (case checked_add 32 (cs_round (en_state n)) 1 of
        None \<Rightarrow> (n, Panic)
      | Some r \<Rightarrow>
          (if max_rounds (en_cfg n) \<le> r then (n, Ok ())
           else maybe_propose env (\<lambda>_. [])
             (n\<lparr>en_state := (en_state n)\<lparr>cs_round := r, cs_proposal := None, proposal_block := None, cs_step := Step_Propose\<rparr>,
                step_elapsed_ms := 0\<rparr>)))"

subsection \<open>Time\<close>

definition tick ::
  "('c, 'm, 's, 't) engine_env \<Rightarrow> u64 \<Rightarrow> (usize \<Rightarrow> tx list) \<Rightarrow> ('c, 'm, 's) node \<Rightarrow> ('c, 'm, 's) step_result" where
  "tick env dt mempool_drain n0 =
     (if decided (en_state n0) \<noteq> None then (n0, Ok ())
      else let n = n0\<lparr>step_elapsed_ms := saturating_add 64 (step_elapsed_ms n0) dt\<rparr> in
        case cs_step (en_state n) of
          Step_Propose \<Rightarrow>
            (let (n1, r) = (if step_elapsed_ms n = dt \<and> cs_proposal (en_state n) = None
                            then maybe_propose env mempool_drain n else (n, Ok ()))
             in if r \<noteq> Ok () then (n1, r)
                else let st = en_state n1;
                         has_valid_proposal = (fast_quorum (en_cfg n1) \<and> cs_proposal st \<noteq> None \<and> proposal_block st \<noteq> None)
                     in if has_valid_proposal \<or> propose_timeout_ms (en_cfg n1) \<le> step_elapsed_ms n1
                        then (broadcast_vote env (enter_step Step_Prevote n1) Prevote
                                (if has_valid_proposal then map_option prop_block_id (cs_proposal st) else None), Ok ())
                        else (n1, Ok ()))
        | Step_Prevote \<Rightarrow>
            (if prevote_timeout_ms (en_cfg n) \<le> step_elapsed_ms n then advance_round env n else (n, Ok ()))
        | Step_Precommit \<Rightarrow>
            (if precommit_timeout_ms (en_cfg n) \<le> step_elapsed_ms n then advance_round env n else (n, Ok ()))
        | Step_Commit \<Rightarrow> (n, Ok ()))"

subsection \<open>Messages\<close>

definition verify_proposal :: "('c, 'm, 's, 't) engine_env \<Rightarrow> ('c, 'm, 's) node \<Rightarrow> block proposal \<Rightarrow> (consensus_error, unit) result" where
  "verify_proposal env n p =
     (if \<not> vs_contains (en_vset n) (proposer p) then Err UnknownValidator
      else case proposer_for (en_vset n) (prop_height p) (prop_round p) of
        Ok v \<Rightarrow>
          (if v_pk v \<noteq> proposer p then Err UnknownValidator
           else if prop_height p \<noteq> cs_height (en_state n) \<or> prop_round p \<noteq> cs_round (en_state n) then Err BadStep
           else if ee_verify env (proposer p) (proposal_sign_bytes (prop_height p) (prop_round p) (prop_block_id p) (pol_round p)) (prop_signature p)
           then Ok () else Err BadSig)
      | _ \<Rightarrow> Panic)"

definition verify_vote :: "('c, 'm, 's, 't) engine_env \<Rightarrow> ('c, 'm, 's) node \<Rightarrow> vote \<Rightarrow> (consensus_error, unit) result" where
  "verify_vote env n v =
     (if \<not> vs_contains (en_vset n) (voter v) then Err UnknownValidator
      else if vote_height v \<noteq> cs_height (en_state n) \<or> vote_round v \<noteq> cs_round (en_state n) then Err BadStep
      else if ee_verify env (voter v) (vote_sign_bytes (vote_type v) (vote_height v) (vote_round v) (vote_block v)) (vote_signature v)
      then Ok () else Err BadSig)"

definition prevote_choice :: "consensus_state \<Rightarrow> hash32 \<Rightarrow> hash32 option" where
  "prevote_choice st proposal_id =
     (case locked_value st of
        Some locked \<Rightarrow> if locked \<noteq> proposal_id then None else Some proposal_id
      | None \<Rightarrow> Some proposal_id)"

definition on_proposal :: "('c, 'm, 's, 't) engine_env \<Rightarrow> ('c, 'm, 's) node \<Rightarrow> block proposal \<Rightarrow> ('c, 'm, 's) step_result" where
  "on_proposal env n p =
     (if decided (en_state n) \<noteq> None then (n, Ok ())
      else case verify_proposal env n p of
        Err e \<Rightarrow> (n, Err e)
      | Panic \<Rightarrow> (n, Panic)
      | Ok _ \<Rightarrow>
          (let n1 = (case prop_block p of Some b \<Rightarrow> store_put env b n | None \<Rightarrow> n) in
           case bt_get (n_store n1) (prop_block_id p) of
             None \<Rightarrow>
               (let n2 = broadcast_vote env (enter_step Step_Prevote (emit (Request_Block (prop_block_id p)) n1)) Prevote None
                in (n2\<lparr>en_state := (en_state n2)\<lparr>cs_proposal := Some p, proposal_block := None\<rparr>\<rparr>, Ok ()))
           | Some b \<Rightarrow>
               (case eng_verify_block env n1 b (proposer p) (proposer p) of
                  None \<Rightarrow> (n1, Panic)
                | Some (None, n2) \<Rightarrow> (broadcast_vote env (enter_step Step_Prevote n2) Prevote None, Ok ())
                | Some (Some _, n2) \<Rightarrow>
                    (let n3 = enter_step Step_Prevote (n2\<lparr>en_state := (en_state n2)\<lparr>cs_proposal := Some p, proposal_block := Some b\<rparr>\<rparr>)
                     in (broadcast_vote env n3 Prevote (prevote_choice (en_state n3) (prop_block_id p)), Ok ())))))"

definition record_vote_and_detect_evidence :: "consensus_state \<Rightarrow> vote \<Rightarrow> consensus_state \<times> block evidence option" where
  "record_vote_and_detect_evidence st v =
     (let key = (voter v, vote_height v, vote_round v, vote_type v) in
      case bt_get (vote_index st) key of
        Some (prev_bid, prev_vote) \<Rightarrow>
          (if prev_bid \<noteq> vote_block v
           then (st, Some (DoubleVote (voter v) (vote_height v) (vote_round v) (vote_type v) prev_bid (vote_block v) prev_vote v))
           else (st, None))
      | None \<Rightarrow> (st\<lparr>vote_index := bt_insert key (vote_block v, v) (vote_index st)\<rparr>, None))"

definition votes_at :: "vote_map \<Rightarrow> round_no \<Rightarrow> vote_type \<Rightarrow> (pk, vote) btree option" where
  "votes_at m r vt = Option.bind (bt_get m r) (\<lambda>rt. bt_get rt vt)"

definition store_vote :: "vote_map \<Rightarrow> vote \<Rightarrow> vote_map" where
  \<comment> \<open>\<open>entry(round).or_default().entry(vote_type).or_default().insert(voter, vote)\<close>\<close>
  "store_vote m v =
     (let rt = (case bt_get m (vote_round v) of Some x \<Rightarrow> x | None \<Rightarrow> []);
          vs = (case bt_get rt (vote_type v) of Some x \<Rightarrow> x | None \<Rightarrow> [])
      in bt_insert (vote_round v) (bt_insert (vote_type v) (bt_insert (voter v) v vs) rt) m)"

definition tally :: "('c, 'm, 's, 't) engine_env \<Rightarrow> ('c, 'm, 's) node \<Rightarrow> round_no \<Rightarrow> vote_type \<Rightarrow> (hash32 option \<times> u64) option" where
  "tally env n r vt =
     (case votes_at (cs_votes (en_state n)) r vt of
        None \<Rightarrow> None
      | Some vs \<Rightarrow>
          ee_tally_best env (foldl (\<lambda>t (k, v). ee_tally_add env t (en_vset n) k (vote_block v)) (ee_tally_new env) vs))"

definition collect_votes :: "vote_map \<Rightarrow> round_no \<Rightarrow> vote_type \<Rightarrow> hash32 option \<Rightarrow> vote list" where
  "collect_votes m r vt target =
     (case votes_at m r vt of
        None \<Rightarrow> []
      | Some vs \<Rightarrow> filter (\<lambda>v. vote_block v = target) (map snd vs))"

definition on_prevote_quorum :: "('c, 'm, 's, 't) engine_env \<Rightarrow> ('c, 'm, 's) node \<Rightarrow> hash32 option \<Rightarrow> ('c, 'm, 's) step_result" where
  "on_prevote_quorum env n bid_opt =
     (case bid_opt of
        Some bid \<Rightarrow>
          (let st = en_state n;
               n1 = enter_step Step_Precommit (n\<lparr>en_state :=
                 st\<lparr>valid_round := Some (cs_round st), valid_value := Some bid, locked_round := Some (cs_round st), locked_value := Some bid\<rparr>\<rparr>)
           in (broadcast_vote env n1 Precommit (Some bid), Ok ()))
      | None \<Rightarrow> advance_round env n)"

definition on_precommit_quorum ::
  "('c, 'm, 's, 't) engine_env \<Rightarrow> ('c, 'm, 's) node \<Rightarrow> hash32 option \<Rightarrow> round_no \<Rightarrow> ('c, 'm, 's) step_result" where
  "on_precommit_quorum env n bid_opt r =
     (case bid_opt of
        None \<Rightarrow> advance_round env n
      | Some bid \<Rightarrow>
          (case bt_get (n_store n) bid of
             None \<Rightarrow> (emit (Request_Block bid) n, Ok ())
           | Some b \<Rightarrow>
               (case proposer_for (en_vset n) (cs_height (en_state n)) r of
                  Ok expected \<Rightarrow>
                    (case eng_verify_block env n b (hd_proposer_pk (blk_header b)) (v_pk expected) of
                       None \<Rightarrow> (n, Panic)
                     | Some (None, n1) \<Rightarrow> (n1, Err Exec_Failed)
                     | Some (Some (new_app, receipts), n1) \<Rightarrow>
                         (let st = en_state n1;
                              cert = \<lparr>cc_height = cs_height st, cc_block_id = bid,
                                cc_precommits = collect_votes (cs_votes st) r Precommit (Some bid)\<rparr>
                          in case next_base_fee (base_fee_per_gas n1) (hd_gas_used (blk_header b)) (gas_target (en_cfg n1)) of
                               None \<Rightarrow> (n1, Panic)
                             | Some new_base \<Rightarrow>
                                 (emit (On_Commit cert b new_app new_base receipts)
                                    (n1\<lparr>en_state := st\<lparr>decided := Some cert, cs_step := Step_Commit\<rparr>, step_elapsed_ms := 0,
                                        en_app := new_app, prev_block_id := bid, base_fee_per_gas := new_base\<rparr>), Ok ())))
                | _ \<Rightarrow> (n, Panic))))"

definition accept_vote :: "('c, 'm, 's, 't) engine_env \<Rightarrow> ('c, 'm, 's) node \<Rightarrow> vote \<Rightarrow> ('c, 'm, 's) node" where
  \<comment> \<open>the first half of \<open>on_vote\<close>: evidence, then the vote maps\<close>
  "accept_vote env n v =
     (let (st, ev) = record_vote_and_detect_evidence (en_state n) v;
          n1 = n\<lparr>en_state := st\<rparr>;
          n2 = (case ev of
                  None \<Rightarrow> n1
                | Some e \<Rightarrow> emit (Broadcast (Msg_Evidence e)) (n1\<lparr>en_stakes := ee_apply_evidence env (en_stakes n1) e (cs_height st)\<rparr>))
      in n2\<lparr>en_state := (en_state n2)\<lparr>cs_votes := store_vote (cs_votes (en_state n2)) v\<rparr>\<rparr>)"

definition on_vote :: "('c, 'm, 's, 't) engine_env \<Rightarrow> ('c, 'm, 's) node \<Rightarrow> vote \<Rightarrow> ('c, 'm, 's) step_result" where
  "on_vote env n v =
     (if decided (en_state n) \<noteq> None then (n, Ok ())
      else case verify_vote env n v of
        Err e \<Rightarrow> (n, Err e)
      | Panic \<Rightarrow> (n, Panic)
      | Ok _ \<Rightarrow>
          (let n1 = accept_vote env n v in
           if cs_step (en_state n1) = (case vote_type v of Prevote \<Rightarrow> Step_Prevote | Precommit \<Rightarrow> Step_Precommit)
           then case tally env n1 (vote_round v) (vote_type v) of
                  None \<Rightarrow> (n1, Ok ())
                | Some (bid_opt, pow) \<Rightarrow>
                    (case quorum_threshold (total_power (en_vset n1)) of
                       None \<Rightarrow> (n1, Panic)
                     | Some q \<Rightarrow>
                         (if q \<le> pow
                          then case vote_type v of
                                 Prevote \<Rightarrow> on_prevote_quorum env n1 bid_opt
                               | Precommit \<Rightarrow> on_precommit_quorum env n1 bid_opt (vote_round v)
                          else (n1, Ok ())))
           else (n1, Ok ())))"

definition on_message :: "('c, 'm, 's, 't) engine_env \<Rightarrow> ('c, 'm, 's) node \<Rightarrow> block consensus_msg \<Rightarrow> ('c, 'm, 's) step_result" where
  "on_message env n msg =
     (case msg of
        Msg_Proposal p \<Rightarrow> on_proposal env n p
      | Msg_Vote v \<Rightarrow> on_vote env n v
      | Msg_Evidence ev \<Rightarrow> (n\<lparr>en_stakes := ee_apply_evidence env (en_stakes n) ev (cs_height (en_state n))\<rparr>, Ok ()))"

definition on_block_received :: "('c, 'm, 's, 't) engine_env \<Rightarrow> ('c, 'm, 's) node \<Rightarrow> block \<Rightarrow> ('c, 'm, 's) step_result" where
  "on_block_received env n b =
     (let n1 = store_put env b n in
      case cs_proposal (en_state n1) of
        None \<Rightarrow> (n1, Ok ())
      | Some prop \<Rightarrow>
          (if prop_block_id prop = eng_block_id env b \<and> proposal_block (en_state n1) = None
           then let n2 = n1\<lparr>en_state := (en_state n1)\<lparr>proposal_block := Some b\<rparr>\<rparr>
                in if cs_step (en_state n2) = Step_Prevote
                   then (broadcast_vote env n2 Prevote (prevote_choice (en_state n2) (prop_block_id prop)), Ok ())
                   else (n2, Ok ())
           else (n1, Ok ())))"

definition next_height :: "('c, 'm, 's, 't) engine_env \<Rightarrow> ('c, 'm, 's) node \<Rightarrow> ('c, 'm, 's) step_result" where
  "next_height env n =
     (if decided (en_state n) = None then (n, Err AlreadyDecided)
      else case checked_add 64 (cs_height (en_state n)) 1 of
        None \<Rightarrow> (n, Panic)
      | Some h \<Rightarrow> maybe_propose env (\<lambda>_. []) (n\<lparr>en_state := consensus_state_new h, step_elapsed_ms := 0\<rparr>))"

subsection \<open>Runs\<close>

text \<open>What the consensus loop calls on an engine, in any order; a panic ends the run.\<close>

datatype engine_call =
    Tick u64 "usize \<Rightarrow> tx list"
  | Message "block consensus_msg"
  | Block_Received block
  | Next_Height

definition do_call :: "('c, 'm, 's, 't) engine_env \<Rightarrow> ('c, 'm, 's) node \<Rightarrow> engine_call \<Rightarrow> ('c, 'm, 's) step_result" where
  "do_call env n c =
     (case c of
        Tick dt mempool_drain \<Rightarrow> tick env dt mempool_drain n
      | Message msg \<Rightarrow> on_message env n msg
      | Block_Received b \<Rightarrow> on_block_received env n b
      | Next_Height \<Rightarrow> next_height env n)"

inductive engine_step :: "('c, 'm, 's, 't) engine_env \<Rightarrow> ('c, 'm, 's) node \<Rightarrow> ('c, 'm, 's) node \<Rightarrow> bool" for env where
  call: "do_call env n c = (n', r) \<Longrightarrow> r \<noteq> Panic \<Longrightarrow> engine_step env n n'"

inductive engine_run :: "('c, 'm, 's, 't) engine_env \<Rightarrow> ('c, 'm, 's) node \<Rightarrow> ('c, 'm, 's) node \<Rightarrow> bool" for env where
  refl: "engine_run env n n"
| step: "engine_run env n n1 \<Longrightarrow> engine_step env n1 n2 \<Longrightarrow> engine_run env n n2"

inductive_cases engine_stepE: "engine_step env n n'"

end
