(* ===== verification/Engine_Moves.thy ===== *)
theory Engine_Moves
  imports Consensus_Engine
begin

text \<open>
  The protocol behind \<open>src/consensus/engine.rs\<close> as a relation of small moves: entering a round or a
  step, accepting a proposal or a verified vote, signing under the guard, locking on a quorum of
  prevotes, committing on a quorum of precommits, starting the next height. A move says when the
  protocol allows it and what it changes of the state, the outbox, the store and the guard. Every call
  of the engine, on every path through its handlers, is a sequence of moves, so an invariant of the
  engine has only to be checked move by move: the locale \<open>move_invariant\<close> carries it to sequences of moves.
  The argument \<open>A\<close> of the relation says which votes have arrived.
\<close>

subsection \<open>What each operation leaves alone\<close>

lemma emit_fields [simp]:
  "n_out (emit e n) = n_out n @ [e]" "ds_guard (emit e n) = ds_guard n" "en_state (emit e n) = en_state n"
  "en_vset (emit e n) = en_vset n" "en_cfg (emit e n) = en_cfg n" "n_store (emit e n) = n_store n"
  by (simp_all add: emit_def)

lemma store_put_fields [simp]:
  "n_out (store_put env b n) = n_out n" "ds_guard (store_put env b n) = ds_guard n" "en_state (store_put env b n) = en_state n"
  "en_vset (store_put env b n) = en_vset n" "en_cfg (store_put env b n) = en_cfg n"
  by (simp_all add: store_put_def)

lemma enter_step_fields [simp]:
  "n_out (enter_step s n) = n_out n" "ds_guard (enter_step s n) = ds_guard n" "en_state (enter_step s n) = (en_state n)\<lparr>cs_step := s\<rparr>"
  "en_vset (enter_step s n) = en_vset n" "en_cfg (enter_step s n) = en_cfg n" "n_store (enter_step s n) = n_store n"
  by (simp_all add: enter_step_def)

lemma guard_vote_fields [simp]:
  "n_out (fst (guard_vote env n vt b)) = n_out n" "en_state (fst (guard_vote env n vt b)) = en_state n"
  "en_vset (fst (guard_vote env n vt b)) = en_vset n" "en_cfg (fst (guard_vote env n vt b)) = en_cfg n"
  "n_store (fst (guard_vote env n vt b)) = n_store n"
  by (simp_all add: guard_vote_def Let_def case_prod_beta split: option.split)

lemma guard_proposal_fields [simp]:
  "n_out (fst (guard_proposal env n b)) = n_out n" "en_state (fst (guard_proposal env n b)) = en_state n"
  "en_vset (fst (guard_proposal env n b)) = en_vset n" "en_cfg (fst (guard_proposal env n b)) = en_cfg n"
  "n_store (fst (guard_proposal env n b)) = n_store n"
  by (simp_all add: guard_proposal_def Let_def case_prod_beta split: option.split)

lemma broadcast_vote_fields [simp]:
  "en_state (broadcast_vote env n vt b) = en_state n" "en_vset (broadcast_vote env n vt b) = en_vset n"
  "en_cfg (broadcast_vote env n vt b) = en_cfg n" "n_store (broadcast_vote env n vt b) = n_store n"
  by (simp_all add: broadcast_vote_def Let_def case_prod_beta)

subsection \<open>The moves\<close>

definition same_core :: "('c, 'm, 's) node \<Rightarrow> ('c, 'm, 's) node \<Rightarrow> bool" where
  \<comment> \<open>nothing changes but clocks, caches, the application state and the stake ledger\<close>
  "same_core n n' \<longleftrightarrow> en_cfg n' = en_cfg n \<and> en_vset n' = en_vset n \<and> en_state n' = en_state n \<and> ds_guard n' = ds_guard n \<and>
     n_store n' = n_store n \<and> n_out n' = n_out n"

definition upd_state :: "(consensus_state \<Rightarrow> consensus_state) \<Rightarrow> ('c, 'm, 's) node \<Rightarrow> ('c, 'm, 's) node" where
  "upd_state f n = n\<lparr>en_state := f (en_state n)\<rparr>"

lemma upd_state_fields [simp]:
  "n_out (upd_state f n) = n_out n" "ds_guard (upd_state f n) = ds_guard n" "en_state (upd_state f n) = f (en_state n)"
  "en_vset (upd_state f n) = en_vset n" "en_cfg (upd_state f n) = en_cfg n" "n_store (upd_state f n) = n_store n"
  by (simp_all add: upd_state_def)

definition next_round :: "consensus_state \<Rightarrow> consensus_state" where
  "next_round st = st\<lparr>cs_round := cs_round st + 1, cs_proposal := None, proposal_block := None, cs_step := Step_Propose\<rparr>"

definition lock_on :: "hash32 \<Rightarrow> consensus_state \<Rightarrow> consensus_state" where
  "lock_on bid st = st\<lparr>valid_round := Some (cs_round st), valid_value := Some bid, locked_round := Some (cs_round st), locked_value := Some bid,
     cs_step := Step_Precommit\<rparr>"

definition add_vote :: "vote \<Rightarrow> consensus_state \<Rightarrow> consensus_state" where
  "add_vote v st = (fst (record_vote_and_detect_evidence st v))\<lparr>cs_votes := store_vote (cs_votes st) v\<rparr>"

definition certificate :: "consensus_state \<Rightarrow> hash32 \<Rightarrow> commit_certificate" where
  "certificate st bid = \<lparr>cc_height = cs_height st, cc_block_id = bid, cc_precommits = collect_votes (cs_votes st) (cs_round st) Precommit (Some bid)\<rparr>"

definition has_power :: "('c, 'm, 's, 't) engine_env \<Rightarrow> ('c, 'm, 's) node \<Rightarrow> vote_type \<Rightarrow> hash32 option \<Rightarrow> bool" where
  \<comment> \<open>the votes of the current round give this value a quorum\<close>
  "has_power env n vt b \<longleftrightarrow> (\<exists>p q. tally env n (cs_round (en_state n)) vt = Some (b, p) \<and>
     quorum_threshold (total_power (en_vset n)) = Some q \<and> q \<le> p)"

inductive move :: "('c, 'm, 's, 't) engine_env \<Rightarrow> (vote \<Rightarrow> bool) \<Rightarrow> ('c, 'm, 's) node \<Rightarrow> ('c, 'm, 's) node \<Rightarrow> bool" for env A where
  internal: "same_core n n' \<Longrightarrow> move env A n n'"
| put: "move env A n (store_put env b n)"
| request: "move env A n (emit (Request_Block i) n)"
| evidence: "move env A n (emit (Broadcast (Msg_Evidence ev)) n)"
| vote: "decided (en_state n) = None \<Longrightarrow> move env A n (broadcast_vote env n vt b)"
| refused: "guard_proposal env n i = (n', ok) \<Longrightarrow> move env A n n'"
| propose: "is_proposer n (ee_pk env) = Some True \<Longrightarrow> cs_proposal (en_state n) = None \<Longrightarrow>
    guard_proposal env n (eng_block_id env b) = (n1, True) \<Longrightarrow> prop_block_id p = eng_block_id env b \<Longrightarrow>
    prop_height p = cs_height (en_state n) \<Longrightarrow> prop_round p = cs_round (en_state n) \<Longrightarrow>
    move env A n (emit (Broadcast (Msg_Proposal p)) (upd_state (\<lambda>st. st\<lparr>cs_proposal := Some p, proposal_block := Some b\<rparr>) (store_put env b n1)))"
| prevote_step: "decided (en_state n) = None \<Longrightarrow> move env A n (upd_state (\<lambda>st. st\<lparr>cs_step := Step_Prevote\<rparr>) n)"
| round: "decided (en_state n) = None \<Longrightarrow> cs_round (en_state n) + 1 < max_rounds (en_cfg n) \<Longrightarrow> move env A n (upd_state next_round n)"
| proposal: "decided (en_state n) = None \<Longrightarrow> verify_proposal env n p = Ok () \<Longrightarrow>
    (\<And>b. pb = Some b \<Longrightarrow> bt_get (n_store n) (prop_block_id p) = Some b) \<Longrightarrow>
    move env A n (upd_state (\<lambda>st. st\<lparr>cs_proposal := Some p, proposal_block := pb\<rparr>) n)"
| block: "cs_proposal (en_state n) = Some p \<Longrightarrow> prop_block_id p = eng_block_id env b \<Longrightarrow>
    move env A n (upd_state (\<lambda>st. st\<lparr>proposal_block := Some b\<rparr>) n)"
| accept: "decided (en_state n) = None \<Longrightarrow> A v \<Longrightarrow> verify_vote env n v = Ok () \<Longrightarrow> move env A n (upd_state (add_vote v) n)"
| lock: "decided (en_state n) = None \<Longrightarrow> cs_step (en_state n) = Step_Prevote \<Longrightarrow> has_power env n Prevote (Some bid) \<Longrightarrow>
    move env A n (upd_state (lock_on bid) n)"
| commit: "decided (en_state n) = None \<Longrightarrow> cs_step (en_state n) = Step_Precommit \<Longrightarrow> has_power env n Precommit (Some bid) \<Longrightarrow>
    bt_get (n_store n) bid = Some b \<Longrightarrow>
    eng_verify_block env n b (hd_proposer_pk (blk_header b)) e = Some (Some (a, rs), n1) \<Longrightarrow>
    move env A n (emit (On_Commit (certificate (en_state n) bid) b a f rs)
      (upd_state (\<lambda>st. st\<lparr>decided := Some (certificate st bid), cs_step := Step_Commit\<rparr>) n))"
| height: "decided (en_state n) \<noteq> None \<Longrightarrow> move env A n (upd_state (\<lambda>st. consensus_state_new (cs_height st + 1)) n)"

abbreviation moves :: "('c, 'm, 's, 't) engine_env \<Rightarrow> (vote \<Rightarrow> bool) \<Rightarrow> ('c, 'm, 's) node \<Rightarrow> ('c, 'm, 's) node \<Rightarrow> bool" where
  "moves env A \<equiv> (move env A)\<^sup>*\<^sup>*"

locale move_invariant =
  fixes env :: "('c, 'm, 's, 't) engine_env" and A :: "vote \<Rightarrow> bool" and I :: "('c, 'm, 's) node \<Rightarrow> bool"
  assumes kept: "move env A n n' \<Longrightarrow> I n \<Longrightarrow> I n'"
begin

lemma moves_kept: "moves env A n n' \<Longrightarrow> I n \<Longrightarrow> I n'"
  by (induction rule: rtranclp_induct) (auto intro: kept)

end

subsection \<open>Every call is a sequence of moves\<close>

lemma moves1: "move env A n n' \<Longrightarrow> moves env A n n'" by (rule r_into_rtranclp)

lemma moves_trans: "moves env A n n1 \<Longrightarrow> moves env A n1 n2 \<Longrightarrow> moves env A n n2" by (rule rtranclp_trans)

lemma moves_core: "moves env A n n1 \<Longrightarrow> same_core n1 n2 \<Longrightarrow> moves env A n n2"
  by (rule moves_trans [OF _ moves1 [OF internal]])

lemma verify_core: "eng_verify_block env n b p e = Some (v, n') \<Longrightarrow> same_core n n'"
  by (auto simp: eng_verify_block_def same_core_def split: option.splits prod.splits)

lemma build_core: "eng_build_block env n txs = Some (b, n') \<Longrightarrow> same_core n n'"
  by (auto simp: eng_build_block_def same_core_def split: option.splits prod.splits)

lemma moves_vote: "moves env A n n1 \<Longrightarrow> decided (en_state n1) = None \<Longrightarrow> moves env A n (broadcast_vote env n1 vt b)"
  by (rule moves_trans [OF _ moves1 [OF vote]])

lemma moves_prevote_step: "moves env A n n1 \<Longrightarrow> decided (en_state n1) = None \<Longrightarrow> moves env A n (enter_step Step_Prevote n1)"
  by (rule moves_core [OF moves_trans [OF _ moves1 [OF prevote_step]]]) (simp_all add: same_core_def enter_step_def)

lemma maybe_propose_moves:
  assumes r: "maybe_propose env drain n = (n', res)"
  shows "moves env A n n'"
proof (cases "cs_proposal (en_state n) = None \<and> is_proposer n (ee_pk env) = Some True")
  case True
  show ?thesis
  proof (cases "eng_build_block env n (drain (max_txs_per_block (en_cfg n)))")
    case None
    then show ?thesis using r True by (simp add: maybe_propose_def)
  next
    case (Some p)
    obtain b n1 where p: "p = (b, n1)" by fastforce
    note C = build_core [OF Some [unfolded p]]
    then have st: "en_state n1 = en_state n" "en_vset n1 = en_vset n" by (simp_all add: same_core_def)
    obtain n2 ok where q: "guard_proposal env n1 (eng_block_id env b) = (n2, ok)" by fastforce
    have "moves env A n1 n'"
    proof (cases ok)
      case False
      then have "n' = n2" using r True Some p q by (simp add: maybe_propose_def)
      then show ?thesis using refused [OF q] by (simp add: moves1)
    next
      case ok: True
      have p1: "is_proposer n1 (ee_pk env) = Some True" "cs_proposal (en_state n1) = None"
        "guard_proposal env n1 (eng_block_id env b) = (n2, True)"
        using True st q ok by (simp_all add: is_proposer_def)
      let ?st = "en_state n"
      let ?pr = "\<lparr>prop_height = cs_height ?st, prop_round = cs_round ?st, proposer = ee_pk env, prop_block_id = eng_block_id env b,
        prop_block = (if include_block_in_proposal (en_cfg n) then Some b else None), pol_round = valid_round ?st,
        prop_signature = ee_sign env (proposal_sign_bytes (cs_height ?st) (cs_round ?st) (eng_block_id env b) (valid_round ?st))\<rparr>"
      have "n' = emit (Broadcast (Msg_Proposal ?pr)) (upd_state (\<lambda>st. st\<lparr>cs_proposal := Some ?pr, proposal_block := Some b\<rparr>) (store_put env b n2))"
        using r True Some p q ok by (simp add: maybe_propose_def Let_def upd_state_def)
      then show ?thesis using propose [OF p1, of ?pr] st by (simp add: moves1)
    qed
    then show ?thesis by (rule moves_trans [OF moves1 [OF internal [OF C]]])
  qed
qed (use r in \<open>auto simp: maybe_propose_def split: option.splits if_splits\<close>)

lemma advance_round_alt:
  "advance_round env n =
     (if \<not> cs_round (en_state n) + 1 < 2 ^ 32 then (n, Panic)
      else if max_rounds (en_cfg n) \<le> cs_round (en_state n) + 1 then (n, Ok ())
      else maybe_propose env (\<lambda>_. []) ((upd_state next_round n)\<lparr>step_elapsed_ms := 0\<rparr>))"
  unfolding advance_round_def checked_add_def next_round_def upd_state_def
  by (cases "cs_round (en_state n) + 1 < 2 ^ 32") (simp_all only: if_True if_False option.case not_True_eq_False not_False_eq_True)

lemma advance_round_moves:
  assumes "decided (en_state n) = None" "advance_round env n = (n', res)"
  shows "moves env A n n'"
proof (cases "\<not> cs_round (en_state n) + 1 < 2 ^ 32 \<or> max_rounds (en_cfg n) \<le> cs_round (en_state n) + 1")
  case True
  then show ?thesis using assms(2) unfolding advance_round_alt by (auto split: if_splits)
next
  case False
  then have m: "maybe_propose env (\<lambda>_. []) ((upd_state next_round n)\<lparr>step_elapsed_ms := 0\<rparr>) = (n', res)"
    using assms(2) unfolding advance_round_alt by simp
  have "moves env A n ((upd_state next_round n)\<lparr>step_elapsed_ms := 0\<rparr>)"
    by (rule moves_core [OF moves1 [OF round]]) (use assms False in \<open>simp_all add: same_core_def\<close>)
  then show ?thesis using maybe_propose_moves [OF m] by (rule moves_trans)
qed

lemma guard_proposal_same: "guard_proposal env n b = (n', ok) \<Longrightarrow>
  n_out n' = n_out n \<and> en_state n' = en_state n \<and> en_vset n' = en_vset n \<and> en_cfg n' = en_cfg n \<and> n_store n' = n_store n"
  using guard_proposal_fields [of env n b] by simp

lemma maybe_propose_decided: "maybe_propose env drain n = (n', res) \<Longrightarrow> decided (en_state n') = decided (en_state n)"
  by (auto simp: maybe_propose_def same_core_def Let_def dest!: build_core guard_proposal_same
      split: option.splits bool.splits prod.splits if_splits)

lemma tick_moves:
  assumes r: "tick env dt drain n = (n', res)"
  shows "moves env A n n'"
proof (cases "decided (en_state n) = None")
  case True
  let ?n = "n\<lparr>step_elapsed_ms := saturating_add 64 (step_elapsed_ms n) dt\<rparr>"
  have i: "moves env A n ?n" by (rule moves1 [OF internal]) (simp add: same_core_def)
  have d: "decided (en_state ?n) = None" using True by simp
  show ?thesis
  proof (cases "cs_step (en_state n)")
    case Step_Propose
    obtain n1 q where p: "(if step_elapsed_ms ?n = dt \<and> cs_proposal (en_state ?n) = None then maybe_propose env drain ?n else (?n, Ok ())) = (n1, q)"
      by fastforce
    then have m: "moves env A n n1" and d1: "decided (en_state n1) = None"
      using moves_trans [OF i maybe_propose_moves, of drain n1 q] maybe_propose_decided [of env drain ?n n1 q] i True
      by (auto split: if_splits)
    have "moves env A n (broadcast_vote env (enter_step Step_Prevote n1) vt b)" for vt b
      by (rule moves_vote [OF moves_prevote_step [OF m d1]]) (simp add: d1)
    then show ?thesis using r True Step_Propose p m by (auto simp: tick_def Let_def split: if_splits)
  qed (use r True i moves_trans [OF i advance_round_moves [OF d]] in \<open>auto simp: tick_def Let_def split: if_splits\<close>)
qed (use r in \<open>simp add: tick_def\<close>)

lemma verify_cong:
  assumes "en_vset n' = en_vset n" "cs_height (en_state n') = cs_height (en_state n)" "cs_round (en_state n') = cs_round (en_state n)"
  shows "verify_proposal env n' p = verify_proposal env n p" "verify_vote env n' v = verify_vote env n v"
  by (simp_all only: verify_proposal_def verify_vote_def assms)

lemma on_proposal_moves:
  assumes r: "on_proposal env n p = (n', res)"
  shows "moves env A n n'"
proof (cases "decided (en_state n) = None \<and> verify_proposal env n p = Ok ()")
  case True
  define n1 where "n1 = (case prop_block p of Some b \<Rightarrow> store_put env b n | None \<Rightarrow> n)"
  have i: "moves env A n n1" by (auto simp: n1_def intro: moves1 put split: option.split)
  have same: "en_state n1 = en_state n" "en_vset n1 = en_vset n" by (simp_all add: n1_def split: option.split)
  show ?thesis
  proof (cases "bt_get (n_store n1) (prop_block_id p)")
    case None
    let ?n2 = "broadcast_vote env (enter_step Step_Prevote (emit (Request_Block (prop_block_id p)) n1)) Prevote None"
    have "moves env A n ?n2"
      by (intro moves_vote moves_prevote_step moves_trans [OF i moves1 [OF request]]) (simp_all add: same True)
    moreover have "move env A ?n2 (upd_state (\<lambda>st. st\<lparr>cs_proposal := Some p, proposal_block := None\<rparr>) ?n2)"
      by (rule proposal) (use True verify_cong(1) [of ?n2 n env p] in \<open>simp_all add: same\<close>)
    ultimately show ?thesis
      using r True None by (auto simp: on_proposal_def n1_def [symmetric] upd_state_def Let_def intro: moves_trans moves1)
  next
    case (Some b)
    show ?thesis
    proof (cases "eng_verify_block env n1 b (proposer p) (proposer p)")
      case None
      then show ?thesis using r True Some i by (auto simp: on_proposal_def n1_def [symmetric] Let_def)
    next
      case (Some q)
      obtain v n2 where q: "q = (v, n2)" by fastforce
      note core = verify_core [OF Some [unfolded q]]
      have m: "moves env A n n2" by (rule moves_core [OF i core])
      have d: "decided (en_state n2) = None" using core True same by (simp add: same_core_def)
      let ?n3 = "upd_state (\<lambda>st. st\<lparr>cs_proposal := Some p, proposal_block := Some b\<rparr>) n2"
      have "move env A n2 ?n3"
        by (rule proposal [OF d])
          (use True \<open>bt_get (n_store n1) (prop_block_id p) = Some b\<close> verify_cong(1) [of n2 n env p] core in \<open>auto simp: same same_core_def\<close>)
      then have m3: "moves env A n ?n3" using m by (blast intro: moves_trans moves1)
      have "moves env A n (broadcast_vote env (enter_step Step_Prevote n2) vt x)"
        "moves env A n (broadcast_vote env (enter_step Step_Prevote ?n3) vt x)" for vt x
        by (intro moves_vote moves_prevote_step m m3; simp add: d)+
      then show ?thesis using r True \<open>bt_get (n_store n1) (prop_block_id p) = Some b\<close> Some q
        by (auto simp: on_proposal_def n1_def [symmetric] upd_state_def Let_def split: option.splits)
    qed
  qed
qed (use r in \<open>auto simp: on_proposal_def split: result.splits if_splits\<close>)

lemma accept_vote_moves:
  assumes "decided (en_state n) = None" "A v" "verify_vote env n v = Ok ()"
  shows "moves env A n (accept_vote env n v)" "en_state (accept_vote env n v) = add_vote v (en_state n)"
    "en_vset (accept_vote env n v) = en_vset n"
proof -
  obtain st ev where e: "record_vote_and_detect_evidence (en_state n) v = (st, ev)" by fastforce
  have cs: "cs_votes st = cs_votes (en_state n)"
    using e by (auto simp: record_vote_and_detect_evidence_def Let_def split: option.splits if_splits)
  show "en_state (accept_vote env n v) = add_vote v (en_state n)" "en_vset (accept_vote env n v) = en_vset n"
    using e cs by (simp_all add: accept_vote_def add_vote_def Let_def split: option.split)
  let ?n1 = "upd_state (add_vote v) n"
  have m: "moves env A n ?n1" by (rule moves1 [OF accept [where A = A, OF assms]])
  show "moves env A n (accept_vote env n v)"
  proof (cases ev)
    case None
    then have "accept_vote env n v = ?n1" using e cs by (simp add: accept_vote_def add_vote_def upd_state_def Let_def)
    then show ?thesis using m by simp
  next
    case (Some x)
    let ?n2 = "emit (Broadcast (Msg_Evidence x)) ?n1"
    have "same_core ?n2 (accept_vote env n v)" using e cs Some by (simp add: accept_vote_def add_vote_def same_core_def Let_def)
    then show ?thesis by (rule moves_core [OF moves_trans [OF m moves1 [OF evidence]]])
  qed
qed

lemma on_prevote_quorum_moves:
  assumes d: "decided (en_state n) = None" and s: "cs_step (en_state n) = Step_Prevote" and q: "has_power env n Prevote b"
    and r: "on_prevote_quorum env n b = (n', res)"
  shows "moves env A n n'"
proof (cases b)
  case (Some bid)
  let ?n1 = "(upd_state (lock_on bid) n)\<lparr>step_elapsed_ms := 0\<rparr>"
  have "moves env A n ?n1"
    by (rule moves_core [OF moves1 [OF lock [OF d s q [unfolded Some]]]]) (simp add: same_core_def)
  then have "moves env A n (broadcast_vote env ?n1 Precommit (Some bid))" by (rule moves_vote) (simp add: d lock_on_def)
  then show ?thesis using r Some by (simp add: on_prevote_quorum_def enter_step_def upd_state_def lock_on_def Let_def)
qed (use r advance_round_moves [OF d] in \<open>simp add: on_prevote_quorum_def\<close>)

lemma on_precommit_quorum_cases:
  assumes "on_precommit_quorum env n b r = (n', res)"
  obtains (nil) "b = None" "advance_round env n = (n', res)"
  | (missing) bid where "b = Some bid" "n' = emit (Request_Block bid) n"
  | (stays) n1 where "n1 = n \<or> (\<exists>blk p e v. eng_verify_block env n blk p e = Some (v, n1))" "n' = n1"
  | (commit) bid blk e new_app receipts n1 new_base where "b = Some bid" "bt_get (n_store n) bid = Some blk"
      "eng_verify_block env n blk (hd_proposer_pk (blk_header blk)) e = Some (Some (new_app, receipts), n1)"
      "n' = emit (On_Commit \<lparr>cc_height = cs_height (en_state n1), cc_block_id = bid,
              cc_precommits = collect_votes (cs_votes (en_state n1)) r Precommit (Some bid)\<rparr> blk new_app new_base receipts)
            (n1\<lparr>en_state := (en_state n1)\<lparr>decided := Some \<lparr>cc_height = cs_height (en_state n1), cc_block_id = bid,
              cc_precommits = collect_votes (cs_votes (en_state n1)) r Precommit (Some bid)\<rparr>, cs_step := Step_Commit\<rparr>, step_elapsed_ms := 0,
              en_app := new_app, prev_block_id := bid, base_fee_per_gas := new_base\<rparr>)"
proof (cases b)
  case None
  then show ?thesis by (intro nil) (use assms in \<open>simp_all add: on_precommit_quorum_def\<close>)
next
  case (Some bid)
  note b = Some
  show ?thesis
  proof (cases "bt_get (n_store n) bid")
    case None
    then show ?thesis by (intro missing [OF b]) (use assms b in \<open>simp add: on_precommit_quorum_def\<close>)
  next
    case (Some blk)
    note blk = Some
    show ?thesis
    proof (cases "proposer_for (en_vset n) (cs_height (en_state n)) r")
      case (Ok e)
      show ?thesis
      proof (cases "eng_verify_block env n blk (hd_proposer_pk (blk_header blk)) (v_pk e)")
        case None
        then show ?thesis by (intro stays [of n]) (use assms b blk Ok in \<open>simp_all add: on_precommit_quorum_def\<close>)
      next
        case (Some q)
        obtain v n1 where q: "q = (v, n1)" by fastforce
        note eq = Some [unfolded q]
        show ?thesis
        proof (cases v)
          case None
          then show ?thesis using eq by (intro stays [of n1]) (use assms b blk Ok eq in \<open>auto simp: on_precommit_quorum_def\<close>)
        next
          case (Some w)
          obtain a rs where w: "w = (a, rs)" by fastforce
          show ?thesis
          proof (cases "next_base_fee (base_fee_per_gas n1) (hd_gas_used (blk_header blk)) (gas_target (en_cfg n1))")
            case None
            then show ?thesis using eq by (intro stays [of n1]) (use assms b blk Ok eq Some w in \<open>auto simp: on_precommit_quorum_def\<close>)
          next
            case (Some f)
            then show ?thesis
              by (intro commit [OF b blk eq [unfolded \<open>v = Some w\<close> w], of f])
                (use assms b blk Ok eq \<open>v = Some w\<close> w in \<open>simp add: on_precommit_quorum_def Let_def\<close>)
          qed
        qed
      qed
    next
      case (Err e)
      show ?thesis by (intro stays [of n]) (use assms b blk Err in \<open>simp_all add: on_precommit_quorum_def\<close>)
    next
      case Panic
      show ?thesis by (intro stays [of n]) (use assms b blk Panic in \<open>simp_all add: on_precommit_quorum_def\<close>)
    qed
  qed
qed

lemma on_precommit_quorum_moves:
  assumes d: "decided (en_state n) = None" and s: "cs_step (en_state n) = Step_Precommit" and q: "has_power env n Precommit b"
    and r: "on_precommit_quorum env n b (cs_round (en_state n)) = (n', res)"
  shows "moves env A n n'"
  using r
proof (cases rule: on_precommit_quorum_cases)
  case nil
  then show ?thesis using advance_round_moves [OF d] by blast
next
  case (missing bid)
  then show ?thesis by (simp add: moves1 request)
next
  case (stays n1)
  then show ?thesis by (auto intro: moves1 internal verify_core)
next
  case (commit bid b' e a rs n1 f)
  have st: "same_core n n1" using commit(3) by (rule verify_core)
  have "move env A n (emit (On_Commit (certificate (en_state n) bid) b' a f rs)
      (upd_state (\<lambda>st. st\<lparr>decided := Some (certificate st bid), cs_step := Step_Commit\<rparr>) n))"
    using commit(1-3) d s q by (auto intro: move.commit)
  then show ?thesis
    by (rule moves_core [OF moves1]) (use st in \<open>simp add: commit(4) same_core_def certificate_def\<close>)
qed

lemma on_vote_moves:
  assumes r: "on_vote env n v = (n', res)" and v: "A v"
  shows "moves env A n n'"
proof (cases "decided (en_state n) = None \<and> verify_vote env n v = Ok ()")
  case True
  let ?n1 = "accept_vote env n v"
  note A = accept_vote_moves [where A = A, OF conjunct1 [OF True] v conjunct2 [OF True]]
  have st: "decided (add_vote v (en_state n)) = None" "cs_round (add_vote v (en_state n)) = vote_round v"
    using True by (auto simp: add_vote_def record_vote_and_detect_evidence_def verify_vote_def Let_def split: option.splits if_splits)
  then have n1: "decided (en_state ?n1) = None" "cs_round (en_state ?n1) = vote_round v" by (simp_all add: A(2))
  have P: "moves env A n n'" if "cs_step (en_state ?n1) = Step_Prevote" "has_power env ?n1 Prevote b" "on_prevote_quorum env ?n1 b = (n', res)" for b
    using moves_trans [OF A(1) on_prevote_quorum_moves [OF n1(1) that]] .
  have C: "moves env A n n'" if "cs_step (en_state ?n1) = Step_Precommit" "has_power env ?n1 Precommit b"
      "on_precommit_quorum env ?n1 b (vote_round v) = (n', res)" for b
    using moves_trans [OF A(1) on_precommit_quorum_moves [OF n1(1) that(1,2)]] that(3) n1(2) by simp
  show ?thesis using r True A(1) P C n1(2)
    by (auto simp: on_vote_def has_power_def Let_def split: if_splits result.splits option.splits vote_type.splits)
qed (use r in \<open>auto simp: on_vote_def split: if_splits result.splits\<close>)

lemma on_block_received_moves:
  assumes r: "on_block_received env n b = (n', res)"
  shows "moves env A n n'"
proof -
  let ?n1 = "store_put env b n"
  have m: "moves env A n ?n1" by (rule moves1 [OF put])
  show ?thesis
  proof (cases "\<exists>p. cs_proposal (en_state n) = Some p \<and> prop_block_id p = eng_block_id env b \<and> proposal_block (en_state n) = None")
    case True
    let ?n2 = "upd_state (\<lambda>st. st\<lparr>proposal_block := Some b\<rparr>) ?n1"
    have m2: "moves env A n ?n2" using True by (intro moves_trans [OF m moves1]) (auto intro: block)
    have "moves env A n (broadcast_vote env ?n2 Prevote x)" for x
    proof (cases "decided (en_state ?n2) = None")
      case True
      then show ?thesis using m2 by (intro moves_vote)
    next
      case False
      then show ?thesis using m2 by (simp add: broadcast_vote_def)
    qed
    then show ?thesis using r True m2 by (auto simp: on_block_received_def upd_state_def Let_def split: if_splits)
  qed (use r m in \<open>auto simp: on_block_received_def Let_def split: option.splits if_splits\<close>)
qed

lemma next_height_moves:
  assumes r: "next_height env n = (n', res)"
  shows "moves env A n n'"
proof (cases "decided (en_state n) \<noteq> None \<and> cs_height (en_state n) + 1 < 2 ^ 64")
  case True
  let ?n1 = "(upd_state (\<lambda>st. consensus_state_new (cs_height st + 1)) n)\<lparr>step_elapsed_ms := 0\<rparr>"
  have m: "moves env A n ?n1" by (rule moves_core [OF moves1 [OF height]]) (use True in \<open>simp_all add: same_core_def\<close>)
  have c: "checked_add 64 (cs_height (en_state n)) 1 = Some (cs_height (en_state n) + 1)" using True unfolding checked_add_def by simp
  have "maybe_propose env (\<lambda>_. []) ?n1 = (n', res)" using r True unfolding next_height_def upd_state_def c by simp
  then show ?thesis by (rule moves_trans [OF m maybe_propose_moves])
next
  case False
  then show ?thesis using r unfolding next_height_def checked_add_def by (auto split: if_splits)
qed

lemma moves_stakes: "moves env A n (n\<lparr>en_stakes := x\<rparr>)"
  by (rule moves1 [OF internal]) (simp add: same_core_def)

lemma on_message_moves: "on_message env n m = (n', res) \<Longrightarrow> (\<And>v. m = Msg_Vote v \<Longrightarrow> A v) \<Longrightarrow> moves env A n n'"
  by (cases m) (auto simp: on_message_def intro: on_proposal_moves on_vote_moves moves_stakes)

lemma do_call_moves: "do_call env n c = (n', res) \<Longrightarrow> (\<And>v. c = Message (Msg_Vote v) \<Longrightarrow> A v) \<Longrightarrow> moves env A n n'"
  by (auto simp: do_call_def split: engine_call.splits intro: tick_moves on_message_moves on_block_received_moves next_height_moves)

lemma run_moves: "engine_run env n n' \<Longrightarrow> moves env (\<lambda>_. True) n n'"
  by (induction rule: engine_run.induct) (auto elim!: engine_stepE intro: moves_trans do_call_moves)

end
