(* ===== verification/Engine_Safety.thy ===== *)
theory Engine_Safety
  imports Engine_Moves "HOL-Library.Sublist"
begin

text \<open>
  What the consensus engine guarantees over every run: it never signs two values for one height and
  round (through the double-sign guard), its state is well formed, and a commit is backed by a quorum
  of valid precommits of one round. Each is an invariant of the moves of \<open>Engine_Moves\<close>.
\<close>

subsection \<open>The outbox only grows\<close>

definition out_extends :: "'c out_event list \<Rightarrow> ('c, 'm, 's) node \<Rightarrow> bool" where
  "out_extends xs n \<longleftrightarrow> prefix xs (n_out n)"

lemma broadcast_vote_out: "prefix (n_out n) (n_out (broadcast_vote env n vt b))"
  by (simp add: broadcast_vote_def Let_def case_prod_beta)

interpretation om: move_invariant env A "out_extends xs" for env A xs
proof
  fix n n'
  assume "move env A n n'" "out_extends xs n"
  then show "out_extends xs n'"
    by cases (auto simp: out_extends_def same_core_def dest!: guard_proposal_same intro: prefix_order.trans broadcast_vote_out)
qed

subsection \<open>One signature per height and round\<close>

definition sent_votes :: "('c, 'm, 's) node \<Rightarrow> ((vote_type \<times> height \<times> round_no) \<times> hash32 option) set" where
  "sent_votes n = {((vote_type v, vote_height v, vote_round v), vote_block v) | v. Broadcast (Msg_Vote v) \<in> set (n_out n)}"

definition sent_proposals :: "('c, 'm, 's) node \<Rightarrow> ((height \<times> round_no) \<times> hash32) set" where
  "sent_proposals n = {((prop_height p, prop_round p), prop_block_id p) | p. Broadcast (Msg_Proposal p) \<in> set (n_out n)}"

definition guarded :: "('c, 'm, 's, 't) engine_env \<Rightarrow> ('c, 'm, 's) node \<Rightarrow> bool" where
  \<comment> \<open>everything the engine has broadcast is on record in its guard\<close>
  "guarded env n \<longleftrightarrow> (\<exists>g. ds_guard n = Some g \<and> on_record (ex_hex (ee_exec env)) g (sent_proposals n, sent_votes n))"

definition env_hex_ok :: "('c, 'm, 's, 't) engine_env \<Rightarrow> bool" where
  "env_hex_ok env \<longleftrightarrow> inj (ex_hex (ee_exec env)) \<and> ''nil'' \<notin> range (ex_hex (ee_exec env))"

lemma sent_votesI: "Broadcast (Msg_Vote v) \<in> set (n_out n) \<Longrightarrow> ((vote_type v, vote_height v, vote_round v), vote_block v) \<in> sent_votes n"
  by (auto simp: sent_votes_def)

lemma sent_proposalsI: "Broadcast (Msg_Proposal p) \<in> set (n_out n) \<Longrightarrow> ((prop_height p, prop_round p), prop_block_id p) \<in> sent_proposals n"
  by (auto simp: sent_proposals_def)

lemma guarded_cong: "ds_guard n' = ds_guard n \<Longrightarrow> n_out n' = n_out n \<Longrightarrow> guarded env n' = guarded env n"
  by (simp add: guarded_def sent_votes_def sent_proposals_def)

lemma sent_emit:
  "sent_votes (emit (Broadcast (Msg_Vote v)) n) = insert ((vote_type v, vote_height v, vote_round v), vote_block v) (sent_votes n)"
  "sent_proposals (emit (Broadcast (Msg_Vote v)) n) = sent_proposals n"
  "sent_votes (emit (Broadcast (Msg_Proposal p)) n) = sent_votes n"
  "sent_proposals (emit (Broadcast (Msg_Proposal p)) n) = insert ((prop_height p, prop_round p), prop_block_id p) (sent_proposals n)"
  by (auto simp: sent_votes_def sent_proposals_def)

lemma guard_vote_records:
  assumes hex: "env_hex_ok env" and g: "ds_guard n = Some g" and log: "on_record (ex_hex (ee_exec env)) g (P, V)"
    and r: "guard_vote env n vt bid = (n', ok)"
  shows "\<exists>g'. ds_guard n' = Some g' \<and>
    on_record (ex_hex (ee_exec env)) g' (P, if ok then insert ((vt, cs_height (en_state n), cs_round (en_state n)), bid) V else V)"
proof -
  let ?hex = "ex_hex (ee_exec env)" and ?h = "cs_height (en_state n)" and ?r = "cs_round (en_state n)"
  have H: "inj ?hex" "''nil'' \<notin> range ?hex" using hex by (auto simp: env_hex_ok_def)
  obtain g1 c where c: "check_vote ?hex g vt ?h ?r bid = (g1, c)" by fastforce
  obtain io now where io: "n_io n (n_pos n) = (io, now)" by fastforce
  obtain g2 d where d: "record_vote ?hex (ee_guard_env env) io now g1 vt ?h ?r bid = (g2, d)" by fastforce
  have 1: "on_record ?hex g1 (P, V)" using check_on_record(2) [of ?hex ?hex g vt ?h ?r bid "(P, V)"] log c by simp
  show ?thesis
  proof (cases "is_ok c")
    case True
    then show ?thesis using r g c d io vote_on_record [OF H log c True d] by (auto simp: guard_vote_def split: if_splits)
  qed (use r g c 1 in \<open>auto simp: guard_vote_def\<close>)
qed

lemma guard_proposal_records:
  assumes hex: "env_hex_ok env" and g: "ds_guard n = Some g" and log: "on_record (ex_hex (ee_exec env)) g (P, V)"
    and r: "guard_proposal env n bid = (n', ok)"
  shows "\<exists>g'. ds_guard n' = Some g' \<and>
    on_record (ex_hex (ee_exec env)) g' (if ok then insert ((cs_height (en_state n), cs_round (en_state n)), bid) P else P, V)"
proof -
  let ?hex = "ex_hex (ee_exec env)" and ?h = "cs_height (en_state n)" and ?r = "cs_round (en_state n)"
  have H: "inj ?hex" "''nil'' \<notin> range ?hex" using hex by (auto simp: env_hex_ok_def)
  obtain g1 c where c: "check_proposal ?hex g ?h ?r bid = (g1, c)" by fastforce
  obtain io now where io: "n_io n (n_pos n) = (io, now)" by fastforce
  obtain g2 d where d: "record_proposal ?hex (ee_guard_env env) io now g1 ?h ?r bid = (g2, d)" by fastforce
  have 1: "on_record ?hex g1 (P, V)" using check_on_record(1) [of ?hex ?hex g ?h ?r bid "(P, V)"] log c by simp
  show ?thesis
  proof (cases "is_ok c")
    case True
    then show ?thesis using r g c d io propose_on_record [OF H log c True d] by (auto simp: guard_proposal_def split: if_splits)
  qed (use r g c 1 in \<open>auto simp: guard_proposal_def\<close>)
qed

lemma broadcast_vote_guarded:
  assumes "env_hex_ok env" "guarded env n"
  shows "guarded env (broadcast_vote env n vt bid)"
proof (cases "decided (en_state n) = None")
  case True
  obtain g where g: "ds_guard n = Some g" "on_record (ex_hex (ee_exec env)) g (sent_proposals n, sent_votes n)"
    using assms(2) by (auto simp: guarded_def)
  obtain n1 ok where r: "guard_vote env n vt bid = (n1, ok)" by fastforce
  have same: "n_out n1 = n_out n" using guard_vote_fields(1) [of env n vt bid] r by simp
  then have "sent_votes n1 = sent_votes n" "sent_proposals n1 = sent_proposals n" by (simp_all add: sent_votes_def sent_proposals_def)
  then show ?thesis
    using guard_vote_records [OF assms(1) g r] r True
    by (auto simp: broadcast_vote_def guarded_def sent_emit Let_def split: if_splits)
qed (use assms(2) in \<open>simp add: broadcast_vote_def\<close>)

lemma guarded_silent:
  assumes "ds_guard n' = ds_guard n" "n_out n' = n_out n \<or> (\<exists>e. n_out n' = n_out n @ [e] \<and>
    (\<forall>v. e \<noteq> Broadcast (Msg_Vote v)) \<and> (\<forall>p. e \<noteq> Broadcast (Msg_Proposal p)))"
  shows "guarded env n' = guarded env n"
proof -
  have "sent_votes n' = sent_votes n" "sent_proposals n' = sent_proposals n"
    using assms(2) by (auto simp: sent_votes_def sent_proposals_def)
  then show ?thesis by (simp add: guarded_def assms(1))
qed

lemma guarded_proposal:
  assumes "env_hex_ok env" "guarded env n" "guard_proposal env n i = (n1, ok)"
  shows "guarded env n1"
    "ok \<Longrightarrow> prop_height p = cs_height (en_state n) \<Longrightarrow> prop_round p = cs_round (en_state n) \<Longrightarrow> prop_block_id p = i \<Longrightarrow>
      ds_guard n' = ds_guard n1 \<Longrightarrow> n_out n' = n_out n1 @ [Broadcast (Msg_Proposal p)] \<Longrightarrow> guarded env n'"
proof -
  obtain g where g: "ds_guard n = Some g" "on_record (ex_hex (ee_exec env)) g (sent_proposals n, sent_votes n)"
    using assms(2) by (auto simp: guarded_def)
  have same: "n_out n1 = n_out n" using guard_proposal_same [OF assms(3)] by simp
  then have s: "sent_votes n1 = sent_votes n" "sent_proposals n1 = sent_proposals n" by (simp_all add: sent_votes_def sent_proposals_def)
  obtain g' where g': "ds_guard n1 = Some g'" "on_record (ex_hex (ee_exec env)) g'
      (if ok then insert ((cs_height (en_state n), cs_round (en_state n)), i) (sent_proposals n) else sent_proposals n, sent_votes n)"
    using guard_proposal_records [OF assms(1) g assms(3)] by auto
  then show "guarded env n1" by (auto simp: guarded_def s on_record_def split: if_splits)
  show "guarded env n'" if ok "prop_height p = cs_height (en_state n)" "prop_round p = cs_round (en_state n)" "prop_block_id p = i"
    "ds_guard n' = ds_guard n1" "n_out n' = n_out n1 @ [Broadcast (Msg_Proposal p)]"
  proof -
    have "sent_votes n' = sent_votes n"
      "sent_proposals n' = insert ((cs_height (en_state n), cs_round (en_state n)), i) (sent_proposals n)"
      using that(2-4,6) same by (auto simp: sent_votes_def sent_proposals_def) metis
    then show ?thesis using g' that(1,5) by (simp add: guarded_def)
  qed
qed

lemma guarded_invariant:
  assumes "env_hex_ok env"
  shows "move_invariant env A (guarded env)"
proof
  fix n n'
  assume "move env A n n'" and g: "guarded env n"
  then show "guarded env n'"
  proof cases
    case (vote vt b)
    then show ?thesis using broadcast_vote_guarded [OF assms g] by simp
  next
    case (refused i ok)
    then show ?thesis using guarded_proposal(1) [OF assms g] by blast
  next
    case (propose b n1 p)
    then show ?thesis using guarded_proposal(2) [OF assms g, of _ n1 True p n'] by simp
  qed (rule guarded_silent [THEN iffD2, OF _ _ g]; simp add: same_core_def)+
qed

lemma sent_functional:
  assumes "env_hex_ok env" "guarded env n"
  shows "(k, b) \<in> sent_votes n \<Longrightarrow> (k, b') \<in> sent_votes n \<Longrightarrow> b = b'"
    "(l, c) \<in> sent_proposals n \<Longrightarrow> (l, c') \<in> sent_proposals n \<Longrightarrow> c = c'"
proof -
  let ?hex = "ex_hex (ee_exec env)"
  have H: "inj ?hex" "''nil'' \<notin> range ?hex" using assms(1) by (auto simp: env_hex_ok_def)
  obtain g where "on_record ?hex g (sent_proposals n, sent_votes n)" using assms(2) by (auto simp: guarded_def)
  then have C: "sign_once.covers proposal_lookup ?hex g (sent_proposals n)"
    "sign_once.covers vote_lookup (vote_value ?hex) g (sent_votes n)"
    using on_record_covers [OF H] by simp_all
  show "(k, b) \<in> sent_votes n \<Longrightarrow> (k, b') \<in> sent_votes n \<Longrightarrow> b = b'"
    by (rule sign_once.covers_functional [OF vote_sign_once [OF H] C(2)])
  show "(l, c) \<in> sent_proposals n \<Longrightarrow> (l, c') \<in> sent_proposals n \<Longrightarrow> c = c'"
    by (rule sign_once.covers_functional [OF proposal_sign_once [OF H(1)] C(1)])
qed

text \<open>C4: An engine that runs under the double-sign guard never equivocates: over any sequence of clock ticks,
  messages (arbitrary ones), received blocks and new heights, and whichever writes to the guard file
  fail, all its votes of one type for one height and round name the same block, and all its proposals
  for one height and round are for the same block.\<close>

theorem engine_never_equivocates:
  assumes "env_hex_ok env" "ds_guard n = Some g" "n_out n = []" "engine_run env n n'"
  shows "(Broadcast (Msg_Vote v) \<in> set (n_out n') \<and> Broadcast (Msg_Vote w) \<in> set (n_out n') \<and>
      (vote_type v, vote_height v, vote_round v) = (vote_type w, vote_height w, vote_round w) \<longrightarrow> vote_block v = vote_block w) \<and>
    (Broadcast (Msg_Proposal p) \<in> set (n_out n') \<and> Broadcast (Msg_Proposal q) \<in> set (n_out n') \<and>
      (prop_height p, prop_round p) = (prop_height q, prop_round q) \<longrightarrow> prop_block_id p = prop_block_id q)"
proof -
  have "guarded env n" using assms(2,3) by (simp add: guarded_def sent_votes_def sent_proposals_def on_record_def)
  then have "guarded env n'" by (rule move_invariant.moves_kept [OF guarded_invariant [OF assms(1)] run_moves [OF assms(4)]])
  note F = sent_functional [OF assms(1) this]
  show ?thesis using F sent_votesI [of _ n'] sent_proposalsI [of _ n'] by metis
qed

subsection \<open>A well-formed state\<close>

definition vote_ok :: "('c, 'm, 's, 't) engine_env \<Rightarrow> validator_set \<Rightarrow> height \<Rightarrow> vote_type \<Rightarrow> round_no \<Rightarrow> pk \<Rightarrow> vote \<Rightarrow> bool" where
  \<comment> \<open>a signed vote of a validator, filed under its own type, round and key\<close>
  "vote_ok env s h vt r k v \<longleftrightarrow> vote_type v = vt \<and> vote_height v = h \<and> vote_round v = r \<and> voter v = k \<and> vs_contains s k \<and>
     ee_verify env k (vote_sign_bytes vt h r (vote_block v)) (vote_signature v)"

definition votes_ok :: "('c, 'm, 's, 't) engine_env \<Rightarrow> validator_set \<Rightarrow> height \<Rightarrow> round_no \<Rightarrow> vote_map \<Rightarrow> bool" where
  "votes_ok env s h rmax = bt_all (\<lambda>r rt. r \<le> rmax \<and> bt_all (\<lambda>vt. bt_all (vote_ok env s h vt r)) rt)"

definition vote_index_ok ::
  "('c, 'm, 's, 't) engine_env \<Rightarrow> validator_set \<Rightarrow> height \<Rightarrow> round_no
    \<Rightarrow> (pk \<times> height \<times> round_no \<times> vote_type, hash32 option \<times> vote) btree \<Rightarrow> bool" where
  "vote_index_ok env s h rmax = bt_all (\<lambda>(k, h', r, vt) (b, v). h' = h \<and> r \<le> rmax \<and> b = vote_block v \<and> vote_ok env s h vt r k v)"

definition locks_ok :: "consensus_state \<Rightarrow> bool" where
  "locks_ok st \<longleftrightarrow> valid_round st = locked_round st \<and> valid_value st = locked_value st \<and>
     (locked_round st = None \<longleftrightarrow> locked_value st = None) \<and> (\<forall>r. locked_round st = Some r \<longrightarrow> r \<le> cs_round st)"

definition proposal_ok :: "('c, 'm, 's, 't) engine_env \<Rightarrow> consensus_state \<Rightarrow> bool" where
  "proposal_ok env st \<longleftrightarrow> (case cs_proposal st of
     None \<Rightarrow> proposal_block st = None
   | Some p \<Rightarrow> prop_height p = cs_height st \<and> prop_round p = cs_round st \<and>
       (\<forall>b. proposal_block st = Some b \<longrightarrow> eng_block_id env b = prop_block_id p))"

definition store_ok :: "('c, 'm, 's, 't) engine_env \<Rightarrow> (hash32, block) btree \<Rightarrow> bool" where
  "store_ok env = bt_all (\<lambda>i b. i = eng_block_id env b)"

definition node_typed :: "('c, 'm, 's, 't) engine_env \<Rightarrow> ('c, 'm, 's) node \<Rightarrow> bool" where
  "node_typed env n \<longleftrightarrow> (let st = en_state n in
     votes_ok env (en_vset n) (cs_height st) (cs_round st) (cs_votes st) \<and>
     vote_index_ok env (en_vset n) (cs_height st) (cs_round st) (vote_index st) \<and>
     locks_ok st \<and> proposal_ok env st \<and> store_ok env (n_store n) \<and>
     (cs_round st = 0 \<or> cs_round st < max_rounds (en_cfg n)) \<and> (decided st \<noteq> None \<longleftrightarrow> cs_step st = Step_Commit))"

lemma votes_ok_mono: "votes_ok env s h r m \<Longrightarrow> r \<le> r' \<Longrightarrow> votes_ok env s h r' m"
  unfolding votes_ok_def by (erule bt_all_mono) auto

lemma vote_index_ok_mono: "vote_index_ok env s h r m \<Longrightarrow> r \<le> r' \<Longrightarrow> vote_index_ok env s h r' m"
  unfolding vote_index_ok_def by (erule bt_all_mono) auto

lemma store_vote_ok:
  assumes "votes_ok env s h rmax m" "vote_ok env s h (vote_type v) (vote_round v) (voter v) v" "vote_round v \<le> rmax"
  shows "votes_ok env s h rmax (store_vote m v)"
  using assms bt_all_get [OF assms(1) [unfolded votes_ok_def], of "vote_round v"]
  by (auto simp: store_vote_def votes_ok_def Let_def split: option.split intro!: bt_all_insert dest: bt_all_get)

lemma votes_at_ok: "votes_ok env s h rmax m \<Longrightarrow> votes_at m r vt = Some vs \<Longrightarrow> r \<le> rmax \<and> bt_all (vote_ok env s h vt r) vs"
  unfolding votes_ok_def votes_at_def bind_eq_Some_conv by (elim exE conjE) (drule (1) bt_all_get, blast dest: bt_all_get)

lemma store_put_ok: "store_ok env (n_store n) \<Longrightarrow> store_ok env (n_store (store_put env b n))"
  by (auto simp: store_ok_def store_put_def)

lemma add_vote_fields [simp]:
  "cs_height (add_vote v st) = cs_height st" "cs_round (add_vote v st) = cs_round st" "cs_step (add_vote v st) = cs_step st"
  "decided (add_vote v st) = decided st" "cs_votes (add_vote v st) = store_vote (cs_votes st) v"
  "locked_round (add_vote v st) = locked_round st" "locked_value (add_vote v st) = locked_value st"
  "valid_round (add_vote v st) = valid_round st" "valid_value (add_vote v st) = valid_value st"
  "cs_proposal (add_vote v st) = cs_proposal st" "proposal_block (add_vote v st) = proposal_block st"
  by (simp_all add: add_vote_def record_vote_and_detect_evidence_def Let_def split: option.split)

lemma add_vote_index_ok:
  assumes "vote_index_ok env s h rmax (vote_index st)" "vote_ok env s h (vote_type v) (vote_round v) (voter v) v" "vote_round v \<le> rmax"
  shows "vote_index_ok env s h rmax (vote_index (add_vote v st))"
proof -
  have "vote_height v = h" using assms(2) by (simp add: vote_ok_def)
  then show ?thesis
    using assms by (auto simp: add_vote_def record_vote_and_detect_evidence_def vote_index_ok_def Let_def split: option.split)
qed

lemma verified_vote: "verify_vote env n v = Ok () \<Longrightarrow>
  vote_ok env (en_vset n) (cs_height (en_state n)) (vote_type v) (vote_round v) (voter v) v \<and> vote_round v = cs_round (en_state n)"
  by (auto simp: verify_vote_def vote_ok_def split: if_splits)

lemma verified_proposal: "verify_proposal env n p = Ok () \<Longrightarrow>
  prop_height p = cs_height (en_state n) \<and> prop_round p = cs_round (en_state n)"
  by (auto simp: verify_proposal_def split: if_splits result.splits)

interpretation nt: move_invariant env A "node_typed env" for env A
proof
  fix n n'
  assume m: "move env A n n'" and t: "node_typed env n"
  from m show "node_typed env n'"
  proof cases
    case (refused i ok)
    then show ?thesis using t guard_proposal_same [of env n i n' ok] by (simp add: node_typed_def)
  next
    case (propose b n1 p)
    then show ?thesis using t guard_proposal_same [OF propose(4)] store_put_ok [of env n1 b] by (simp add: node_typed_def Let_def locks_ok_def proposal_ok_def)
  next
    case round
    then show ?thesis using t by (auto simp: node_typed_def Let_def next_round_def locks_ok_def proposal_ok_def
          intro: votes_ok_mono vote_index_ok_mono le_SucI)
  next
    case (proposal p pb)
    then show ?thesis using t verified_proposal [OF proposal(3)]
      by (auto simp: node_typed_def Let_def locks_ok_def proposal_ok_def store_ok_def dest: bt_all_get)
  next
    case (accept v)
    then show ?thesis using t verified_vote [OF accept(4)]
      by (auto simp: node_typed_def Let_def locks_ok_def proposal_ok_def intro: store_vote_ok add_vote_index_ok split: option.splits)
  next
    case height
    then show ?thesis using t by (simp add: node_typed_def Let_def consensus_state_new_def locks_ok_def proposal_ok_def votes_ok_def vote_index_ok_def)
  qed (use t in \<open>auto simp: node_typed_def Let_def same_core_def store_put_ok locks_ok_def lock_on_def proposal_ok_def split: option.splits\<close>)
qed

subsection \<open>Counting votes\<close>

text \<open>
  What the engine relies on of \<open>VoteTally\<close>: the value it reports as best has at least the reported power
  among the ballots it was given, one per voter.
\<close>

locale vote_tally =
  fixes new :: 't and add :: "'t \<Rightarrow> validator_set \<Rightarrow> pk \<Rightarrow> hash32 option \<Rightarrow> 't" and best :: "'t \<Rightarrow> (hash32 option \<times> u64) option"
  assumes best_sound: "distinct (map fst bs) \<Longrightarrow> best (foldl (\<lambda>t (k, b). add t s k b) new bs) = Some (b, p) \<Longrightarrow>
    p \<le> power_in s {k. (k, b) \<in> set bs}"
begin

lemma votes_power:
  assumes "bt_wf vs" "best (foldl (\<lambda>t (k, v). add t s k (vote_block v)) new vs) = Some (b, p)"
  shows "p \<le> power_in s (fst ` {x \<in> set vs. vote_block (snd x) = b})"
proof -
  let ?bs = "map (\<lambda>(k, v). (k, vote_block v)) vs"
  have "foldl (\<lambda>t (k, v). add t s k (vote_block v)) new vs = foldl (\<lambda>t (k, b). add t s k b) new ?bs"
    by (simp add: foldl_map case_prod_unfold)
  moreover have "distinct (map fst ?bs)" using bt_wf_distinct(2) [OF assms(1)] by (simp add: case_prod_unfold comp_def)
  moreover have "{k. (k, b) \<in> set ?bs} = fst ` {x \<in> set vs. vote_block (snd x) = b}" by force
  ultimately show ?thesis using best_sound [of ?bs s b p] assms(2) by simp
qed

end

definition list_tally_add :: "(hash32 option \<times> u64) list \<Rightarrow> validator_set \<Rightarrow> pk \<Rightarrow> hash32 option \<Rightarrow> (hash32 option \<times> u64) list" where
  "list_tally_add t s k b =
     (b, saturating_add 64 (case map_of t b of Some p \<Rightarrow> p | None \<Rightarrow> 0) (power_of s k)) # filter (\<lambda>x. fst x \<noteq> b) t"

fun list_tally_best :: "(hash32 option \<times> u64) list \<Rightarrow> (hash32 option \<times> u64) option" where
  "list_tally_best [] = None"
| "list_tally_best (x # xs) = Some (foldl (\<lambda>m y. if snd m < snd y then y else m) x xs)"

lemma foldl_max_in: "foldl (\<lambda>m y. if snd m < snd y then y else m) x xs \<in> insert x (set xs)"
proof (induction xs arbitrary: x)
  case (Cons y ys)
  show ?case using Cons.IH [of "if snd x < snd y then y else x"] by (auto split: if_splits)
qed simp

lemma list_tally_best_in: "list_tally_best t = Some x \<Longrightarrow> x \<in> set t"
proof (cases t)
  case (Cons y ys)
  then show "list_tally_best t = Some x \<Longrightarrow> x \<in> set t" using foldl_max_in [of y ys] by auto
qed simp

lemma power_in_insert:
  assumes "k \<notin> K"
  shows "power_of s k + power_in s K \<le> power_in s (insert k K)"
proof -
  have "(case find (\<lambda>v. v_pk v = k) vs of Some v \<Rightarrow> v_power v | None \<Rightarrow> 0) + sum_list (map v_power (filter (\<lambda>v. v_pk v \<in> K) vs))
      \<le> sum_list (map v_power (filter (\<lambda>v. v_pk v \<in> insert k K) vs))" for vs
  proof (induction vs)
    case (Cons v vs)
    have "sum_list (map v_power (filter (\<lambda>v. v_pk v \<in> K) vs)) \<le> sum_list (map v_power (filter (\<lambda>v. v_pk v \<in> insert k K) vs))"
      by (induction vs) auto
    then show ?case using Cons.IH assms by auto
  qed simp
  then show ?thesis by (simp add: power_of_def power_in_def)
qed

lemma list_tally_power:
  assumes "distinct (map fst bs)" "x \<in> set (foldl (\<lambda>t (k, b). list_tally_add t s k b) [] bs)"
  shows "snd x \<le> power_in s {k. (k, fst x) \<in> set bs}"
  using assms
proof (induction bs arbitrary: x rule: rev_induct)
  case (snoc kb bs)
  obtain k b where kb: "kb = (k, b)" by fastforce
  let ?t = "foldl (\<lambda>t (k, b). list_tally_add t s k b) [] bs"
  have old: "snd y \<le> power_in s {k. (k, fst y) \<in> set bs}" if "y \<in> set ?t" for y
    using snoc.IH [OF _ that] snoc.prems(1) by simp
  have fresh: "k \<notin> {k. (k, b) \<in> set bs}" using snoc.prems(1) kb by force
  show ?case
  proof (cases "fst x = b")
    case True
    then have x: "snd x \<le> (case map_of ?t b of Some p \<Rightarrow> p | None \<Rightarrow> 0) + power_of s k"
      using snoc.prems(2) kb by (auto simp: list_tally_add_def saturating_add_def split: option.splits)
    have "(case map_of ?t b of Some p \<Rightarrow> p | None \<Rightarrow> 0) \<le> power_in s {k. (k, b) \<in> set bs}"
      using old map_of_SomeD by (fastforce split: option.split)
    then have "snd x \<le> power_in s (insert k {k. (k, b) \<in> set bs})" using x power_in_insert [OF fresh, of s] by linarith
    moreover have "insert k {k. (k, b) \<in> set bs} = {k. (k, fst x) \<in> set (bs @ [kb])}" using True kb by auto
    ultimately show ?thesis by simp
  next
    case False
    then have "x \<in> set ?t" using snoc.prems(2) kb by (auto simp: list_tally_add_def)
    moreover have "{k. (k, fst x) \<in> set (bs @ [kb])} = {k. (k, fst x) \<in> set bs}" using False kb by auto
    ultimately show ?thesis using old by simp
  qed
qed simp

interpretation lt: vote_tally "[]" list_tally_add list_tally_best
proof
  fix bs s b p
  assume d: "distinct (map fst bs)" and e: "list_tally_best (foldl (\<lambda>t (k, b). list_tally_add t s k b) [] bs) = Some (b, p)"
  then have "(b, p) \<in> set (foldl (\<lambda>t (k, b). list_tally_add t s k b) [] bs)"
    by (blast intro: list_tally_best_in)
  then show "p \<le> power_in s {k. (k, b) \<in> set bs}" using list_tally_power [OF d] by fastforce
qed

definition tally_sound :: "('c, 'm, 's, 't) engine_env \<Rightarrow> bool" where
  "tally_sound env \<longleftrightarrow> vote_tally (ee_tally_new env) (ee_tally_add env) (ee_tally_best env)"

subsection \<open>Commit certificates\<close>

definition cert_ok :: "('c, 'm, 's, 't) engine_env \<Rightarrow> validator_set \<Rightarrow> round_no \<Rightarrow> commit_certificate \<Rightarrow> bool" where
  \<comment> \<open>precommits of different validators for the block in one round, validly signed, with the power of a quorum\<close>
  "cert_ok env s r cert \<longleftrightarrow> distinct (map voter (cc_precommits cert)) \<and>
     list_all (\<lambda>v. vote_ok env s (cc_height cert) Precommit r (voter v) v \<and> vote_block v = Some (cc_block_id cert)) (cc_precommits cert) \<and>
     (case quorum_threshold (total_power s) of None \<Rightarrow> False | Some q \<Rightarrow> q \<le> power_in s (voter ` set (cc_precommits cert)))"

lemma certificate_ok:
  assumes t: "node_typed env n" and v: "tally_sound env" and q: "has_power env n Precommit (Some bid)"
  shows "cert_ok env (en_vset n) (cs_round (en_state n)) (certificate (en_state n) bid)"
proof -
  let ?st = "en_state n" and ?s = "en_vset n"
  obtain vs p w where vs: "votes_at (cs_votes ?st) (cs_round ?st) Precommit = Some vs"
      "ee_tally_best env (foldl (\<lambda>t (k, v). ee_tally_add env t ?s k (vote_block v)) (ee_tally_new env) vs) = Some (Some bid, p)"
      "quorum_threshold (total_power ?s) = Some w" "w \<le> p"
    using q by (auto simp: has_power_def tally_def split: option.splits)
  have a: "bt_all (vote_ok env ?s (cs_height ?st) Precommit (cs_round ?st)) vs"
    using t votes_at_ok [OF _ vs(1)] by (auto simp: node_typed_def Let_def)
  then have wf: "bt_wf vs" and ok: "\<And>k u. (k, u) \<in> set vs \<Longrightarrow> vote_ok env ?s (cs_height ?st) Precommit (cs_round ?st) k u"
    by (auto simp: bt_all_def list_all_iff)
  let ?c = "filter (\<lambda>v. vote_block v = Some bid) (map snd vs)"
  have keys: "map voter (map snd vs) = map fst vs" using ok by (auto simp: vote_ok_def)
  have "distinct (map voter (map snd vs))" unfolding keys by (rule bt_wf_distinct(2) [OF wf])
  then have d: "distinct (map voter ?c)" by (rule distinct_map_filter)
  have "fst ` {x \<in> set vs. vote_block (snd x) = Some bid} = voter ` set ?c" using ok by (force simp: vote_ok_def)
  then have "p \<le> power_in ?s (voter ` set ?c)"
    using vote_tally.votes_power [OF v [unfolded tally_sound_def] wf vs(2)] by simp
  then have "w \<le> power_in ?s (voter ` set ?c)" using vs(4) by simp
  moreover have "list_all (\<lambda>v. vote_ok env ?s (cs_height ?st) Precommit (cs_round ?st) (voter v) v \<and> vote_block v = Some bid) ?c"
    using ok by (force simp: list_all_iff vote_ok_def)
  ultimately show ?thesis using d vs(1,3) by (simp add: cert_ok_def certificate_def collect_votes_def)
qed

fun commits :: "'c out_event list \<Rightarrow> (commit_certificate \<times> block) list" where
  "commits [] = []"
| "commits (On_Commit cert b a f rs # xs) = (cert, b) # commits xs"
| "commits (x # xs) = commits xs"

lemma commits_append [simp]: "commits (xs @ ys) = commits xs @ commits ys"
  by (induction xs rule: commits.induct) simp_all

lemma commits_vote [simp]: "commits (n_out (broadcast_vote env n vt b)) = commits (n_out n)"
  by (simp add: broadcast_vote_def Let_def case_prod_beta)

definition commits_ok :: "('c, 'm, 's, 't) engine_env \<Rightarrow> ('c, 'm, 's) node \<Rightarrow> bool" where
  "commits_ok env n \<longleftrightarrow> node_typed env n \<and>
     (\<forall>(cert, b) \<in> set (commits (n_out n)). (\<exists>r. cert_ok env (en_vset n) r cert) \<and> eng_block_id env b = cc_block_id cert \<and>
        cc_height cert \<le> cs_height (en_state n) \<and> (decided (en_state n) = None \<longrightarrow> cc_height cert < cs_height (en_state n))) \<and>
     sorted_wrt (<) (map (cc_height \<circ> fst) (commits (n_out n)))"

lemma commits_invariant:
  assumes "tally_sound env"
  shows "move_invariant env A (commits_ok env)"
proof
  fix n n'
  assume m: "move env A n n'" and c: "commits_ok env n"
  then have t: "node_typed env n'" using nt.kept by (auto simp: commits_ok_def)
  from m show "commits_ok env n'"
  proof cases
    case (commit bid b e a rs n1 f)
    have "cert_ok env (en_vset n) (cs_round (en_state n)) (certificate (en_state n) bid)"
      by (rule certificate_ok [OF _ assms commit(4)]) (use c in \<open>simp add: commits_ok_def\<close>)
    moreover have "eng_block_id env b = bid"
      using c commit(5) by (auto simp: commits_ok_def node_typed_def store_ok_def Let_def dest: bt_all_get)
    ultimately show ?thesis using c t commit(1,2)
      by (fastforce simp: commits_ok_def certificate_def sorted_wrt_append)
  next
    case height
    then show ?thesis using c t by (fastforce simp: commits_ok_def consensus_state_new_def)
  qed (use c t in \<open>auto simp: commits_ok_def same_core_def next_round_def lock_on_def dest!: guard_proposal_same\<close>)
qed

interpretation vm: move_invariant env A "\<lambda>n. en_vset n = s" for env A s
proof
  fix n n'
  assume "move env A n n'" "en_vset n = s"
  then show "en_vset n' = s" by cases (auto simp: same_core_def dest: guard_proposal_same)
qed

subsection \<open>Where votes come from\<close>

definition votes_from :: "(vote \<Rightarrow> bool) \<Rightarrow> ('c, 'm, 's) node \<Rightarrow> bool" where
  "votes_from P n \<longleftrightarrow> bt_all (\<lambda>r. bt_all (\<lambda>vt. bt_all (\<lambda>k. P))) (cs_votes (en_state n)) \<and>
     (\<forall>(cert, b) \<in> set (commits (n_out n)). list_all P (cc_precommits cert))"

lemma votes_from_mono: "votes_from P n \<Longrightarrow> (\<And>v. P v \<Longrightarrow> Q v) \<Longrightarrow> votes_from Q n"
  unfolding votes_from_def by (auto intro!: bt_all_mono [where P = "\<lambda>_. P"] elim!: bt_all_mono list.pred_mono_strong)

lemma collect_votes_from:
  assumes "bt_all (\<lambda>r. bt_all (\<lambda>vt. bt_all (\<lambda>k. P))) m"
  shows "list_all P (collect_votes m r vt t)"
proof (cases "votes_at m r vt")
  case (Some vs)
  then have "bt_all (\<lambda>k. P) vs" using assms by (auto simp: votes_at_def bind_eq_Some_conv dest: bt_all_get)
  then show ?thesis using Some by (auto simp: collect_votes_def bt_all_def list_all_iff)
qed (simp add: collect_votes_def)

lemma store_vote_from:
  assumes "bt_all (\<lambda>r. bt_all (\<lambda>vt. bt_all (\<lambda>k. P))) m" "P v"
  shows "bt_all (\<lambda>r. bt_all (\<lambda>vt. bt_all (\<lambda>k. P))) (store_vote m v)"
  using assms bt_all_get [OF assms(1), of "vote_round v"]
  by (auto simp: store_vote_def Let_def split: option.split intro!: bt_all_insert dest: bt_all_get)

interpretation vf: move_invariant env P "votes_from P" for env P
proof
  fix n n'
  assume "move env P n n'" and f: "votes_from P n"
  then show "votes_from P n'"
  proof cases
    case (accept v)
    then show ?thesis using f by (auto simp: votes_from_def intro: store_vote_from)
  next
    case (commit bid b e a rs n1 k)
    then show ?thesis using f by (auto simp: votes_from_def certificate_def intro: collect_votes_from)
  qed (use f in \<open>auto simp: votes_from_def same_core_def next_round_def lock_on_def consensus_state_new_def dest!: guard_proposal_same\<close>)
qed

lemma engine_new_ok:
  "commits_ok env (engine_new cfg s h prev app st g mc io)" "votes_from P (engine_new cfg s h prev app st g mc io)"
  "n_out (engine_new cfg s h prev app st g mc io) = []" "en_vset (engine_new cfg s h prev app st g mc io) = s"
  "ds_guard (engine_new cfg s h prev app st g mc io) = g"
  by (simp_all add: engine_new_def consensus_state_new_def commits_ok_def node_typed_def locks_ok_def proposal_ok_def votes_ok_def
      vote_index_ok_def store_ok_def votes_from_def Let_def)

text \<open>C9: The state of an engine stays well formed over every run: each stored vote is a validly signed vote of a
  validator for the current height, filed under its own round, type and key, of a round not later than
  the current one; the index of votes agrees with its keys; the lock and the valid value are set together
  and not ahead of the current round; the current proposal is for the current height and round and its
  block has the proposed id; blocks are stored under their ids; the round stays below the maximum; and a
  decision is present exactly in the commit step.\<close>

theorem engine_state_typed:
  assumes "engine_run env (engine_new cfg s h prev app st g mc io) n"
  shows "node_typed env n"
  by (rule nt.moves_kept [OF run_moves [OF assms] conjunct1 [OF engine_new_ok(1) [unfolded commits_ok_def]]])

text \<open>C3: Every commit an engine reports is backed by a certificate: precommits of pairwise different validators of its
  set, each validly signed for the height and the block and all for one round, whose power reaches the
  quorum threshold; the committed block is the one the certificate names; and the heights of the commits
  strictly increase, so that no height is committed twice.\<close>

theorem commit_certificate_sound:
  assumes "tally_sound env" "engine_run env (engine_new cfg s h prev app st g mc io) n"
  shows "list_all (\<lambda>(cert, b). (\<exists>r. cert_ok env s r cert) \<and> eng_block_id env b = cc_block_id cert) (commits (n_out n)) \<and>
    sorted_wrt (<) (map (cc_height \<circ> fst) (commits (n_out n)))"
proof -
  have "commits_ok env n" by (rule move_invariant.moves_kept [OF commits_invariant [OF assms(1)] run_moves [OF assms(2)] engine_new_ok(1)])
  moreover have "en_vset n = s" by (rule vm.moves_kept [OF run_moves [OF assms(2)] engine_new_ok(4)])
  ultimately show ?thesis by (auto simp: commits_ok_def list_all_iff)
qed

end
