(* ===== verification/Engine_Network.thy ===== *)
theory Engine_Network
  imports Engine_Safety
begin

text \<open>
  Several engines and a network. The honest validators run the engine, each with its own key, guard and
  clock; the others are arbitrary. The network delivers any message, in any order, any number of times or
  never. Signatures are unforgeable: a message that verifies under the key of an honest validator has the
  content of one that validator has broadcast.

  Two decisions of one round agree as long as less than a third of the power is dishonest. Decisions of
  different rounds need not agree, even when everybody is honest: a locked proposer does not propose the
  value it is locked on, and \<open>tick\<close> prevotes its own proposal without looking at the lock.
\<close>

type_synonym ('c, 'm, 's) net = "pk \<Rightarrow> ('c, 'm, 's) node"

definition sent_by :: "('c, 'm, 's) net \<Rightarrow> vote \<Rightarrow> bool" where
  "sent_by N v \<longleftrightarrow> ((vote_type v, vote_height v, vote_round v), vote_block v) \<in> sent_votes (N (voter v))"

definition proposed_by :: "('c, 'm, 's) net \<Rightarrow> block proposal \<Rightarrow> bool" where
  "proposed_by N p \<longleftrightarrow> ((prop_height p, prop_round p), prop_block_id p) \<in> sent_proposals (N (proposer p))"

definition vote_authentic :: "pk set \<Rightarrow> ('c, 'm, 's, 't) engine_env \<Rightarrow> ('c, 'm, 's) net \<Rightarrow> vote \<Rightarrow> bool" where
  "vote_authentic H env N v \<longleftrightarrow> (voter v \<in> H \<and>
     ee_verify env (voter v) (vote_sign_bytes (vote_type v) (vote_height v) (vote_round v) (vote_block v)) (vote_signature v) \<longrightarrow> sent_by N v)"

definition authentic :: "pk set \<Rightarrow> ('c, 'm, 's, 't) engine_env \<Rightarrow> ('c, 'm, 's) net \<Rightarrow> block consensus_msg \<Rightarrow> bool" where
  "authentic H env N m \<longleftrightarrow> (case m of
     Msg_Vote v \<Rightarrow> vote_authentic H env N v
   | Msg_Proposal p \<Rightarrow> proposer p \<in> H \<and>
       ee_verify env (proposer p) (proposal_sign_bytes (prop_height p) (prop_round p) (prop_block_id p) (pol_round p)) (prop_signature p)
         \<longrightarrow> proposed_by N p
   | Msg_Evidence _ \<Rightarrow> True)"

inductive net_step :: "pk set \<Rightarrow> (pk \<Rightarrow> ('c, 'm, 's, 't) engine_env) \<Rightarrow> ('c, 'm, 's) net \<Rightarrow> ('c, 'm, 's) net \<Rightarrow> bool" for H envs where
  at: "i \<in> H \<Longrightarrow> do_call (envs i) (N i) c = (n', r) \<Longrightarrow> r \<noteq> Panic \<Longrightarrow> (\<And>m. c = Message m \<Longrightarrow> authentic H (envs i) N m) \<Longrightarrow>
    net_step H envs N (N(i := n'))"

abbreviation net_run :: "pk set \<Rightarrow> (pk \<Rightarrow> ('c, 'm, 's, 't) engine_env) \<Rightarrow> ('c, 'm, 's) net \<Rightarrow> ('c, 'm, 's) net \<Rightarrow> bool" where
  "net_run H envs \<equiv> (net_step H envs)\<^sup>*\<^sup>*"

lemma net_run_project: "net_run H envs N N' \<Longrightarrow> engine_run (envs i) (N i) (N' i)"
proof (induction rule: rtranclp_induct)
  case (step N1 N2)
  from step.hyps(2) show ?case
  proof cases
    case (at j c n' r)
    then show ?thesis using step.IH by (cases "i = j") (auto intro: engine_run.step engine_step.call)
  qed
qed (rule engine_run.refl)

lemma sent_by_mono:
  assumes "net_step H envs N N'" "sent_by N v"
  shows "sent_by N' v"
proof -
  have "engine_run (envs (voter v)) (N (voter v)) (N' (voter v))" using assms(1) by (intro net_run_project) auto
  from om.moves_kept [OF run_moves [OF this], of "n_out (N (voter v))"]
  have "prefix (n_out (N (voter v))) (n_out (N' (voter v)))" by (simp add: out_extends_def)
  then show ?thesis using assms(2) set_mono_prefix by (fastforce simp: sent_by_def sent_votes_def)
qed

lemma net_votes_from:
  assumes "net_run H envs N N'" "\<And>i. i \<in> H \<Longrightarrow> votes_from (vote_authentic H (envs i) N) (N i)"
  shows "i \<in> H \<Longrightarrow> votes_from (vote_authentic H (envs i) N') (N' i)"
  using assms
proof (induction arbitrary: i rule: rtranclp_induct)
  case (step N1 N2)
  have mono: "vote_authentic H (envs k) N2 v" if "vote_authentic H (envs k) N1 v" for k v
    using that sent_by_mono [OF step.hyps(2)] by (auto simp: vote_authentic_def)
  have old: "votes_from (vote_authentic H (envs i) N2) (N1 i)"
    by (rule votes_from_mono [OF step.IH [OF step.prems(1,2)] mono])
  from step.hyps(2) show ?case
  proof cases
    case (at j c n' r)
    show ?thesis
    proof (cases "i = j")
      case True
      have "vote_authentic H (envs i) N2 v" if "c = Message (Msg_Vote v)" for v
        using at(5) [OF that] True by (intro mono) (simp add: authentic_def)
      then have "moves (envs i) (vote_authentic H (envs i) N2) (N1 i) n'" using at(3) True by (intro do_call_moves) auto
      then have "votes_from (vote_authentic H (envs i) N2) n'" using old by (rule vf.moves_kept)
      moreover have "N2 i = n'" using at(1) True by simp
      ultimately show ?thesis by simp
    next
      case False
      then have "N2 i = N1 i" using at(1) by simp
      then show ?thesis using old by simp
    qed
  qed
qed simp

lemma power_in_mono: "K \<subseteq> L \<Longrightarrow> power_in s K \<le> power_in s L"
proof -
  assume "K \<subseteq> L"
  then have "sum_list (map v_power (filter (\<lambda>v. v_pk v \<in> K) vs)) \<le> sum_list (map v_power (filter (\<lambda>v. v_pk v \<in> L) vs))" for vs
    by (induction vs) auto
  then show ?thesis by (simp add: power_in_def)
qed

text \<open>C1: Two honest validators that commit blocks of the same height on precommits of the same round commit
  the same block, however messages are delayed, lost, repeated or reordered and whatever the dishonest
  validators send, as long as these hold less than a third of the power.\<close>

theorem same_round_agreement:
  assumes run: "net_run H envs N N'"
    and start: "\<forall>i \<in> H. \<exists>cfg h prev app st g mc io. N i = engine_new cfg s h prev app st (Some g) mc io"
    and env: "\<forall>i \<in> H. env_hex_ok (envs i) \<and> tally_sound (envs i)"
    and power: "power_sum s < 2 ^ 63" "3 * power_in s (- H) < power_sum s"
    and i: "i \<in> H" "(c, b) \<in> set (commits (n_out (N' i)))" and j: "j \<in> H" "(c', b') \<in> set (commits (n_out (N' j)))"
    and same: "cc_height c = cc_height c'" "v \<in> set (cc_precommits c)" "v' \<in> set (cc_precommits c')" "vote_round v = vote_round v'"
  shows "cc_block_id c = cc_block_id c'"
proof -
  have fresh: "commits_ok (envs k) (N k)" "votes_from P (N k)" "n_out (N k) = []" "en_vset (N k) = s" "\<exists>g. ds_guard (N k) = Some g"
    if "k \<in> H" for k P using start that engine_new_ok by metis+
  have mv: "moves (envs k) (\<lambda>_. True) (N k) (N' k)" for k by (rule run_moves [OF net_run_project [OF run]])
  have certs: "\<exists>r. cert_ok (envs k) s r x" "list_all (vote_authentic H (envs k) N') (cc_precommits x)"
    if k: "k \<in> H" "(x, y) \<in> set (commits (n_out (N' k)))" for k x y
  proof -
    have "commits_ok (envs k) (N' k)"
      using move_invariant.moves_kept [OF commits_invariant mv fresh(1)] env k(1) by blast
    moreover have "en_vset (N' k) = s" using vm.moves_kept [OF mv fresh(4)] k(1) by blast
    ultimately show "\<exists>r. cert_ok (envs k) s r x" using k(2) by (auto simp: commits_ok_def)
    show "list_all (vote_authentic H (envs k) N') (cc_precommits x)"
      using net_votes_from [OF run fresh(2) k(1)] k(2) by (auto simp: votes_from_def)
  qed
  obtain r r' where r: "cert_ok (envs i) s r c" "cert_ok (envs j) s r' c'" using certs(1) i j by blast
  have r': "r' = r" using r same(2-4) by (auto simp: cert_ok_def list_all_iff vote_ok_def)
  let ?V = "voter ` set (cc_precommits c)" and ?W = "voter ` set (cc_precommits c')"
  obtain q where "quorum_threshold (total_power s) = Some q" "q \<le> power_in s ?V" "q \<le> power_in s ?W"
    using r by (auto simp: cert_ok_def split: option.splits)
  then have "power_sum s < 3 * power_in s (?V \<inter> ?W)" by (rule quorum_overlap_aux [OF power(1)])
  then have "\<not> ?V \<inter> ?W \<subseteq> - H" using power(2) power_in_mono [of "?V \<inter> ?W" "- H" s] by linarith
  then obtain u w where u: "u \<in> set (cc_precommits c)" "w \<in> set (cc_precommits c')" "voter u = voter w" "voter u \<in> H" by auto
  have ok: "vote_ok (envs i) s (cc_height c) Precommit r (voter u) u \<and> vote_block u = Some (cc_block_id c)"
    "vote_ok (envs j) s (cc_height c') Precommit r (voter w) w \<and> vote_block w = Some (cc_block_id c')"
    using r u(1,2) r' by (auto simp: cert_ok_def list_all_iff)
  have "vote_authentic H (envs i) N' u" "vote_authentic H (envs j) N' w" using certs(2) i j u(1,2) by (auto simp: list_all_iff)
  then have "sent_by N' u" "sent_by N' w" using ok u(3,4) by (auto simp: vote_authentic_def vote_ok_def)
  then have sent: "((Precommit, cc_height c, r), Some (cc_block_id c)) \<in> sent_votes (N' (voter u))"
    "((Precommit, cc_height c, r), Some (cc_block_id c')) \<in> sent_votes (N' (voter u))"
    using ok u(3) same(1) by (auto simp: sent_by_def vote_ok_def)
  have "guarded (envs (voter u)) (N (voter u))"
    using fresh(3,5) [OF u(4)] by (auto simp: guarded_def sent_votes_def sent_proposals_def on_record_def)
  then have "guarded (envs (voter u)) (N' (voter u))"
    using move_invariant.moves_kept [OF guarded_invariant mv] env u(4) by blast
  from sent_functional(1) [OF _ this sent] env u(4) show ?thesis by auto
qed

end
