(* ===== verification/Engine_Fork.thy ===== *)
theory Engine_Fork
  imports Engine_Network Block_Verify
begin

text \<open>
  A concrete network of three engines of \<open>src/consensus/engine.rs\<close>, evaluated call by call: the honest
  validators commit two different blocks at one height, in different rounds. The same runs are the
  witnesses of what \<open>Engine_Safety\<close> and \<open>Engine_Network\<close> prove of every run. The state after each call is a
  definition, built from the moves of \<open>Engine_Moves\<close>; a lemma per call evaluates the handlers to it.
\<close>

subsection \<open>Three validators\<close>

definition key_a :: pk where "key_a = replicate 32 1"
definition key_b :: pk where "key_b = replicate 32 2"
definition key_c :: pk where "key_c = replicate 32 3"

lemma keys_order [simp]: "key_a < key_b" "key_b < key_c" "key_a < key_c" "\<not> key_b < key_a" "\<not> key_c < key_b" "\<not> key_c < key_a"
  "key_a \<noteq> key_b" "key_b \<noteq> key_c" "key_a \<noteq> key_c" "key_b \<noteq> key_a" "key_c \<noteq> key_b" "key_c \<noteq> key_a"
  "length key_a = 32" "length key_b = 32" "length key_c = 32"
  by (simp_all add: key_a_def key_b_def key_c_def replicate_less replicate_eq_iff)

definition fork_vset :: validator_set where
  "fork_vset = \<lparr>vals = [\<lparr>v_pk = key_c, v_power = 1\<rparr>, \<lparr>v_pk = key_a, v_power = 1\<rparr>, \<lparr>v_pk = key_b, v_power = 2\<rparr>]\<rparr>"

type_synonym fork_lru = "(u64, digest) lru_list"

definition fork_cache :: "fork_lru merkle_cache" where
  "fork_cache = merkle_cache_new lru_list_ops 8 False"

definition fork_exec :: "unit exec_env" where
  "fork_exec = demo_env\<lparr>ex_hash := (\<lambda>x. x)\<rparr>"

definition fork_env :: "pk \<Rightarrow> (unit, fork_lru, unit, (hash32 option \<times> u64) list) engine_env" where
  "fork_env k =
     \<lparr>ee_exec = fork_exec, ee_lru = lru_list_ops, ee_sip = (\<lambda>_. 0), ee_exec_cfg = exec_config_default, ee_max_gas = 0,
      ee_pk = k, ee_sign = (\<lambda>b. k @ b), ee_verify = (\<lambda>k b s. s = k @ b), ee_guard_env = demo_guard_env, ee_apply_evidence = (\<lambda>s _ _. s),
      ee_tally_new = [], ee_tally_add = list_tally_add, ee_tally_best = list_tally_best\<rparr>"

definition fork_node :: "(unit, fork_lru, unit) node" where
  "fork_node = engine_new engine_config_default fork_vset 1 [] demo_app () (Some demo_guard) fork_cache (\<lambda>_. (True, 0))"

definition fork_root :: digest where
  "fork_root = the (snd (state_root (lru_list_ops :: fork_lru root_lru) (\<lambda>_. 0) (demo_env :: unit exec_env) fork_cache demo_app))"

definition fork_block :: "round_no \<Rightarrow> pk \<Rightarrow> block" where
  "fork_block r k =
     \<lparr>blk_header =
        \<lparr>hd_height = 1, hd_round = r, hd_prev = [], hd_proposer_pk = k, hd_tx_root = tx_root (\<lambda>x. x) [],
         hd_receipts_root = receipts_root (\<lambda>x. x) [], hd_state_root = fork_root, hd_base_fee = 1, hd_gas_used = 0, hd_intrinsic_gas = 0,
         hd_exec_gas = 0, hd_vm_gas = 0, hd_evm_gas = 0, hd_chain_id = DEFAULT_CHAIN_ID, hd_timestamp = 0, hd_protocol_version = 1\<rparr>,
      blk_txs = []\<rparr>"

definition fork_id :: "round_no \<Rightarrow> pk \<Rightarrow> hash32" where
  "fork_id r k = eng_block_id (fork_env k) (fork_block r k)"

lemma fork_exec_fields [simp]: "ex_hash fork_exec = (\<lambda>x. x)" "ex_protocol_version fork_exec = 1"
  by (simp_all add: fork_exec_def demo_env_def)

lemma fork_state_root:
  "state_root (lru_list_ops :: fork_lru root_lru) (\<lambda>_. 0) fork_exec fork_cache demo_app = (fork_cache, Some fork_root)"
proof -
  let ?L = "lru_list_ops :: fork_lru root_lru" and ?e = "demo_env :: unit exec_env"
  have s: "state_root ?L (\<lambda>_. 0) fork_exec fork_cache demo_app = state_root ?L (\<lambda>_. 0) ?e fork_cache demo_app"
    by (simp add: state_root_def fork_exec_def)
  obtain m d where r: "state_root ?L (\<lambda>_. 0) ?e fork_cache demo_app = (m, Some d)" using state_root_total by blast
  then have "m = fork_cache"
    by (auto simp: state_root_def state_merkle_root_def state_merkle_root_with_config_def mc_get_def mc_put_def fork_cache_def
        merkle_cache_new_def Let_def split: if_splits option.splits)
  then show ?thesis using r by (simp add: s fork_root_def)
qed

lemma executor_new_fields [simp]:
  "xe_state (executor_new st p f g c) = st" "xe_gas_used (executor_new st p f g c) = 0" "xe_receipts (executor_new st p f g c) = []"
  by (simp_all add: executor_new_def)

lemma fork_run_empty:
  "run_txs env exec_config_default (executor_new st p f g exec_config_default) [] = (executor_new st p f g exec_config_default, Ok [])"
  by (simp add: run_txs_def exec_config_default_def executor_new_def)

lemma fork_build:
  assumes "cs_height (en_state n) = 1" "prev_block_id n = []" "en_app n = demo_app" "base_fee_per_gas n = 1" "n_merkle n = fork_cache"
    "n_io n = (\<lambda>_. (True, 0))"
  shows "eng_build_block (fork_env k) n [] = Some (fork_block (cs_round (en_state n)) k, n\<lparr>n_pos := Suc (n_pos n)\<rparr>)"
proof -
  have "n\<lparr>n_merkle := fork_cache\<rparr> = n" using assms(5) by simp
  then show ?thesis
    using assms by (simp add: eng_build_block_def fork_env_def build_block_def fork_run_empty fork_state_root fork_block_def)
qed

lemma fork_verify:
  assumes "en_app n = demo_app" "n_merkle n = fork_cache" "length k = 32"
  shows "eng_verify_block (fork_env i) n (fork_block r k) k k = Some (Some (demo_app, []), n)"
proof -
  have "n\<lparr>n_merkle := fork_cache\<rparr> = n" using assms(2) by simp
  then show ?thesis
    using assms by (simp add: eng_verify_block_def fork_env_def verify_block_with_vset_def verify_block_def fork_run_empty fork_state_root
        fork_block_def Let_def)
qed

lemma fork_id_less [simp]:
  "fork_id 0 key_a < fork_id (Suc 0) key_b" "\<not> fork_id (Suc 0) key_b < fork_id 0 key_a" "fork_id 0 key_a \<noteq> fork_id (Suc 0) key_b"
  "fork_id (Suc 0) key_b \<noteq> fork_id 0 key_a"
proof -
  have "4 = Suc (Suc (Suc (Suc 0)))" by simp
  then have b: "to_le_bytes 4 0 = [0, 0, 0, 0]" "to_le_bytes 4 (Suc 0) = [1, 0, 0, 0]" by (simp_all only: to_le_bytes.simps) simp_all
  show l: "fork_id 0 key_a < fork_id (Suc 0) key_b"
    by (simp add: fork_id_def eng_block_id_def fork_env_def block_id_def fork_block_def header_bytes_def append_less b)
  show "\<not> fork_id (Suc 0) key_b < fork_id 0 key_a" "fork_id 0 key_a \<noteq> fork_id (Suc 0) key_b" "fork_id (Suc 0) key_b \<noteq> fork_id 0 key_a"
    using l by auto
qed

definition fork_vote :: "pk \<Rightarrow> vote_type \<Rightarrow> round_no \<Rightarrow> hash32 option \<Rightarrow> vote" where
  "fork_vote k vt r b =
     \<lparr>vote_type = vt, vote_height = 1, vote_round = r, voter = k, vote_block = b, vote_signature = k @ vote_sign_bytes vt 1 r b\<rparr>"

definition fork_proposal :: "pk \<Rightarrow> round_no \<Rightarrow> round_no option \<Rightarrow> block proposal" where
  "fork_proposal k r pol =
     \<lparr>prop_height = 1, prop_round = r, proposer = k, prop_block_id = fork_id r k, prop_block = Some (fork_block r k), pol_round = pol,
      prop_signature = k @ proposal_sign_bytes 1 r (fork_id r k) pol\<rparr>"

lemma fork_env_fields [simp]:
  "ee_pk (fork_env k) = k" "ee_sign (fork_env k) = (\<lambda>b. k @ b)" "ee_verify (fork_env k) = (\<lambda>k b s. s = k @ b)"
  "ee_tally_new (fork_env k) = []" "ee_tally_add (fork_env k) = list_tally_add" "ee_tally_best (fork_env k) = list_tally_best"
  "eng_block_id (fork_env i) (fork_block r k) = fork_id r k"
  by (simp_all add: fork_env_def fork_id_def eng_block_id_def)

lemma fork_block_fields [simp]: "hd_proposer_pk (blk_header (fork_block r k)) = k" "hd_gas_used (blk_header (fork_block r k)) = 0"
  by (simp_all add: fork_block_def)

lemma fork_proposer [simp]:
  "proposer_for fork_vset (Suc 0) 0 = Ok \<lparr>v_pk = key_a, v_power = 1\<rparr>"
  "proposer_for fork_vset (Suc 0) (Suc 0) = Ok \<lparr>v_pk = key_b, v_power = 2\<rparr>"
  by (simp_all add: proposer_for_def try_proposer_for_def fork_vset_def wrapping_add_def Let_def)

lemma fork_power [simp]: "power_of fork_vset key_a = 1" "power_of fork_vset key_b = 2" "power_of fork_vset key_c = 1"
  "quorum_threshold (total_power fork_vset) = Some 3"
  by (simp_all add: power_of_def fork_vset_def total_power_def quorum_threshold_def QUORUM_NUMERATOR_def QUORUM_DENOMINATOR_def rust_arith)

definition fork_fee :: u64 where
  "fork_fee = the (next_base_fee 1 0 43000000)"

lemma fork_fee: "next_base_fee (Suc 0) 0 43000000 = Some fork_fee"
  by (simp add: fork_fee_def next_base_fee_def rust_arith ELASTICITY_DENOM_def Let_def)

text \<open>What signing leaves in the guard.\<close>

definition guard_voted :: "vote_type \<Rightarrow> round_no \<Rightarrow> hash32 option \<Rightarrow> guard \<Rightarrow> guard" where
  "guard_voted vt r b g = fst (record_vote hex_lower demo_guard_env True 0 (fst (check_vote hex_lower g vt 1 r b)) vt 1 r b)"

definition guard_proposed :: "round_no \<Rightarrow> hash32 \<Rightarrow> guard \<Rightarrow> guard" where
  "guard_proposed r b g = fst (record_proposal hex_lower demo_guard_env True 0 (fst (check_proposal hex_lower g 1 r b)) 1 r b)"

lemma fork_lookup [simp]:
  "vote_lookup (guard_voted vt r b g) x = (if x = (vt, 1, r) then Some (vote_value hex_lower b) else vote_lookup g x)"
  "vote_lookup (guard_proposed r i g) x = vote_lookup g x" "vote_lookup demo_guard x = None"
  "proposal_lookup (guard_proposed r i g) y = (if y = (1, r) then Some (hex_lower i) else proposal_lookup g y)"
  "proposal_lookup (guard_voted vt r b g) y = proposal_lookup g y" "proposal_lookup demo_guard y = None"
  by (auto simp: guard_voted_def guard_proposed_def vote_lookup_def proposal_lookup_def record_vote_def record_proposal_def check_vote_def
      check_proposal_def save_defs demo_guard_def guard_state_default_def bt_get_insert Let_def split: option.splits prod.splits)

lemma fork_guard:
  assumes "ds_guard n = Some g" "cs_height (en_state n) = 1" "n_io n = (\<lambda>_. (True, 0))"
  shows "vote_lookup g (vt, 1, cs_round (en_state n)) = None \<Longrightarrow> guard_vote (fork_env k) n vt b =
      (n\<lparr>ds_guard := Some (guard_voted vt (cs_round (en_state n)) b g), n_pos := Suc (n_pos n)\<rparr>, True)"
    "proposal_lookup g (1, cs_round (en_state n)) = None \<Longrightarrow> guard_proposal (fork_env k) n i =
      (n\<lparr>ds_guard := Some (guard_proposed (cs_round (en_state n)) i g), n_pos := Suc (n_pos n)\<rparr>, True)"
  using assms
  by (auto simp: guard_vote_def guard_proposal_def guard_voted_def guard_proposed_def vote_lookup_def proposal_lookup_def fork_env_def
      fork_exec_def demo_env_def check_vote_def check_proposal_def record_vote_def record_proposal_def save_defs Let_def)

definition cast_vote :: "pk \<Rightarrow> vote_type \<Rightarrow> round_no \<Rightarrow> hash32 option \<Rightarrow> (unit, fork_lru, unit) node \<Rightarrow> (unit, fork_lru, unit) node" where
  "cast_vote k vt r b n = emit (Broadcast (Msg_Vote (fork_vote k vt r b)))
     (n\<lparr>ds_guard := map_option (guard_voted vt r b) (ds_guard n), n_pos := Suc (n_pos n)\<rparr>)"

definition cast_proposal :: "pk \<Rightarrow> round_no \<Rightarrow> round_no option \<Rightarrow> (unit, fork_lru, unit) node \<Rightarrow> (unit, fork_lru, unit) node" where
  "cast_proposal k r pol n = emit (Broadcast (Msg_Proposal (fork_proposal k r pol)))
     ((upd_state (\<lambda>st. st\<lparr>cs_proposal := Some (fork_proposal k r pol), proposal_block := Some (fork_block r k)\<rparr>) n)
       \<lparr>ds_guard := map_option (guard_proposed r (fork_id r k)) (ds_guard n), n_pos := Suc (Suc (Suc (n_pos n))),
        n_store := bt_insert (fork_id r k) (fork_block r k) (n_store n)\<rparr>)"

definition fork_commit :: "round_no \<Rightarrow> pk \<Rightarrow> (unit, fork_lru, unit) node \<Rightarrow> (unit, fork_lru, unit) node" where
  "fork_commit r k n = (let cert = certificate (en_state n) (fork_id r k) in
     emit (On_Commit cert (fork_block r k) demo_app fork_fee []) (n\<lparr>en_state := (en_state n)\<lparr>decided := Some cert, cs_step := Step_Commit\<rparr>,
       prev_block_id := fork_id r k, base_fee_per_gas := fork_fee\<rparr>))"

definition fork_a1 :: "(unit, fork_lru, unit) node" where
  "fork_a1 = cast_vote key_a Prevote 0 (Some (fork_id 0 key_a))
     (upd_state (\<lambda>st. st\<lparr>cs_step := Step_Prevote\<rparr>) (cast_proposal key_a 0 None fork_node))"

definition fork_a2 :: "(unit, fork_lru, unit) node" where
  "fork_a2 = upd_state (add_vote (fork_vote key_a Prevote 0 (Some (fork_id 0 key_a)))) fork_a1"

definition fork_a3 :: "(unit, fork_lru, unit) node" where
  "fork_a3 = cast_vote key_a Precommit 0 (Some (fork_id 0 key_a))
     (upd_state (lock_on (fork_id 0 key_a)) (upd_state (add_vote (fork_vote key_b Prevote 0 (Some (fork_id 0 key_a)))) fork_a2))"

definition fork_a4 :: "(unit, fork_lru, unit) node" where
  "fork_a4 = upd_state (add_vote (fork_vote key_a Precommit 0 (Some (fork_id 0 key_a)))) fork_a3"

definition fork_a5 :: "(unit, fork_lru, unit) node" where
  "fork_a5 = fork_commit 0 key_a (upd_state (add_vote (fork_vote key_b Precommit 0 (Some (fork_id 0 key_a)))) fork_a4)"

definition fork_b1 :: "(unit, fork_lru, unit) node" where
  "fork_b1 = cast_vote key_b Prevote 0 (Some (fork_id 0 key_a))
     ((upd_state (\<lambda>st. st\<lparr>cs_proposal := Some (fork_proposal key_a 0 None), proposal_block := Some (fork_block 0 key_a), cs_step := Step_Prevote\<rparr>) fork_node)
       \<lparr>n_store := [(fork_id 0 key_a, fork_block 0 key_a)], n_pos := Suc (n_pos fork_node)\<rparr>)"

definition fork_b2 :: "(unit, fork_lru, unit) node" where
  "fork_b2 = upd_state (add_vote (fork_vote key_a Prevote 0 (Some (fork_id 0 key_a)))) fork_b1"

definition fork_b3 :: "(unit, fork_lru, unit) node" where
  "fork_b3 = cast_vote key_b Precommit 0 (Some (fork_id 0 key_a))
     (upd_state (lock_on (fork_id 0 key_a)) (upd_state (add_vote (fork_vote key_b Prevote 0 (Some (fork_id 0 key_a)))) fork_b2))"

definition fork_b4 :: "(unit, fork_lru, unit) node" where
  "fork_b4 = cast_proposal key_b 1 (Some 0) (upd_state next_round fork_b3)"

definition fork_b5 :: "(unit, fork_lru, unit) node" where
  "fork_b5 = cast_vote key_b Prevote 1 (Some (fork_id 1 key_b))
     (upd_state (\<lambda>st. st\<lparr>cs_step := Step_Prevote\<rparr>) fork_b4)"

definition fork_b6 :: "(unit, fork_lru, unit) node" where
  "fork_b6 = upd_state (add_vote (fork_vote key_b Prevote 1 (Some (fork_id 1 key_b)))) fork_b5"

definition fork_b7 :: "(unit, fork_lru, unit) node" where
  "fork_b7 = cast_vote key_b Precommit 1 (Some (fork_id 1 key_b))
     (upd_state (lock_on (fork_id 1 key_b)) (upd_state (add_vote (fork_vote key_c Prevote 1 (Some (fork_id 1 key_b)))) fork_b6))"

definition fork_c1 :: "(unit, fork_lru, unit) node" where
  "fork_c1 = cast_vote key_c Prevote 0 None (upd_state (\<lambda>st. st\<lparr>cs_step := Step_Prevote\<rparr>) fork_node)"

definition fork_c2 :: "(unit, fork_lru, unit) node" where
  "fork_c2 = upd_state next_round fork_c1"

definition fork_c3 :: "(unit, fork_lru, unit) node" where
  "fork_c3 = cast_vote key_c Prevote 1 (Some (fork_id 1 key_b))
     ((upd_state (\<lambda>st. st\<lparr>cs_proposal := Some (fork_proposal key_b 1 (Some 0)), proposal_block := Some (fork_block 1 key_b), cs_step := Step_Prevote\<rparr>) fork_c2)
       \<lparr>n_store := [(fork_id 1 key_b, fork_block 1 key_b)], n_pos := Suc (n_pos fork_c2)\<rparr>)"

definition fork_c4 :: "(unit, fork_lru, unit) node" where
  "fork_c4 = upd_state (add_vote (fork_vote key_b Prevote 1 (Some (fork_id 1 key_b)))) fork_c3"

definition fork_c5 :: "(unit, fork_lru, unit) node" where
  "fork_c5 = cast_vote key_c Precommit 1 (Some (fork_id 1 key_b))
     (upd_state (lock_on (fork_id 1 key_b)) (upd_state (add_vote (fork_vote key_c Prevote 1 (Some (fork_id 1 key_b)))) fork_c4))"

definition fork_c6 :: "(unit, fork_lru, unit) node" where
  "fork_c6 = upd_state (add_vote (fork_vote key_b Precommit 1 (Some (fork_id 1 key_b)))) fork_c5"

definition fork_c7 :: "(unit, fork_lru, unit) node" where
  "fork_c7 = fork_commit 1 key_b (upd_state (add_vote (fork_vote key_c Precommit 1 (Some (fork_id 1 key_b)))) fork_c6)"

definition fork_d4 :: "(unit, fork_lru, unit) node" where
  "fork_d4 = upd_state (add_vote (fork_vote key_a Precommit 0 (Some (fork_id 0 key_a)))) fork_b3"

definition fork_d5 :: "(unit, fork_lru, unit) node" where
  "fork_d5 = fork_commit 0 key_a (upd_state (add_vote (fork_vote key_b Precommit 0 (Some (fork_id 0 key_a)))) fork_d4)"

lemmas fork_calls = do_call_def tick_def maybe_propose_def is_proposer_def advance_round_alt store_put_def emit_def enter_step_def
  broadcast_vote_def upd_state_def next_round_def lock_on_def on_message_def on_proposal_def on_vote_def verify_proposal_def verify_vote_def
  prevote_choice_def on_prevote_quorum_def on_precommit_quorum_def certificate_def cast_vote_def cast_proposal_def fork_commit_def

lemmas fork_votes = accept_vote_def add_vote_def record_vote_and_detect_evidence_def store_vote_def tally_def votes_at_def collect_votes_def
  list_tally_add_def less_vote_type_def

lemmas fork_data = fork_node_def engine_new_def consensus_state_new_def engine_config_default_def fork_proposal_def fork_vote_def saturating_add_def
  vs_contains_def

lemmas fork_nodes = fork_a1_def fork_a2_def fork_a3_def fork_a4_def fork_a5_def fork_b1_def fork_b2_def fork_b3_def fork_b4_def fork_b5_def fork_b6_def
  fork_b7_def fork_c1_def fork_c2_def fork_c3_def fork_c4_def fork_c5_def fork_c6_def fork_c7_def fork_d4_def fork_d5_def

lemmas fork_eval = fork_calls fork_votes fork_data fork_nodes fork_build fork_verify fork_guard fork_fee Let_def

lemma fork_step_a1: "do_call (fork_env key_a) fork_node (Tick 1 (\<lambda>_. [])) = (fork_a1, Ok ())"
  by (simp add: fork_eval)

lemma fork_step_a2: "do_call (fork_env key_a) fork_a1 (Message (Msg_Vote (fork_vote key_a Prevote 0 (Some (fork_id 0 key_a))))) = (fork_a2, Ok ())"
  by (simp add: fork_eval)

lemma fork_step_a3: "do_call (fork_env key_a) fork_a2 (Message (Msg_Vote (fork_vote key_b Prevote 0 (Some (fork_id 0 key_a))))) = (fork_a3, Ok ())"
  by (simp add: fork_eval)

lemma fork_step_a4: "do_call (fork_env key_a) fork_a3 (Message (Msg_Vote (fork_vote key_a Precommit 0 (Some (fork_id 0 key_a))))) = (fork_a4, Ok ())"
  by (simp add: fork_eval)

lemma fork_step_a5: "do_call (fork_env key_a) fork_a4 (Message (Msg_Vote (fork_vote key_b Precommit 0 (Some (fork_id 0 key_a))))) = (fork_a5, Ok ())"
  by (simp add: fork_eval)

lemma fork_step_b1: "do_call (fork_env key_b) fork_node (Message (Msg_Proposal (fork_proposal key_a 0 None))) = (fork_b1, Ok ())"
  by (simp add: fork_eval)

lemma fork_step_b2: "do_call (fork_env key_b) fork_b1 (Message (Msg_Vote (fork_vote key_a Prevote 0 (Some (fork_id 0 key_a))))) = (fork_b2, Ok ())"
  by (simp add: fork_eval)

lemma fork_step_b3: "do_call (fork_env key_b) fork_b2 (Message (Msg_Vote (fork_vote key_b Prevote 0 (Some (fork_id 0 key_a))))) = (fork_b3, Ok ())"
  by (simp add: fork_eval)

lemma fork_step_b4: "do_call (fork_env key_b) fork_b3 (Tick 200 (\<lambda>_. [])) = (fork_b4, Ok ())"
  by (simp add: fork_eval)

lemma fork_step_b5: "do_call (fork_env key_b) fork_b4 (Tick 1 (\<lambda>_. [])) = (fork_b5, Ok ())"
  by (simp add: fork_eval)

lemma fork_step_b6: "do_call (fork_env key_b) fork_b5 (Message (Msg_Vote (fork_vote key_b Prevote 1 (Some (fork_id 1 key_b))))) = (fork_b6, Ok ())"
  by (simp add: fork_eval)

lemma fork_step_b7: "do_call (fork_env key_b) fork_b6 (Message (Msg_Vote (fork_vote key_c Prevote 1 (Some (fork_id 1 key_b))))) = (fork_b7, Ok ())"
  by (simp add: fork_eval)

lemma fork_step_c1: "do_call (fork_env key_c) fork_node (Tick 300 (\<lambda>_. [])) = (fork_c1, Ok ())"
  by (simp add: fork_eval)

lemma fork_step_c2: "do_call (fork_env key_c) fork_c1 (Tick 200 (\<lambda>_. [])) = (fork_c2, Ok ())"
  by (simp add: fork_eval)

lemma fork_step_c3: "do_call (fork_env key_c) fork_c2 (Message (Msg_Proposal (fork_proposal key_b 1 (Some 0)))) = (fork_c3, Ok ())"
  by (simp add: fork_eval)

lemma fork_step_c4: "do_call (fork_env key_c) fork_c3 (Message (Msg_Vote (fork_vote key_b Prevote 1 (Some (fork_id 1 key_b))))) = (fork_c4, Ok ())"
  by (simp add: fork_eval)

lemma fork_step_c5: "do_call (fork_env key_c) fork_c4 (Message (Msg_Vote (fork_vote key_c Prevote 1 (Some (fork_id 1 key_b))))) = (fork_c5, Ok ())"
  by (simp add: fork_eval)

lemma fork_step_c6: "do_call (fork_env key_c) fork_c5 (Message (Msg_Vote (fork_vote key_b Precommit 1 (Some (fork_id 1 key_b))))) = (fork_c6, Ok ())"
  by (simp add: fork_eval)

lemma fork_step_c7: "do_call (fork_env key_c) fork_c6 (Message (Msg_Vote (fork_vote key_c Precommit 1 (Some (fork_id 1 key_b))))) = (fork_c7, Ok ())"
  by (simp add: fork_eval)

lemma fork_step_d4: "do_call (fork_env key_b) fork_b3 (Message (Msg_Vote (fork_vote key_a Precommit 0 (Some (fork_id 0 key_a))))) = (fork_d4, Ok ())"
  by (simp add: fork_eval)

lemma fork_step_d5: "do_call (fork_env key_b) fork_d4 (Message (Msg_Vote (fork_vote key_b Precommit 0 (Some (fork_id 0 key_a))))) = (fork_d5, Ok ())"
  by (simp add: fork_eval)

subsection \<open>The run of the network\<close>

abbreviation fork_keys :: "pk set" where
  "fork_keys \<equiv> {key_a, key_b, key_c}"

definition fork_net :: "(unit, fork_lru, unit) node \<Rightarrow> (unit, fork_lru, unit) node \<Rightarrow> (unit, fork_lru, unit) node \<Rightarrow> (unit, fork_lru, unit) net" where
  "fork_net a b c = (\<lambda>_. fork_node)(key_a := a, key_b := b, key_c := c)"

lemma fork_net_apply [simp]: "fork_net a b c key_a = a" "fork_net a b c key_b = b" "fork_net a b c key_c = c"
  by (simp_all add: fork_net_def)

definition fork_reach :: "(unit, fork_lru, unit) node \<Rightarrow> (unit, fork_lru, unit) node \<Rightarrow> (unit, fork_lru, unit) node \<Rightarrow> bool" where
  "fork_reach a b c \<longleftrightarrow> net_run fork_keys fork_env (\<lambda>_. fork_node) (fork_net a b c)"

lemma fork_reach_start: "fork_reach fork_node fork_node fork_node"
proof -
  have "fork_net fork_node fork_node fork_node = (\<lambda>_. fork_node)" by (auto simp: fork_net_def)
  then show ?thesis by (simp add: fork_reach_def)
qed

lemma fork_authentic:
  assumes "k \<in> fork_keys"
  shows "Broadcast (Msg_Vote (fork_vote k vt r x)) \<in> set (n_out (fork_net a b c k)) \<Longrightarrow>
      authentic fork_keys env (fork_net a b c) (Msg_Vote (fork_vote k vt r x))"
    "Broadcast (Msg_Proposal (fork_proposal k r pol)) \<in> set (n_out (fork_net a b c k)) \<Longrightarrow>
      authentic fork_keys env (fork_net a b c) (Msg_Proposal (fork_proposal k r pol))"
proof -
  show "authentic fork_keys env (fork_net a b c) (Msg_Vote (fork_vote k vt r x))"
    if "Broadcast (Msg_Vote (fork_vote k vt r x)) \<in> set (n_out (fork_net a b c k))"
    using sent_votesI [OF that] by (simp add: authentic_def vote_authentic_def sent_by_def fork_vote_def)
  show "authentic fork_keys env (fork_net a b c) (Msg_Proposal (fork_proposal k r pol))"
    if "Broadcast (Msg_Proposal (fork_proposal k r pol)) \<in> set (n_out (fork_net a b c k))"
    using sent_proposalsI [OF that] by (simp add: authentic_def proposed_by_def fork_proposal_def)
qed

lemma fork_reach_step:
  assumes "fork_reach a b c"
  shows "do_call (fork_env key_a) a x = (a', Ok ()) \<Longrightarrow> (\<And>m. x = Message m \<Longrightarrow> authentic fork_keys (fork_env key_a) (fork_net a b c) m) \<Longrightarrow>
      fork_reach a' b c"
    "do_call (fork_env key_b) b x = (b', Ok ()) \<Longrightarrow> (\<And>m. x = Message m \<Longrightarrow> authentic fork_keys (fork_env key_b) (fork_net a b c) m) \<Longrightarrow>
      fork_reach a b' c"
    "do_call (fork_env key_c) c x = (c', Ok ()) \<Longrightarrow> (\<And>m. x = Message m \<Longrightarrow> authentic fork_keys (fork_env key_c) (fork_net a b c) m) \<Longrightarrow>
      fork_reach a b c'"
proof -
  have step: "net_run fork_keys fork_env (\<lambda>_. fork_node) ((fork_net a b c)(k := n'))"
    if "k \<in> fork_keys" "do_call (fork_env k) (fork_net a b c k) x = (n', Ok ())"
      "\<And>m. x = Message m \<Longrightarrow> authentic fork_keys (fork_env k) (fork_net a b c) m" for k n'
    using assms unfolding fork_reach_def
    by (rule rtranclp.rtrancl_into_rtrancl) (rule net_step.at [of k _ _ _ x n' "Ok ()"], use that in auto)
  have upd: "(fork_net a b c)(key_a := n') = fork_net n' b c" "(fork_net a b c)(key_b := n') = fork_net a n' c"
    "(fork_net a b c)(key_c := n') = fork_net a b n'" for n' by (auto simp: fork_net_def)
  show "fork_reach a' b c" if "do_call (fork_env key_a) a x = (a', Ok ())"
    "\<And>m. x = Message m \<Longrightarrow> authentic fork_keys (fork_env key_a) (fork_net a b c) m"
    using step [of key_a a'] that by (simp add: fork_reach_def upd)
  show "fork_reach a b' c" if "do_call (fork_env key_b) b x = (b', Ok ())"
    "\<And>m. x = Message m \<Longrightarrow> authentic fork_keys (fork_env key_b) (fork_net a b c) m"
    using step [of key_b b'] that by (simp add: fork_reach_def upd)
  show "fork_reach a b c'" if "do_call (fork_env key_c) c x = (c', Ok ())"
    "\<And>m. x = Message m \<Longrightarrow> authentic fork_keys (fork_env key_c) (fork_net a b c) m"
    using step [of key_c c'] that by (simp add: fork_reach_def upd)
qed

lemma fork_outs:
  "n_out fork_a1 = [Broadcast (Msg_Proposal (fork_proposal key_a 0 None)), Broadcast (Msg_Vote (fork_vote key_a Prevote 0 (Some (fork_id 0 key_a))))]"
  "n_out fork_a2 = n_out fork_a1" "n_out fork_a3 = n_out fork_a2 @ [Broadcast (Msg_Vote (fork_vote key_a Precommit 0 (Some (fork_id 0 key_a))))]"
  "n_out fork_a4 = n_out fork_a3" "n_out fork_b1 = [Broadcast (Msg_Vote (fork_vote key_b Prevote 0 (Some (fork_id 0 key_a))))]"
  "n_out fork_b2 = n_out fork_b1" "n_out fork_b3 = n_out fork_b2 @ [Broadcast (Msg_Vote (fork_vote key_b Precommit 0 (Some (fork_id 0 key_a))))]"
  "n_out fork_b4 = n_out fork_b3 @ [Broadcast (Msg_Proposal (fork_proposal key_b 1 (Some 0)))]"
  "n_out fork_b5 = n_out fork_b4 @ [Broadcast (Msg_Vote (fork_vote key_b Prevote 1 (Some (fork_id 1 key_b))))]"
  "n_out fork_b6 = n_out fork_b5" "n_out fork_b7 = n_out fork_b6 @ [Broadcast (Msg_Vote (fork_vote key_b Precommit 1 (Some (fork_id 1 key_b))))]"
  "n_out fork_c2 = n_out fork_c1" "n_out fork_c3 = n_out fork_c2 @ [Broadcast (Msg_Vote (fork_vote key_c Prevote 1 (Some (fork_id 1 key_b))))]"
  "n_out fork_c4 = n_out fork_c3" "n_out fork_c5 = n_out fork_c4 @ [Broadcast (Msg_Vote (fork_vote key_c Precommit 1 (Some (fork_id 1 key_b))))]"
  "n_out fork_c6 = n_out fork_c5" "n_out fork_d4 = n_out fork_b3"
  by (simp_all add: fork_nodes cast_vote_def cast_proposal_def fork_node_def engine_new_def)

lemma fork_commits:
  "n_out fork_a5 = n_out fork_a4 @ [On_Commit \<lparr>cc_height = 1, cc_block_id = fork_id 0 key_a,
     cc_precommits = [fork_vote key_a Precommit 0 (Some (fork_id 0 key_a)), fork_vote key_b Precommit 0 (Some (fork_id 0 key_a))]\<rparr>
     (fork_block 0 key_a) demo_app fork_fee []]"
  "n_out fork_d5 = n_out fork_d4 @ [On_Commit \<lparr>cc_height = 1, cc_block_id = fork_id 0 key_a,
     cc_precommits = [fork_vote key_a Precommit 0 (Some (fork_id 0 key_a)), fork_vote key_b Precommit 0 (Some (fork_id 0 key_a))]\<rparr>
     (fork_block 0 key_a) demo_app fork_fee []]"
  "n_out fork_c7 = n_out fork_c6 @ [On_Commit \<lparr>cc_height = 1, cc_block_id = fork_id 1 key_b,
     cc_precommits = [fork_vote key_b Precommit 1 (Some (fork_id 1 key_b)), fork_vote key_c Precommit 1 (Some (fork_id 1 key_b))]\<rparr>
     (fork_block 1 key_b) demo_app fork_fee []]"
  by (simp_all add: fork_eval)

lemma fork_reach_a1: "fork_reach fork_a1 fork_node fork_node"
  by (rule fork_reach_step(1) [OF fork_reach_start fork_step_a1]) (auto intro!: fork_authentic simp: fork_outs fork_commits)

lemma fork_reach_b1: "fork_reach fork_a1 fork_b1 fork_node"
  by (rule fork_reach_step(2) [OF fork_reach_a1 fork_step_b1]) (auto intro!: fork_authentic simp: fork_outs fork_commits)

lemma fork_reach_a2: "fork_reach fork_a2 fork_b1 fork_node"
  by (rule fork_reach_step(1) [OF fork_reach_b1 fork_step_a2]) (auto intro!: fork_authentic simp: fork_outs fork_commits)

lemma fork_reach_a3: "fork_reach fork_a3 fork_b1 fork_node"
  by (rule fork_reach_step(1) [OF fork_reach_a2 fork_step_a3]) (auto intro!: fork_authentic simp: fork_outs fork_commits)

lemma fork_reach_b2: "fork_reach fork_a3 fork_b2 fork_node"
  by (rule fork_reach_step(2) [OF fork_reach_a3 fork_step_b2]) (auto intro!: fork_authentic simp: fork_outs fork_commits)

lemma fork_reach_b3: "fork_reach fork_a3 fork_b3 fork_node"
  by (rule fork_reach_step(2) [OF fork_reach_b2 fork_step_b3]) (auto intro!: fork_authentic simp: fork_outs fork_commits)

lemma fork_reach_a4: "fork_reach fork_a4 fork_b3 fork_node"
  by (rule fork_reach_step(1) [OF fork_reach_b3 fork_step_a4]) (auto intro!: fork_authentic simp: fork_outs fork_commits)

lemma fork_reach_a5: "fork_reach fork_a5 fork_b3 fork_node"
  by (rule fork_reach_step(1) [OF fork_reach_a4 fork_step_a5]) (auto intro!: fork_authentic simp: fork_outs fork_commits)

lemma fork_reach_b4: "fork_reach fork_a5 fork_b4 fork_node"
  by (rule fork_reach_step(2) [OF fork_reach_a5 fork_step_b4]) (auto intro!: fork_authentic simp: fork_outs fork_commits)

lemma fork_reach_b5: "fork_reach fork_a5 fork_b5 fork_node"
  by (rule fork_reach_step(2) [OF fork_reach_b4 fork_step_b5]) (auto intro!: fork_authentic simp: fork_outs fork_commits)

lemma fork_reach_c1: "fork_reach fork_a5 fork_b5 fork_c1"
  by (rule fork_reach_step(3) [OF fork_reach_b5 fork_step_c1]) (auto intro!: fork_authentic simp: fork_outs fork_commits)

lemma fork_reach_c2: "fork_reach fork_a5 fork_b5 fork_c2"
  by (rule fork_reach_step(3) [OF fork_reach_c1 fork_step_c2]) (auto intro!: fork_authentic simp: fork_outs fork_commits)

lemma fork_reach_c3: "fork_reach fork_a5 fork_b5 fork_c3"
  by (rule fork_reach_step(3) [OF fork_reach_c2 fork_step_c3]) (auto intro!: fork_authentic simp: fork_outs fork_commits)

lemma fork_reach_b6: "fork_reach fork_a5 fork_b6 fork_c3"
  by (rule fork_reach_step(2) [OF fork_reach_c3 fork_step_b6]) (auto intro!: fork_authentic simp: fork_outs fork_commits)

lemma fork_reach_b7: "fork_reach fork_a5 fork_b7 fork_c3"
  by (rule fork_reach_step(2) [OF fork_reach_b6 fork_step_b7]) (auto intro!: fork_authentic simp: fork_outs fork_commits)

lemma fork_reach_c4: "fork_reach fork_a5 fork_b7 fork_c4"
  by (rule fork_reach_step(3) [OF fork_reach_b7 fork_step_c4]) (auto intro!: fork_authentic simp: fork_outs fork_commits)

lemma fork_reach_c5: "fork_reach fork_a5 fork_b7 fork_c5"
  by (rule fork_reach_step(3) [OF fork_reach_c4 fork_step_c5]) (auto intro!: fork_authentic simp: fork_outs fork_commits)

lemma fork_reach_c6: "fork_reach fork_a5 fork_b7 fork_c6"
  by (rule fork_reach_step(3) [OF fork_reach_c5 fork_step_c6]) (auto intro!: fork_authentic simp: fork_outs fork_commits)

lemma fork_reach_c7: "fork_reach fork_a5 fork_b7 fork_c7"
  by (rule fork_reach_step(3) [OF fork_reach_c6 fork_step_c7]) (auto intro!: fork_authentic simp: fork_outs fork_commits)

lemma fork_reach_d4: "fork_reach fork_a5 fork_d4 fork_node"
  by (rule fork_reach_step(2) [OF fork_reach_a5 fork_step_d4]) (auto intro!: fork_authentic simp: fork_outs fork_commits)

lemma fork_reach_d5: "fork_reach fork_a5 fork_d5 fork_node"
  by (rule fork_reach_step(2) [OF fork_reach_d4 fork_step_d5]) (auto intro!: fork_authentic simp: fork_outs fork_commits)

subsection \<open>The fork\<close>

text \<open>C11: Honest validators can commit different blocks at one height. Three validators with power 1, 2 and 1 all run the
  engine, under the guard, and nobody signs two values for one height, round and kind; the network only
  delays messages. The first commits its block in round 0; the second, locked on that block, times out,
  becomes the proposer of round 1, proposes a new block instead of the one it is locked on, and
  prevotes it in \<open>tick\<close> without looking at its lock; the third then commits the second block.\<close>

theorem honest_validators_fork:
  "\<exists>N c b c' b'. v_pk ` set (vals fork_vset) = {key_a, key_b, key_c} \<and>
    fork_node = engine_new engine_config_default fork_vset 1 [] demo_app () (Some demo_guard) fork_cache (\<lambda>_. (True, 0)) \<and>
    net_run {key_a, key_b, key_c} fork_env (\<lambda>_. fork_node) N \<and>
    list_all (\<lambda>k. single_valued (sent_votes (N k)) \<and> single_valued (sent_proposals (N k))) [key_a, key_b, key_c] \<and>
    (c, b) \<in> set (commits (n_out (N key_a))) \<and> (c', b') \<in> set (commits (n_out (N key_c))) \<and>
    cc_height c = cc_height c' \<and> cc_block_id c \<noteq> cc_block_id c'"
proof -
  let ?N = "fork_net fork_a5 fork_b7 fork_c7"
  have run: "net_run fork_keys fork_env (\<lambda>_. fork_node) ?N" using fork_reach_c7 by (simp add: fork_reach_def)
  have hex: "env_hex_ok (fork_env k)" for k
    using hex_lower_inj hex_lower_not_nil by (simp add: env_hex_ok_def fork_env_def fork_exec_def demo_env_def)
  have "guarded (fork_env k) (?N k)" for k
    by (rule move_invariant.moves_kept [OF guarded_invariant [OF hex] run_moves [OF net_run_project [OF run]]])
      (simp add: fork_node_def guarded_def engine_new_def sent_votes_def sent_proposals_def on_record_def)
  then have sv: "single_valued (sent_votes (?N k)) \<and> single_valued (sent_proposals (?N k))" for k
    using sent_functional [OF hex, of k "?N k"] unfolding single_valued_def by blast
  have "commits (n_out fork_a5) \<noteq> []" "commits (n_out fork_c7) \<noteq> []"
    "\<forall>x \<in> set (commits (n_out fork_a5)). cc_height (fst x) = 1 \<and> cc_block_id (fst x) = fork_id 0 key_a"
    "\<forall>x \<in> set (commits (n_out fork_c7)). cc_height (fst x) = 1 \<and> cc_block_id (fst x) = fork_id 1 key_b"
    by (simp_all add: fork_commits fork_outs fork_c1_def cast_vote_def fork_node_def engine_new_def)
  then obtain c b c' b' where cb: "(c, b) \<in> set (commits (n_out (?N key_a)))" "(c', b') \<in> set (commits (n_out (?N key_c)))"
      "cc_height c = cc_height c'" "cc_block_id c = fork_id 0 key_a" "cc_block_id c' = fork_id 1 key_b"
    by (metis fork_net_apply(1,3) fst_conv list.set_sel(1) surj_pair)
  have ne: "cc_block_id c \<noteq> cc_block_id c'" using cb(4,5) fork_id_less(3) by simp
  have keys: "v_pk ` set (vals fork_vset) = {key_a, key_b, key_c}" by (auto simp: fork_vset_def)
  have all: "list_all (\<lambda>k. single_valued (sent_votes (?N k)) \<and> single_valued (sent_proposals (?N k))) [key_a, key_b, key_c]"
    using sv by (simp only: list.pred_inject)
  show ?thesis
    by (intro exI [of _ ?N] exI [of _ c] exI [of _ b] exI [of _ c'] exI [of _ b'] conjI keys fork_node_def run all cb(1-3) ne)
qed

subsection \<open>Runs that commit\<close>

lemma fork_hex: "env_hex_ok (fork_env k)"
  using hex_lower_inj hex_lower_not_nil by (simp add: env_hex_ok_def fork_env_def fork_exec_def demo_env_def)

lemma fork_tally: "tally_sound (fork_env k)"
  using lt.vote_tally_axioms by (simp add: tally_sound_def fork_env_def)

lemma fork_run: "engine_run (fork_env key_a) fork_node fork_a5" "engine_run (fork_env key_b) fork_node fork_b7"
  using net_run_project [OF fork_reach_c7 [unfolded fork_reach_def], of key_a] net_run_project [OF fork_reach_c7 [unfolded fork_reach_def], of key_b]
  by simp_all

theorem engine_never_equivocates_witness:
  "Broadcast (Msg_Vote (fork_vote key_b Prevote 1 (Some (fork_id 1 key_b)))) \<in> set (n_out fork_b7) \<and>
   Broadcast (Msg_Vote (fork_vote key_b Prevote 1 None)) \<notin> set (n_out fork_b7)"
proof -
  have "Broadcast (Msg_Vote (fork_vote key_b Prevote 1 (Some (fork_id 1 key_b)))) \<in> set (n_out fork_b7)" by (simp add: fork_outs)
  moreover have "ds_guard fork_node = Some demo_guard" "n_out fork_node = []" by (simp_all add: fork_node_def engine_new_def)
  ultimately show ?thesis
    using engine_never_equivocates [OF fork_hex _ _ fork_run(2), of demo_guard "fork_vote key_b Prevote 1 (Some (fork_id 1 key_b))"
        "fork_vote key_b Prevote 1 None"] by (auto simp: fork_vote_def)
qed

theorem engine_state_typed_witness: "node_typed (fork_env key_a) fork_a5"
  by (rule engine_state_typed [OF fork_run(1) [unfolded fork_node_def]])

theorem commit_certificate_sound_witness:
  "\<exists>cert b r. (cert, b) \<in> set (commits (n_out fork_a5)) \<and> cert_ok (fork_env key_a) fork_vset r cert"
proof -
  have "commits (n_out fork_a5) \<noteq> []" by (simp add: fork_commits fork_outs)
  then show ?thesis
    using commit_certificate_sound [OF fork_tally fork_run(1) [unfolded fork_node_def]]
    by (cases "commits (n_out fork_a5)") (auto simp: list_all_iff)
qed

theorem same_round_agreement_witness:
  "\<exists>c b c' b'. (c, b) \<in> set (commits (n_out fork_a5)) \<and> (c', b') \<in> set (commits (n_out fork_d5)) \<and> cc_block_id c = cc_block_id c'"
proof -
  let ?N = "fork_net fork_a5 fork_d5 fork_node"
  let ?c = "\<lparr>cc_height = 1, cc_block_id = fork_id 0 key_a,
     cc_precommits = [fork_vote key_a Precommit 0 (Some (fork_id 0 key_a)), fork_vote key_b Precommit 0 (Some (fork_id 0 key_a))]\<rparr>"
  let ?v = "fork_vote key_a Precommit 0 (Some (fork_id 0 key_a))"
  have run: "net_run fork_keys fork_env (\<lambda>_. fork_node) ?N" using fork_reach_d5 by (simp add: fork_reach_def)
  have start: "\<forall>i \<in> fork_keys. \<exists>cfg h prev app st g mc io. (\<lambda>_. fork_node) i = engine_new cfg fork_vset h prev app st (Some g) mc io"
    unfolding fork_node_def by blast
  have env: "\<forall>i \<in> fork_keys. env_hex_ok (fork_env i) \<and> tally_sound (fork_env i)" using fork_hex fork_tally by blast
  have p: "power_sum fork_vset < 2 ^ 63" "3 * power_in fork_vset (- fork_keys) < power_sum fork_vset"
    by (simp_all add: power_sum_def power_in_def fork_vset_def)
  have c: "(?c, fork_block 0 key_a) \<in> set (commits (n_out (?N key_a)))" "(?c, fork_block 0 key_a) \<in> set (commits (n_out (?N key_b)))"
    by (simp_all add: fork_commits)
  have "cc_block_id ?c = cc_block_id ?c"
    by (rule same_round_agreement [OF run start env p _ c(1) _ c(2), of ?v ?v]) simp_all
  then show ?thesis using c by fastforce
qed

end
