(* ===== verification/Spec2Isabelle.thy ===== *)
theory Spec2Isabelle
  imports Staking_Tx Vm_State Gas_Meter Vm_Arith Double_Sign Block_Verify Engine_Fork
begin

text \<open>
  A verification development of the IONA protocol node (\<open>src/src\<close>).

  \<^bold>\<open>The program.\<close> A node runs a BFT consensus engine (\<open>consensus/engine.rs\<close>) over a validator set
  (\<open>consensus/validator_set.rs\<close>, \<open>consensus/quorum.rs\<close>). The engine exchanges signed proposals and votes
  (\<open>consensus/messages.rs\<close>), never signs before a persistent double-sign guard agrees
  (\<open>consensus/double_sign.rs\<close>), builds and verifies blocks by executing their transactions on the
  application state (\<open>execution.rs\<close>), and identifies blocks and states by hashes (\<open>types/mod.rs\<close>,
  \<open>merkle.rs\<close>). A transaction changes the key-value store, the staking module
  (\<open>economics/staking.rs\<close>, \<open>economics/staking_tx.rs\<close>, \<open>economics/params.rs\<close>) or the contract
  machine (\<open>vm/state.rs\<close>, \<open>vm/gas.rs\<close>, \<open>vm/interpreter.rs\<close>).

  \<^bold>\<open>Conventions.\<close> An unsigned integer is a natural number and every operation that can leave its width takes
  the width: \<open>checked_add 64\<close>, \<open>saturating_add 128\<close>, \<open>wrapping_add 64\<close>. The release profile turns an overflow
  of a plain operator into a panic and a panic into the end of the process, so these are values of the
  model too: \<open>None\<close> or \<open>Panic\<close>. Errors are values of \<open>('e, 'a) result\<close>. A \<open>BTreeMap\<close> is a sorted
  association list; an operation with \<open>&mut self\<close> returns the new state with its result, so what it leaves
  behind when it fails is visible. Third-party code is an argument: hash functions, the hex encoding,
  the LRU cache, signatures, the process-wide hasher; so are the calls whose target is missing from the
  sources (see below). Hypotheses on such arguments are named (\<open>env_hex_ok\<close>, \<open>tally_sound\<close>, the locale
  \<open>lru_cache\<close>, injectivity of a hash on the byte strings that are hashed), and every theorem that uses one
  has a witness with a concrete instance. Counters of metrics, logging, and the floating-point
  \<open>quantum\<close> scoreboards, which no decision reads, are left out. An \<open>f64\<close> that is stored, hashed or compared with a
  bound is its 64 bits (\<open>F64\<close>); multiplication, \<open>exp\<close> and \<open>ln\<close> on it are arguments. A string has one
  byte per character: the model is exact for ASCII strings.

  \<^bold>\<open>Shared ground.\<close>
  \<^item> \<open>Iona_Prelude\<close>, \<open>F64\<close>, \<open>Btree_Map\<close>, \<open>Rust_Str\<close>, \<open>Bytes\<close>: machine integers and results; the bits of \<open>f64\<close>;
    ordered maps with the locale \<open>weighted_map\<close> (totals over a ledger) and its instance \<open>bt\<close>; decimal printing and parsing,
    splitting and trimming of strings; little-endian encodings and hexadecimal.
  \<^item> \<open>Lru_Cache\<close>: the interface of the LRU caches as the locale \<open>lru_cache\<close>, with a list as instance \<open>lc\<close>. The
    locales \<open>storage_cache\<close> and \<open>proposer_cache\<close> extend it for the two components that cache.

  \<^bold>\<open>Economics.\<close>
  \<^item> \<open>Staking\<close> (\<open>StakingState\<close>: \<open>delegate\<close>, \<open>undelegate\<close>, \<open>withdraw\<close>, \<open>slash\<close>, \<open>unjail\<close>,
    \<open>recompute_total_stake\<close>): the bond invariant holds over every run of operations; tokens are conserved;
    a slash cuts every holding by the same floor share, and undelegating first does not evade it.
  \<^item> \<open>Econ_Params\<close> (\<open>EconomicsParams\<close>): the slash calculators are total, exact and bounded on validated
    parameters.
  \<^item> \<open>Kv_State\<close>, \<open>Staking_Tx\<close> (\<open>try_apply_staking_tx\<close> and its five handlers): the total wealth of accounts and
    stakes is kept, a rejected transaction changes no holding, and a printed delegation is parsed
    and moves exactly that amount. A deregistration burns the self-delegation of the operator.

  \<^bold>\<open>The contract machine.\<close>
  \<^item> \<open>Vm_Memory\<close>, \<open>Vm_State\<close>: memory implements the flat byte array of the locale \<open>flat_memory\<close>; the cached
    storage answers what a plain map answers, except after a snapshot is applied, when stale values
    survive; transfers conserve balances, except from an account to itself.
  \<^item> \<open>Gas_Meter\<close>: used gas is monotone and bounded by the limit, refunds are capped.
  \<^item> \<open>Vm_Word\<close>, \<open>Vm_Arith\<close>: the byte-wise 256-bit arithmetic of the interpreter equals arithmetic modulo
    \<open>2 ^ 256\<close>; multiplication does not, \<open>mulmod\<close> panics, and signed division and \<open>addmod\<close> are exact
    outside the cases that are stated.

  \<^bold>\<open>Blocks.\<close>
  \<^item> \<open>Chain_Types\<close>: the bytes that are hashed for blocks, transactions and receipts determine them; the cache
    of hashes is transparent unless two inputs share a 64-bit key.
  \<^item> \<open>Merkle\<close>: the tree recursion ends exactly when there is a leaf (\<open>merkle_root_of\<close> is a
    \<open>partial_function\<close>, so an endless recursion is the value \<open>None\<close>); a root determines the entries; the
    cache of roots confuses states that agree in size, first and last entry.
  \<^item> \<open>Execution\<close>, \<open>Block_Verify\<close>: a transaction pays exactly its intrinsic gas and cannot be applied twice; a
    built block is accepted exactly when its transactions run without error and the nodes agree on the
    state root; a node with signature checks on accepts no block above the parallel thresholds with a base
    fee above zero.

  \<^bold>\<open>Consensus.\<close>
  \<^item> \<open>Validator_Set\<close>: quorums intersect in more than a third of the power; every window of rounds has each
    validator as proposer once; the cached proposer lookup equals the uncached one; the diagnosis of
    missing votes is optimal.
  \<^item> \<open>Messages\<close>, \<open>Double_Sign\<close>: the signed bytes determine the message; under the guard (the locale \<open>sign_once\<close>,
    instances \<open>gp\<close> and \<open>gv\<close>) nothing is signed twice, across failing reads and writes and restarts, as long as no
    process is started with a guard file that it cannot load; such a file is forgotten. Loading fails also
    when the chain hash does not fit the floating-point fields as they are read back from the file, of
    which nothing is assumed (\<open>load_saved_iff\<close> is the exact condition).
  \<^item> \<open>Consensus_Engine\<close>: every method of \<open>Engine\<close> as a function on a node record, which holds the engine with
    its block store, outbox, guard and cache of roots; \<open>engine_run\<close> is any sequence of calls.
  \<^item> \<open>Engine_Moves\<close>: the protocol as a relation of small moves; every call is a sequence of moves, so an
    invariant is checked move by move (locale \<open>move_invariant\<close>).
  \<^item> \<open>Engine_Safety\<close>: no equivocation, a well-formed state, sound commit certificates, over every run and for
    every tally that satisfies the locale \<open>vote_tally\<close> (instance \<open>lt\<close>).
  \<^item> \<open>Engine_Network\<close>: honest engines, an adversary with less than a third of the power and an arbitrary
    network: commits of one height and round agree.
  \<^item> \<open>Engine_Fork\<close>: across rounds they do not. Three honest validators are run to two different commits at
    one height.

  \<^bold>\<open>Bounds and fuel.\<close> No definition uses fuel: loops are structural recursion, folds, or terminate by a measure,
  and the Merkle recursion is a \<open>partial_function\<close> whose termination is characterised. Theorems about
  powers assume a total below \<open>2 ^ 63\<close>, where the threshold does not saturate; theorems about token
  amounts assume that the total fits the width of the amounts.

  \<^bold>\<open>Not modelled.\<close> Networking, storage files, RPC servers, command-line tools, metrics and telemetry are input
  and output. The floating-point scoreboards of the engine, of messages, of the executor and of the Merkle
  tree (coherence, purity, entropy) are not modelled: nothing modelled reads them. The purity and the
  entropy of the double-sign guard are modelled, because its chain hash covers them. An expiry time beyond the
  range of \<open>Instant\<close>, the \<open>debug_assert\<close> of \<open>merkle_root_of\<close> and UTF-8 sequences of several bytes are not modelled.
  The opcode handlers and the loop of \<open>vm/interpreter.rs\<close> use opcode constants (\<open>vm/opcodes.rs\<close>) and state methods
  (\<open>storage_read\<close>, \<open>storage_write\<close>, \<open>code\<close>, \<open>log\<close>) that the sources do not define; only the word arithmetic is modelled.
  \<open>VoteTally\<close> is used and nowhere defined, and the calls of \<open>execution.rs\<close> into staking and
  the contract machine pass arguments that fit no function of the sources: all of them are fields of
  the environments \<open>exec_env\<close> and \<open>engine_env\<close>. Lock files of the guard appear as the outcome of
  reading and writing, its backups do not change the guard file, and a write to the block store that
  fails stores nothing. The remaining components are listed with their reasons in the manifest of the
  development.
\<close>

end
